(* ===== verification/Octantis_Prelude.thy ===== *)
theory Octantis_Prelude
  imports Main
begin

text \<open>
  The shared part of the library: the values by which the model tells how a C++ operation can
  fail, the sequencing of operations that can fail, counted \<open>for\<close> loops, and the addresses
  (\<open>int *\<close> in the code) that the whole program uses as names.
\<close>

section \<open>Failures and sequencing\<close>

text \<open>
  \<^item> \<open>UB\<close>: the operation is undefined in C++ (a read through the end iterator of a map or
    list, a read outside a vector, a value-returning function that falls off its end, an
    uninitialised variable that is read);
  \<^item> \<open>Unreachable\<close>: \<open>llvm_unreachable\<close> with its message;
  \<^item> \<open>LoopForever\<close>: a loop whose exit condition is never met;
  \<^item> \<open>OutOfRange\<close>, \<open>InvalidArgument\<close>: the exceptions \<open>std::out_of_range\<close> and
    \<open>std::invalid_argument\<close> of the standard library.
\<close>

datatype error =
    UB string
  | Unreachable string
  | LoopForever string
  | OutOfRange string
  | InvalidArgument string

type_synonym 'a res = "error + 'a"

named_theorems res_simps \<open>rewriting of sequenced operations that may fail\<close>

definition ebind :: "'a res \<Rightarrow> ('a \<Rightarrow> 'b res) \<Rightarrow> 'b res" where
  "ebind m f = (case m of Inl e \<Rightarrow> Inl e | Inr x \<Rightarrow> f x)"

lemma ebind_simps [simp]:
  "ebind (Inl e) f = Inl e"
  "ebind (Inr x) f = f x"
  by (simp_all add: ebind_def)

lemma ebind_Inr_iff [res_simps]:
  "ebind m f = Inr y \<longleftrightarrow> (\<exists>x. m = Inr x \<and> f x = Inr y)"
  by (cases m) auto

lemma ebind_Inl_iff:
  "ebind m f = Inl e \<longleftrightarrow> m = Inl e \<or> (\<exists>x. m = Inr x \<and> f x = Inl e)"
  by (cases m) auto

lemma ebind_cong [fundef_cong]:
  "m = m' \<Longrightarrow> (\<And>x. m' = Inr x \<Longrightarrow> f x = f' x) \<Longrightarrow> ebind m f = ebind m' f'"
  by (cases m') auto

lemma ebind_assoc: "ebind (ebind m f) g = ebind m (\<lambda>x. ebind (f x) g)"
  by (cases m) auto

text \<open>A body executed once for each element of a list, stopping at the first failure.\<close>

fun efold :: "('a \<Rightarrow> 's \<Rightarrow> 's res) \<Rightarrow> 'a list \<Rightarrow> 's \<Rightarrow> 's res" where
  "efold f [] s = Inr s"
| "efold f (x # xs) s = ebind (f x s) (efold f xs)"

lemma efold_append [simp]:
  "efold f (xs @ ys) s = ebind (efold f xs s) (efold f ys)"
proof (induction xs arbitrary: s)
  case (Cons x xs)
  then show ?case by (cases "f x s") auto
qed simp

lemma efold_cong [fundef_cong]:
  assumes "xs = ys" "s = t" "\<And>x u. x \<in> set ys \<Longrightarrow> f x u = g x u"
  shows "efold f xs s = efold g ys t"
  using assms(3) unfolding assms(1,2)
  by (induction ys arbitrary: t) (auto simp: ebind_def split: sum.splits)

text \<open>A loop invariant carried over the elements of the list.\<close>

lemma efold_invariant:
  assumes "efold f xs s = Inr s'" and "P s"
    and "\<And>x u u'. x \<in> set xs \<Longrightarrow> P u \<Longrightarrow> f x u = Inr u' \<Longrightarrow> P u'"
  shows "P s'"
  using assms
proof (induction xs arbitrary: s)
  case Nil
  then show ?case by simp
next
  case (Cons x xs)
  from Cons.prems(1) obtain u where u: "f x s = Inr u" "efold f xs u = Inr s'"
    by (auto simp: res_simps)
  have "P u" using Cons.prems(2,3) u(1) by auto
  then show ?case using Cons.IH [OF u(2)] Cons.prems(3) by auto
qed

text \<open>A loop that cannot fail as long as its invariant holds.\<close>

lemma efold_total:
  assumes "P s" "\<And>x u. x \<in> set xs \<Longrightarrow> P u \<Longrightarrow> \<exists>u'. f x u = Inr u' \<and> P u'"
  shows "\<exists>s'. efold f xs s = Inr s' \<and> P s'"
  using assms
proof (induction xs arbitrary: s)
  case (Cons x xs)
  obtain u where u: "f x s = Inr u" "P u" using Cons.prems(2)[OF _ Cons.prems(1), of x] by auto
  have "\<exists>s'. efold f xs u = Inr s' \<and> P s'" by (rule Cons.IH[OF u(2)]) (use Cons.prems(2) in auto)
  then show ?case using u(1) by simp
qed simp

text \<open>A loop whose body cannot fail, and a loop that appends what its body computes.\<close>

lemma efold_pure:
  "(\<And>x u. x \<in> set xs \<Longrightarrow> f x u = Inr (g x u)) \<Longrightarrow> efold f xs s = Inr (fold g xs s)"
  by (induction xs arbitrary: s) auto

lemma efold_collect:
  "(\<And>x u. x \<in> set xs \<Longrightarrow> f x u = Inr (u @ g x)) \<Longrightarrow>
   efold f xs s = Inr (s @ concat (map g xs))"
  by (induction xs arbitrary: s) auto

section \<open>Counted loops\<close>

text \<open>
  \<open>for (int i = lo; i < hi; i += step)\<close>: the values \<open>i\<close> takes. When the loop is entered with
  a step that is not positive its condition never becomes false, so control does not reach the
  statement behind it (\<open>LoopForever\<close>; an undefined access of the body may come first).
\<close>

definition for_values :: "int \<Rightarrow> int \<Rightarrow> int \<Rightarrow> int list" where
  "for_values lo hi step = map (\<lambda>n. lo + int n * step) [0..<nat ((hi - lo + step - 1) div step)]"

definition for_range :: "int \<Rightarrow> int \<Rightarrow> int \<Rightarrow> int list res" where
  "for_range lo hi step =
     (if hi \<le> lo then Inr []
      else if step \<le> 0 then Inl (LoopForever ''for loop with a non-positive step'')
      else Inr (for_values lo hi step))"

definition for_loop :: "int \<Rightarrow> int \<Rightarrow> int \<Rightarrow> (int \<Rightarrow> 's \<Rightarrow> 's res) \<Rightarrow> 's \<Rightarrow> 's res" where
  "for_loop lo hi step body s = ebind (for_range lo hi step) (\<lambda>vals. efold body vals s)"

text \<open>Every value of the loop is reached, in order, and nothing else is.\<close>

lemma ceil_div_gt_iff:
  fixes d s :: int
  assumes "0 < s"
  shows "n < (d + s - 1) div s \<longleftrightarrow> n * s < d"
proof -
  define q where "q = (d + s - 1) div s"
  have lo: "q * s \<le> d + s - 1" and hi: "d + s - 1 < q * s + s"
    using assms pos_mod_bound [of s "d + s - 1"] pos_mod_sign [of s "d + s - 1"]
      div_mult_mod_eq [of "d + s - 1" s] unfolding q_def by linarith+
  have "n * s < d" if "n < q"
  proof -
    from that have "(n + 1) * s \<le> q * s" using assms by (intro mult_right_mono) auto
    with lo show ?thesis by (simp add: algebra_simps)
  qed
  moreover have "d \<le> n * s" if "q \<le> n"
  proof -
    from that have "q * s \<le> n * s" using assms by (intro mult_right_mono) auto
    with hi show ?thesis by linarith
  qed
  ultimately show ?thesis unfolding q_def by (meson not_le)
qed

lemma set_for_values:
  assumes "0 < step"
  shows "set (for_values lo hi step) = {i. \<exists>n::nat. i = lo + int n * step \<and> i < hi}"
proof -
  have key: "n < nat ((hi - lo + step - 1) div step) \<longleftrightarrow> lo + int n * step < hi" for n
  proof -
    have "n < nat ((hi - lo + step - 1) div step) \<longleftrightarrow> int n < (hi - lo + step - 1) div step"
      by linarith
    also have "\<dots> \<longleftrightarrow> int n * step < hi - lo" by (rule ceil_div_gt_iff [OF assms])
    finally show ?thesis by linarith
  qed
  have "set (for_values lo hi step) =
      (\<lambda>n. lo + int n * step) ` {n. n < nat ((hi - lo + step - 1) div step)}"
    by (simp only: for_values_def set_map set_upt atLeast0LessThan lessThan_def)
  then show ?thesis unfolding key by (simp add: image_def) (metis (no_types))
qed

lemma length_for_values:
  "length (for_values lo hi step) = nat ((hi - lo + step - 1) div step)"
  by (simp add: for_values_def)

lemma for_values_unit: "for_values lo hi 1 = map (\<lambda>n. lo + int n) [0..<nat (hi - lo)]"
  by (simp add: for_values_def)

lemma for_range_unit: "for_range lo hi 1 = Inr (map (\<lambda>n. lo + int n) [0..<nat (hi - lo)])"
  by (simp add: for_range_def for_values_unit)

lemma for_range_pos: "0 < step \<Longrightarrow> for_range lo hi step = Inr (for_values lo hi step)"
proof -
  assume "0 < step"
  moreover have "for_values lo hi step = []" if "hi \<le> lo"
  proof -
    have "\<not> lo + int n * step < hi" for n
      using that mult_nonneg_nonneg [of "int n" step] \<open>0 < step\<close> by linarith
    then have "set (for_values lo hi step) = {}"
      unfolding set_for_values [OF \<open>0 < step\<close>] by blast
    then show ?thesis by simp
  qed
  ultimately show ?thesis by (auto simp: for_range_def)
qed

lemma for_loop_upt: "for_loop 0 n 1 f s = efold f (map int [0..<nat n]) s"
  by (simp add: for_loop_def for_range_unit)

lemma for_loop_forever:
  "lo < hi \<Longrightarrow> step \<le> 0 \<Longrightarrow>
   for_loop lo hi step body s = Inl (LoopForever ''for loop with a non-positive step'')"
  by (simp add: for_loop_def for_range_def)

lemma for_loop_invariant:
  assumes "for_loop lo hi step body s = Inr s'" and "P s"
    and "\<And>i u u'. lo \<le> i \<Longrightarrow> i < hi \<Longrightarrow> P u \<Longrightarrow> body i u = Inr u' \<Longrightarrow> P u'"
  shows "P s'"
proof -
  from assms(1) obtain vals where vals: "for_range lo hi step = Inr vals" "efold body vals s = Inr s'"
    by (auto simp: for_loop_def res_simps)
  have "lo \<le> i \<and> i < hi" if "i \<in> set vals" for i
    using vals(1) that set_for_values [of step lo hi]
    by (auto simp: for_range_def split: if_splits)
  then show ?thesis using efold_invariant [where P = P, OF vals(2) assms(2)] assms(3) by blast
qed

section \<open>Addresses\<close>

text \<open>
  The code names everything by an \<open>int *\<close>: LLVM values and basic blocks by their address cast
  to \<open>int *\<close>, rows of the LiM array by pointers counted up from 0. An address is an integer;
  \<open>p++\<close> on an \<open>int *\<close> adds the size of an \<open>int\<close>, and \<open>std::map<int *, T>\<close> orders its keys by
  address.
\<close>

type_synonym ptr = int

definition nullptr :: ptr where "nullptr = 0"

definition ptr_incr :: "ptr \<Rightarrow> ptr" where "ptr_incr p = p + 4"

definition ptr_decr :: "ptr \<Rightarrow> ptr" where "ptr_decr p = p - 4"

text \<open>
  \<open>advance(it, n); *it\<close> on a \<open>std::list\<close> of which \<open>it\<close> is the first position.
\<close>

definition list_at :: "'a list \<Rightarrow> int \<Rightarrow> 'a res" where
  "list_at xs n =
     (if 0 \<le> n \<and> n < int (length xs) then Inr (xs ! nat n)
      else Inl (UB ''list iterator dereferenced outside the list''))"

lemma list_at_Inr_iff [res_simps]:
  "list_at xs n = Inr x \<longleftrightarrow> 0 \<le> n \<and> n < int (length xs) \<and> x = xs ! nat n"
  by (auto simp: list_at_def)

lemma list_at_nth: "n < length xs \<Longrightarrow> list_at xs (int n) = Inr (xs ! n)"
  by (simp add: list_at_def)

lemma list_at_mem: "list_at xs n = Inr x \<Longrightarrow> x \<in> set xs"
  by (auto simp: res_simps)

definition list_front :: "'a list \<Rightarrow> 'a res" where
  "list_front xs = (case xs of [] \<Rightarrow> Inl (UB ''front() of an empty list'') | x # _ \<Rightarrow> Inr x)"

definition list_back :: "'a list \<Rightarrow> 'a res" where
  "list_back xs = (if xs = [] then Inl (UB ''back() of an empty list'') else Inr (last xs))"

lemma list_front_Inr_iff [res_simps]: "list_front xs = Inr x \<longleftrightarrow> (\<exists>ys. xs = x # ys)"
  by (cases xs) (auto simp: list_front_def)

lemma list_back_Inr_iff [res_simps]: "list_back xs = Inr x \<longleftrightarrow> xs \<noteq> [] \<and> x = last xs"
  by (auto simp: list_back_def)

text \<open>\<open>llvm_unreachable\<close> and a dereferenced end iterator, for lookups that give an option.\<close>

definition or_fail :: "error \<Rightarrow> 'a option \<Rightarrow> 'a res" where
  "or_fail e x = (case x of None \<Rightarrow> Inl e | Some v \<Rightarrow> Inr v)"

lemma or_fail_simps [simp]: "or_fail e None = Inl e" "or_fail e (Some v) = Inr v"
  by (simp_all add: or_fail_def)

lemma or_fail_Inr_iff [res_simps]: "or_fail e x = Inr v \<longleftrightarrow> x = Some v"
  by (cases x) auto

end
