(* ===== verification/Std_Map.thy ===== *)
theory Std_Map
  imports Octantis_Prelude
begin

text \<open>
  \<open>std::map\<close>, which every table of the program is built on: a finite map whose iteration
  order is the order of its keys. The locale \<open>ordered_map\<close> states what the clients use of it
  (\<open>insert\<close> keeps an entry that is already there, an assignment through an iterator changes an
  entry that is there and nothing else, iteration visits the keys in ascending order), and proves
  what they share; its model is an association list with ascending keys.
\<close>

section \<open>The interface\<close>

locale ordered_map =
  fixes lookup :: "'m \<Rightarrow> 'k::linorder \<Rightarrow> 'v option"
    and insert :: "'k \<Rightarrow> 'v \<Rightarrow> 'm \<Rightarrow> 'm"
    and modify :: "'k \<Rightarrow> ('v \<Rightarrow> 'v) \<Rightarrow> 'm \<Rightarrow> 'm"
    and erase :: "'k \<Rightarrow> 'm \<Rightarrow> 'm"
    and entries :: "'m \<Rightarrow> ('k \<times> 'v) list"
    and invar :: "'m \<Rightarrow> bool"
  assumes entries_sorted: "invar m \<Longrightarrow> sorted_wrt (<) (map fst (entries m))"
    and lookup_entries: "invar m \<Longrightarrow> lookup m k = map_of (entries m) k"
    and lookup_insert: "invar m \<Longrightarrow>
      lookup (insert k v m) k' = (if k' = k \<and> lookup m k = None then Some v else lookup m k')"
    and lookup_modify: "invar m \<Longrightarrow>
      lookup (modify k f m) k' = (if k' = k then map_option f (lookup m k) else lookup m k')"
    and lookup_erase: "invar m \<Longrightarrow> lookup (erase k m) k' = (if k' = k then None else lookup m k')"
    and invar_insert: "invar m \<Longrightarrow> invar (insert k v m)"
    and invar_modify: "invar m \<Longrightarrow> invar (modify k f m)"
    and invar_erase: "invar m \<Longrightarrow> invar (erase k m)"
begin

lemma distinct_entries: "invar m \<Longrightarrow> distinct (map fst (entries m))"
  using entries_sorted strict_sorted_iff by blast

lemma entries_iff: "invar m \<Longrightarrow> (k, v) \<in> set (entries m) \<longleftrightarrow> lookup m k = Some v"
  by (simp add: lookup_entries distinct_entries)

lemma keys_iff: "invar m \<Longrightarrow> k \<in> set (map fst (entries m)) \<longleftrightarrow> lookup m k \<noteq> None"
  by (simp add: lookup_entries map_of_eq_None_iff)

lemma dom_lookup: "invar m \<Longrightarrow> dom (lookup m) = fst ` set (entries m)"
  using keys_iff [of m] by (auto simp: dom_def)

text \<open>An insertion of a key that is present leaves every lookup as it was.\<close>

lemma insert_present: "invar m \<Longrightarrow> lookup m k \<noteq> None \<Longrightarrow> lookup (insert k v m) = lookup m"
  by (auto simp: lookup_insert fun_eq_iff)

lemma insert_absent:
  "invar m \<Longrightarrow> lookup m k = None \<Longrightarrow> lookup (insert k v m) = (lookup m)(k \<mapsto> v)"
  by (auto simp: lookup_insert fun_eq_iff)

lemma dom_insert: "invar m \<Longrightarrow> dom (lookup (insert k v m)) = {k} \<union> dom (lookup m)"
  by (auto simp: lookup_insert split: if_splits)

lemma dom_modify: "invar m \<Longrightarrow> dom (lookup (modify k f m)) = dom (lookup m)"
  by (auto simp: lookup_modify split: if_splits)

lemma dom_erase: "invar m \<Longrightarrow> dom (lookup (erase k m)) = dom (lookup m) - {k}"
  by (auto simp: lookup_erase split: if_splits)

text \<open>Of many insertions of one key the first one counts.\<close>

lemma invar_insert_all: "invar m \<Longrightarrow> invar (fold (\<lambda>(k, v). insert k v) kvs m)"
  by (induction kvs arbitrary: m) (auto simp: invar_insert)

lemma lookup_insert_all:
  "invar m \<Longrightarrow> lookup (fold (\<lambda>(k, v). insert k v) kvs m) k =
     (case lookup m k of None \<Rightarrow> map_of kvs k | Some v \<Rightarrow> Some v)"
  by (induction kvs arbitrary: m) (auto simp: invar_insert lookup_insert split: option.splits)

text \<open>Iteration visits smaller keys first.\<close>

lemma entries_split_less:
  assumes "invar m" and "entries m = xs @ (k, v) # ys"
  shows "(a, b) \<in> set xs \<Longrightarrow> a < k" and "(a, b) \<in> set ys \<Longrightarrow> k < a"
  using entries_sorted [OF assms(1)] unfolding assms(2) by (force simp: sorted_wrt_append)+

end

section \<open>The model\<close>

type_synonym ('k, 'v) smap = "('k \<times> 'v) list"

definition sm_inv :: "('k::linorder, 'v) smap \<Rightarrow> bool" where
  "sm_inv m \<longleftrightarrow> sorted_wrt (<) (map fst m)"

definition sm_find :: "('k::linorder, 'v) smap \<Rightarrow> 'k \<Rightarrow> 'v option" where
  "sm_find m k = map_of m k"

fun sm_insert :: "'k::linorder \<Rightarrow> 'v \<Rightarrow> ('k, 'v) smap \<Rightarrow> ('k, 'v) smap" where
  "sm_insert k v [] = [(k, v)]"
| "sm_insert k v ((a, b) # m) =
     (if k < a then (k, v) # (a, b) # m
      else if k = a then (a, b) # m
      else (a, b) # sm_insert k v m)"

definition sm_modify :: "'k::linorder \<Rightarrow> ('v \<Rightarrow> 'v) \<Rightarrow> ('k, 'v) smap \<Rightarrow> ('k, 'v) smap" where
  "sm_modify k f m = map (\<lambda>(a, b). if a = k then (a, f b) else (a, b)) m"

definition sm_erase :: "'k::linorder \<Rightarrow> ('k, 'v) smap \<Rightarrow> ('k, 'v) smap" where
  "sm_erase k m = filter (\<lambda>(a, b). a \<noteq> k) m"

lemma sm_inv_simps [simp]:
  "sm_inv []"
  "sm_inv ((k, v) # m) \<longleftrightarrow> (\<forall>a \<in> fst ` set m. k < a) \<and> sm_inv m"
  by (auto simp: sm_inv_def)

lemma sm_find_simps [simp]:
  "sm_find [] k = None"
  "sm_find ((a, b) # m) k = (if k = a then Some b else sm_find m k)"
  by (auto simp: sm_find_def)

lemma fst_sm_insert: "fst ` set (sm_insert k v m) = {k} \<union> fst ` set m"
  by (induction k v m rule: sm_insert.induct) auto

lemma sm_inv_insert [simp, intro]: "sm_inv m \<Longrightarrow> sm_inv (sm_insert k v m)"
  by (induction k v m rule: sm_insert.induct) (auto simp: fst_sm_insert)

lemma sm_find_above: "\<forall>a \<in> fst ` set m. k < a \<Longrightarrow> sm_find m k = None"
  by (auto simp: sm_find_def map_of_eq_None_iff)

lemma sm_find_insert:
  "sm_inv m \<Longrightarrow>
   sm_find (sm_insert k v m) k' = (if k' = k \<and> sm_find m k = None then Some v else sm_find m k')"
proof (induction k v m rule: sm_insert.induct)
  case (2 k v a b m)
  have "sm_find m k = None" if "k < a"
    using that "2.prems" by (intro sm_find_above) (auto intro: order_less_trans)
  with 2 show ?case by auto
qed simp

lemma fst_sm_modify [simp]: "map fst (sm_modify k f m) = map fst m"
  by (auto simp: sm_modify_def split: prod.splits)

lemma sm_inv_modify [simp, intro]: "sm_inv m \<Longrightarrow> sm_inv (sm_modify k f m)"
  by (simp add: sm_inv_def)

lemma sm_find_modify:
  "sm_find (sm_modify k f m) k' = (if k' = k then map_option f (sm_find m k) else sm_find m k')"
  by (induction m) (auto simp: sm_modify_def)

lemma sm_inv_erase [simp, intro]: "sm_inv m \<Longrightarrow> sm_inv (sm_erase k m)"
  by (induction m) (auto simp: sm_erase_def)

lemma sm_find_erase: "sm_find (sm_erase k m) k' = (if k' = k then None else sm_find m k')"
  by (induction m) (auto simp: sm_erase_def)

interpretation sm: ordered_map sm_find sm_insert sm_modify sm_erase "\<lambda>m. m" sm_inv
  by unfold_locales
    (auto simp: sm_find_insert sm_find_modify sm_find_erase sm_find_def [symmetric], auto simp: sm_inv_def sm_find_def)

lemmas sm_lookups = sm_find_insert sm_find_modify sm_find_erase

lemma sm_modify_id: "sm_find m k = None \<Longrightarrow> sm_modify k f m = m"
  by (induction m) (auto simp: sm_modify_def split: if_splits)

lemma sm_modify_same: "sm_inv m \<Longrightarrow> sm_find m k = Some v \<Longrightarrow> f v = v \<Longrightarrow> sm_modify k f m = m"
proof (induction m)
  case (Cons e m)
  obtain a b where e: "e = (a, b)" by (cases e)
  show ?case
  proof (cases "k = a")
    case True
    then have "sm_modify k f m = m" using Cons.prems(1) e by (intro sm_modify_id sm_find_above) simp
    then show ?thesis using True e Cons.prems by (simp add: sm_modify_def)
  next
    case False
    then show ?thesis using Cons e by (simp add: sm_modify_def)
  qed
qed simp

lemma sm_insert_present: "sm_inv m \<Longrightarrow> sm_find m k \<noteq> None \<Longrightarrow> sm_insert k v m = m"
proof (induction k v m rule: sm_insert.induct)
  case (2 k v a b m)
  have "sm_find m k = None" if "k < a"
    using that "2.prems" by (intro sm_find_above) (auto intro: order_less_trans)
  with 2 show ?case by auto
qed simp

end
