(* ===== verification/Operation_Tables.thy ===== *)
theory Operation_Tables
  imports Octantis_Prelude
begin

text \<open>
  The constant tables of \<open>Utils\<close>: the operations the tool knows with their kind
  (\<open>OperationsImplemented.h\<close>), their delays (\<open>OperationsDelay\<close>) and the negated form of a logic
  operator (\<open>AdditionalLogicPorts\<close>).
\<close>

definition LimOperations :: "(string \<times> string) list" where
  "LimOperations =
     [(''load'', ''null''), (''add'', ''arith''), (''sub'', ''arith''), (''shl'', ''arith''),
      (''shr'', ''arith''), (''ashr'', ''arith''), (''sdiv'', ''arith''), (''mul'', ''arith''),
      (''and'', ''bitwise''), (''nand'', ''bitwise''), (''or'', ''bitwise''), (''nor'', ''bitwise''),
      (''xnor'', ''bitwise''), (''xor'', ''bitwise''), (''switch'', ''bitwise'')]"

definition PeriperalOperations :: "string list" where
  "PeriperalOperations = [''mux'', ''popcount'', ''upcount'']"

definition is_lim_operation :: "string \<Rightarrow> bool" where
  "is_lim_operation op \<longleftrightarrow> map_of LimOperations op \<noteq> None"

definition delayMap :: "(string \<times> int) list" where
  "delayMap =
     [(''and'', 1), (''nand'', 1), (''or'', 1), (''nor'', 1), (''xor'', 1), (''xnor'', 1),
      (''add'', 1), (''sub'', 1), (''mul'', 1)]"

definition getOperationDelay :: "string \<Rightarrow> int" where
  "getOperationDelay operation =
     (case map_of delayMap operation of Some d \<Rightarrow> d | None \<Rightarrow> -1)"

definition negativeLogic :: "(string \<times> string) list" where
  "negativeLogic = [(''and'', ''nand''), (''or'', ''nor''), (''xor'', ''xnor'')]"

definition getNegativeLogic :: "string \<Rightarrow> string res" where
  "getNegativeLogic logic =
     or_fail (Unreachable ''Error in AdditionalLogicPorts: The input logic port is unknown.'')
       (map_of negativeLogic logic)"

lemma getOperationDelay_range: "getOperationDelay op = 1 \<or> getOperationDelay op = -1"
  by (simp add: getOperationDelay_def delayMap_def)

lemma getOperationDelay_pos_iff: "getOperationDelay op = 1 \<longleftrightarrow> op \<in> fst ` set delayMap"
  by (simp add: getOperationDelay_def delayMap_def)

text \<open>The operations without a delay: the loads, the switch, the division and the shifts.\<close>

lemma lim_operations_without_delay:
  "{op. is_lim_operation op \<and> getOperationDelay op = -1} =
     {''load'', ''switch'', ''sdiv'', ''shl'', ''shr'', ''ashr''}"
  by (auto simp: is_lim_operation_def LimOperations_def getOperationDelay_def delayMap_def)

lemma lshr_is_no_lim_operation: "\<not> is_lim_operation ''lshr''"
  by (simp add: is_lim_operation_def LimOperations_def)

lemma negative_logic_is_implemented:
  "getNegativeLogic op = Inr op' \<Longrightarrow> is_lim_operation op' \<and> getOperationDelay op' = 1"
  by (auto simp: getNegativeLogic_def negativeLogic_def is_lim_operation_def LimOperations_def
      getOperationDelay_def delayMap_def res_simps split: if_splits)

end
