(* ===== verification/Instruction_Table.thy ===== *)
theory Instruction_Table
  imports Std_Map Operation_Tables "HOL-Library.Multiset"
begin

text \<open>
  \<open>Utils/InstructionTable\<close>: the instructions to be bound, keyed by the register that holds their
  result, with the list of their keys in the order in which they were found.
\<close>

section \<open>Data\<close>

datatype operandType =
    singleVariable
  | temporaryVariable
  | arrayOperand
  | constantOperand
  | fakeArray
  | undefinedOperand

record instructionData =
  ti :: int
  di :: int
  operation :: string
  specifications :: "string list"
  destinationReg :: ptr
  destRegType :: operandType
  destRegPrt :: ptr
  sourceReg1 :: ptr
  srcReg1Type :: operandType
  srcReg1Ptr :: ptr
  sourceReg2 :: ptr
  srcReg2Type :: operandType
  srcReg2Ptr :: ptr
  isInLoopBody :: bool

record instructionTable =
  instructionMap :: "(ptr, instructionData) smap"
  instructionOrderVector :: "(ptr \<times> string) list"

definition empty_IT :: instructionTable where
  "empty_IT = \<lparr>instructionMap = [], instructionOrderVector = []\<rparr>"

section \<open>Operations\<close>

definition changeOperationOfInstruction :: "ptr \<Rightarrow> string \<Rightarrow> instructionTable \<Rightarrow> instructionTable" where
  "changeOperationOfInstruction destReg newOperation it =
     it\<lparr>instructionMap :=
       sm_modify destReg (\<lambda>d. d\<lparr>operation := newOperation\<rparr>) (instructionMap it)\<rparr>"

definition insertInstruction :: "instructionData \<Rightarrow> instructionTable \<Rightarrow> instructionTable" where
  "insertInstruction d it =
     it\<lparr>instructionMap := sm_insert (destinationReg d) (d\<lparr>specifications := []\<rparr>) (instructionMap it),
        instructionOrderVector := instructionOrderVector it @ [(destinationReg d, operation d)]\<rparr>"

definition insertDestPtr :: "ptr \<Rightarrow> ptr \<Rightarrow> instructionTable \<Rightarrow> instructionTable" where
  "insertDestPtr destReg destRegPtr it =
     it\<lparr>instructionMap := sm_modify destReg (\<lambda>d. d\<lparr>destRegPrt := destRegPtr\<rparr>) (instructionMap it)\<rparr>"

definition insertInstructionWithSpecs :: "instructionData \<Rightarrow> instructionTable \<Rightarrow> instructionTable" where
  "insertInstructionWithSpecs d it =
     it\<lparr>instructionMap := sm_insert (destinationReg d) d (instructionMap it)\<rparr>"

definition load_data :: "ptr \<Rightarrow> operandType \<Rightarrow> instructionData" where
  "load_data destReg oT =
     \<lparr>ti = 0, di = 0, operation = ''load'', specifications = [],
      destinationReg = destReg, destRegType = oT, destRegPrt = nullptr,
      sourceReg1 = nullptr, srcReg1Type = undefinedOperand, srcReg1Ptr = nullptr,
      sourceReg2 = nullptr, srcReg2Type = undefinedOperand, srcReg2Ptr = nullptr,
      isInLoopBody = False\<rparr>"

definition insertLoadInstruction :: "ptr \<Rightarrow> operandType \<Rightarrow> instructionTable \<Rightarrow> instructionTable" where
  "insertLoadInstruction destReg oT it =
     (if sm_find (instructionMap it) destReg = None then
        it\<lparr>instructionMap := sm_insert destReg (load_data destReg oT) (instructionMap it),
           instructionOrderVector := instructionOrderVector it @ [(destReg, ''load'')]\<rparr>
      else it)"

text \<open>The condition of \<open>modifyLoadInstruction\<close> is the one of an insertion: it writes where nothing is found.\<close>

definition modifyLoadInstruction :: "ptr \<Rightarrow> ptr \<Rightarrow> ptr \<Rightarrow> instructionTable \<Rightarrow> instructionTable res" where
  "modifyLoadInstruction destReg newDestReg newDestRegPtr it =
     (if sm_find (instructionMap it) destReg = None
      then Inl (UB ''modifyLoadInstruction writes the end of instructionMap'')
      else Inr it)"

definition addSpecToInstruction :: "ptr \<Rightarrow> string \<Rightarrow> instructionTable \<Rightarrow> instructionTable" where
  "addSpecToInstruction destReg spec it =
     it\<lparr>instructionMap :=
       sm_modify destReg (\<lambda>d. d\<lparr>specifications := specifications d @ [spec]\<rparr>) (instructionMap it)\<rparr>"

definition set_field :: "string \<Rightarrow> ptr \<Rightarrow> operandType \<Rightarrow> instructionData \<Rightarrow> instructionData" where
  "set_field field newField oT d =
     (if field = ''srcReg1'' then d\<lparr>sourceReg1 := newField\<rparr>
      else if field = ''srcReg1Ptr'' then d\<lparr>srcReg1Ptr := newField\<rparr>
      else if field = ''srcReg2'' then d\<lparr>sourceReg2 := newField\<rparr>
      else if field = ''srcReg2Ptr'' then d\<lparr>srcReg2Ptr := newField\<rparr>
      else if field = ''destReg'' then d\<lparr>destinationReg := newField\<rparr>
      else if field = ''destRegPtr'' then d\<lparr>destRegPrt := newField\<rparr>
      else if field = ''destRegType'' then d\<lparr>destRegType := oT\<rparr>
      else if field = ''srcReg1Type'' then d\<lparr>srcReg1Type := oT\<rparr>
      else if field = ''srcReg2Type'' then d\<lparr>srcReg2Type := oT\<rparr>
      else d)"

definition modifyGivenField ::
  "ptr \<Rightarrow> string \<Rightarrow> ptr \<Rightarrow> operandType \<Rightarrow> instructionTable \<Rightarrow> instructionTable" where
  "modifyGivenField destReg field newField oT it =
     it\<lparr>instructionMap := sm_modify destReg (set_field field newField oT) (instructionMap it)\<rparr>"

definition swapOperands :: "ptr \<Rightarrow> instructionTable \<Rightarrow> instructionTable res" where
  "swapOperands destReg it =
     (if sm_find (instructionMap it) destReg = None
      then Inl (UB ''swapOperands writes the end of instructionMap'')
      else Inr (it\<lparr>instructionMap := sm_modify destReg
             (\<lambda>d. d\<lparr>sourceReg1 := sourceReg2 d, srcReg1Ptr := srcReg2Ptr d, srcReg1Type := srcReg2Type d,
                   sourceReg2 := sourceReg1 d, srcReg2Ptr := srcReg1Ptr d, srcReg2Type := srcReg1Type d,
                   destRegPrt := srcReg1Ptr d\<rparr>) (instructionMap it)\<rparr>))"

definition setInstructionTimeAndDelay :: "ptr \<Rightarrow> int \<Rightarrow> int \<Rightarrow> instructionTable \<Rightarrow> instructionTable" where
  "setInstructionTimeAndDelay destReg time delay it =
     it\<lparr>instructionMap := sm_modify destReg (\<lambda>d. d\<lparr>ti := time, di := delay\<rparr>) (instructionMap it)\<rparr>"

definition getAvailableTime :: "instructionTable \<Rightarrow> ptr \<Rightarrow> int res" where
  "getAvailableTime it srcReg =
     ebind (or_fail (UB ''getAvailableTime reads the end of instructionMap'')
              (sm_find (instructionMap it) srcReg))
       (\<lambda>d. Inr (ti d + di d))"

definition insertNewInstructionDestReg ::
  "string \<Rightarrow> ptr \<Rightarrow> ptr \<Rightarrow> instructionTable \<Rightarrow> (int \<times> instructionTable) res" where
  "insertNewInstructionDestReg op newDestReg oldDestReg it =
     ebind (or_fail (UB ''insertNewInstructionDestReg reads the end of instructionMap'')
              (sm_find (instructionMap it) oldDestReg))
       (\<lambda>d. Inr (ti d,
          it\<lparr>instructionMap :=
            sm_insert newDestReg (d\<lparr>destinationReg := newDestReg, operation := op\<rparr>) (instructionMap it)\<rparr>))"

definition reorderInstructionVector :: "instructionTable \<Rightarrow> instructionTable" where
  "reorderInstructionVector it =
     it\<lparr>instructionOrderVector :=
       filter (\<lambda>p. snd p = ''load'') (instructionOrderVector it) @
       filter (\<lambda>p. snd p \<noteq> ''load'') (instructionOrderVector it)\<rparr>"

section \<open>Invariant\<close>

text \<open>
  The map is well-formed, every key of the order vector has an entry, and every entry that
  names itself in \<open>destinationReg\<close> when it is inserted keeps its key.
\<close>

definition it_inv :: "instructionTable \<Rightarrow> bool" where
  "it_inv it \<longleftrightarrow> sm_inv (instructionMap it) \<and>
     fst ` set (instructionOrderVector it) \<subseteq> dom (sm_find (instructionMap it))"

lemma it_invD: "it_inv it \<Longrightarrow> sm_inv (instructionMap it)"
  by (simp add: it_inv_def)

lemma it_inv_empty [simp]: "it_inv empty_IT"
  by (simp add: it_inv_def empty_IT_def)

lemma it_inv_modify:
  "it_inv it \<Longrightarrow> it_inv (it\<lparr>instructionMap := sm_modify k f (instructionMap it)\<rparr>)"
  by (simp add: it_inv_def sm.dom_modify)

lemma it_inv_insert:
  "it_inv it \<Longrightarrow> it_inv (it\<lparr>instructionMap := sm_insert k d (instructionMap it)\<rparr>)"
  by (auto simp: it_inv_def sm.dom_insert)

lemma it_inv_insert_order:
  "it_inv it \<Longrightarrow>
   it_inv (it\<lparr>instructionMap := sm_insert k d (instructionMap it),
             instructionOrderVector := instructionOrderVector it @ [(k, op)]\<rparr>)"
  by (auto simp: it_inv_def sm.dom_insert)

lemma it_inv_reorder: "it_inv it \<Longrightarrow> it_inv (reorderInstructionVector it)"
  by (auto simp: it_inv_def reorderInstructionVector_def)

text \<open>
  A sequence of operations, as the analysis performs them on the table it is handed.
\<close>

datatype it_op =
    Op_insert instructionData
  | Op_insertWithSpecs instructionData
  | Op_insertLoad ptr operandType
  | Op_changeOperation ptr string
  | Op_insertDestPtr ptr ptr
  | Op_modifyLoad ptr ptr ptr
  | Op_addSpec ptr string
  | Op_modifyField ptr string ptr operandType
  | Op_swap ptr
  | Op_setTime ptr int int
  | Op_newDestReg string ptr ptr
  | Op_reorder

fun it_apply :: "it_op \<Rightarrow> instructionTable \<Rightarrow> instructionTable res" where
  "it_apply (Op_insert d) it = Inr (insertInstruction d it)"
| "it_apply (Op_insertWithSpecs d) it = Inr (insertInstructionWithSpecs d it)"
| "it_apply (Op_insertLoad k oT) it = Inr (insertLoadInstruction k oT it)"
| "it_apply (Op_changeOperation k op) it = Inr (changeOperationOfInstruction k op it)"
| "it_apply (Op_insertDestPtr k p) it = Inr (insertDestPtr k p it)"
| "it_apply (Op_modifyLoad k p q) it = modifyLoadInstruction k p q it"
| "it_apply (Op_addSpec k s) it = Inr (addSpecToInstruction k s it)"
| "it_apply (Op_modifyField k f p oT) it = Inr (modifyGivenField k f p oT it)"
| "it_apply (Op_swap k) it = swapOperands k it"
| "it_apply (Op_setTime k t e) it = Inr (setInstructionTimeAndDelay k t e it)"
| "it_apply (Op_newDestReg op p k) it = ebind (insertNewInstructionDestReg op p k it) (\<lambda>r. Inr (snd r))"
| "it_apply Op_reorder it = Inr (reorderInstructionVector it)"

lemmas it_op_defs = insertInstruction_def insertInstructionWithSpecs_def insertLoadInstruction_def
  changeOperationOfInstruction_def insertDestPtr_def modifyLoadInstruction_def addSpecToInstruction_def
  modifyGivenField_def swapOperands_def setInstructionTimeAndDelay_def insertNewInstructionDestReg_def

lemma it_apply_inv: "it_inv it \<Longrightarrow> it_apply op it = Inr it' \<Longrightarrow> it_inv it'"
  by (cases op)
    (auto simp: it_op_defs res_simps intro: it_inv_modify it_inv_insert it_inv_insert_order it_inv_reorder
      split: if_splits)

lemma it_apply_dom:
  "it_inv it \<Longrightarrow> it_apply op it = Inr it' \<Longrightarrow>
   dom (sm_find (instructionMap it)) \<subseteq> dom (sm_find (instructionMap it'))"
  by (cases op)
    (auto simp: it_op_defs res_simps it_invD sm_lookups reorderInstructionVector_def split: if_splits)

text \<open>
  What a sequence of operations enters, in terms of the operations alone: the operators, in order, the keys
  that get an entry, and the registers that are listed as loaded, given the keys that have an entry.
\<close>

fun listed_operator :: "it_op \<Rightarrow> (ptr \<times> string) list" where
  "listed_operator (Op_insert d) = (if operation d = ''load'' then [] else [(destinationReg d, operation d)])"
| "listed_operator _ = []"

fun entered_keys :: "it_op \<Rightarrow> ptr set" where
  "entered_keys (Op_insert d) = {destinationReg d}"
| "entered_keys (Op_insertWithSpecs d) = {destinationReg d}"
| "entered_keys (Op_insertLoad k oT) = {k}"
| "entered_keys (Op_newDestReg op p k) = {p}"
| "entered_keys _ = {}"

fun listed_load :: "ptr set \<Rightarrow> it_op \<Rightarrow> ptr list" where
  "listed_load K (Op_insert d) = (if operation d = ''load'' then [destinationReg d] else [])"
| "listed_load K (Op_insertLoad k oT) = (if k \<in> K then [] else [k])"
| "listed_load K _ = []"

fun listed_loads :: "ptr set \<Rightarrow> it_op list \<Rightarrow> ptr list" where
  "listed_loads K [] = []"
| "listed_loads K (op # ops) = listed_load K op @ listed_loads (K \<union> entered_keys op) ops"

abbreviation loads_of :: "instructionTable \<Rightarrow> (ptr \<times> string) list" where
  "loads_of it \<equiv> filter (\<lambda>p. snd p = ''load'') (instructionOrderVector it)"

abbreviation operators_of :: "instructionTable \<Rightarrow> (ptr \<times> string) list" where
  "operators_of it \<equiv> filter (\<lambda>p. snd p \<noteq> ''load'') (instructionOrderVector it)"

lemma it_apply_lists:
  assumes "it_inv it" "it_apply op it = Inr it'"
  shows "operators_of it' = operators_of it @ listed_operator op"
    "loads_of it' = loads_of it @ map (\<lambda>k. (k, ''load'')) (listed_load (dom (sm_find (instructionMap it))) op)"
    "dom (sm_find (instructionMap it')) = dom (sm_find (instructionMap it)) \<union> entered_keys op"
  using assms
  by (cases op; auto simp: it_op_defs res_simps reorderInstructionVector_def it_invD sm_lookups filter_empty_conv
      split: if_splits)+

lemma it_run_lists:
  assumes "efold it_apply ops it = Inr it'" "it_inv it"
  shows "operators_of it' = operators_of it @ concat (map listed_operator ops) \<and>
    loads_of it' = loads_of it @ map (\<lambda>k. (k, ''load'')) (listed_loads (dom (sm_find (instructionMap it))) ops) \<and>
    dom (sm_find (instructionMap it')) = dom (sm_find (instructionMap it)) \<union> \<Union> (entered_keys ` set ops) \<and> it_inv it'"
  using assms
proof (induction ops arbitrary: it)
  case (Cons op ops)
  obtain u where u: "it_apply op it = Inr u" "efold it_apply ops u = Inr it'" using Cons.prems(1) by (auto simp: res_simps)
  note step = it_apply_lists[OF Cons.prems(2) u(1)]
  from Cons.IH[OF u(2) it_apply_inv[OF Cons.prems(2) u(1)]] show ?case by (simp add: step Un_assoc)
qed simp

text \<open>
  C26: the order in which the binder gets the instructions, after any sequence of the operations of the
  table, reorderings in between included, and a last reordering: first every register that was loaded when
  it had no entry, in the order of the loads, then every operator that was inserted, in the order of the
  insertions, each as often as it was inserted; and the keys of the map are those that were entered.
\<close>

theorem instruction_order:
  assumes "efold it_apply (ops @ [Op_reorder]) empty_IT = Inr it"
  shows "instructionOrderVector it = map (\<lambda>k. (k, ''load'')) (listed_loads {} ops) @ concat (map listed_operator ops) \<and>
    dom (sm_find (instructionMap it)) = \<Union> (entered_keys ` set ops) \<and> sm_inv (instructionMap it)"
proof -
  obtain u where u: "efold it_apply ops empty_IT = Inr u" "it = reorderInstructionVector u"
    using assms by (auto simp: res_simps)
  have empty: "it_inv empty_IT" "dom (sm_find (instructionMap empty_IT)) = {}" "instructionOrderVector empty_IT = []"
    by (simp_all add: it_inv_def empty_IT_def dom_def)
  from it_run_lists[OF u(1) empty(1)] show ?thesis
    by (simp add: u(2) empty(2,3) reorderInstructionVector_def it_inv_def)
qed

theorem instruction_order_witness:
  "\<exists>it. efold it_apply [Op_insertLoad 8 singleVariable, Op_insert ((load_data 12 singleVariable)\<lparr>operation := ''and''\<rparr>),
       Op_reorder, Op_insertLoad 4 arrayOperand, Op_insertLoad 8 singleVariable,
       Op_insert ((load_data 2 singleVariable)\<lparr>operation := ''or''\<rparr>), Op_reorder] empty_IT = Inr it \<and>
     instructionOrderVector it = [(8, ''load''), (4, ''load''), (12, ''and''), (2, ''or'')]"
proof -
  let ?ops = "[Op_insertLoad 8 singleVariable, Op_insert ((load_data 12 singleVariable)\<lparr>operation := ''and''\<rparr>),
       Op_reorder, Op_insertLoad 4 arrayOperand, Op_insertLoad 8 singleVariable,
       Op_insert ((load_data 2 singleVariable)\<lparr>operation := ''or''\<rparr>)]"
  have "\<exists>it. efold it_apply (?ops @ [Op_reorder]) empty_IT = Inr it" by simp
  then obtain it where it: "efold it_apply (?ops @ [Op_reorder]) empty_IT = Inr it" ..
  have "instructionOrderVector it = [(8, ''load''), (4, ''load''), (12, ''and''), (2, ''or'')]"
    using instruction_order[OF it] by (simp add: load_data_def)
  then show ?thesis using it by simp
qed

text \<open>
  Reordering the order vector puts the loads first and keeps the order within the loads and
  within the others; it neither loses nor adds an instruction, and reordering again changes
  nothing.
\<close>

theorem reorderInstructionVector_stable:
  "mset (instructionOrderVector (reorderInstructionVector it)) = mset (instructionOrderVector it) \<and>
   (\<exists>n. list_all (\<lambda>p. snd p = ''load'') (take n (instructionOrderVector (reorderInstructionVector it))) \<and>
        list_all (\<lambda>p. snd p \<noteq> ''load'') (drop n (instructionOrderVector (reorderInstructionVector it)))) \<and>
   filter (\<lambda>p. (snd p = ''load'') = b) (instructionOrderVector (reorderInstructionVector it)) =
   filter (\<lambda>p. (snd p = ''load'') = b) (instructionOrderVector it) \<and>
   reorderInstructionVector (reorderInstructionVector it) = reorderInstructionVector it"
proof (intro conjI exI)
  let ?n = "length (filter (\<lambda>p. snd p = ''load'') (instructionOrderVector it))"
  show "list_all (\<lambda>p. snd p = ''load'')
      (take ?n (instructionOrderVector (reorderInstructionVector it)))"
    "list_all (\<lambda>p. snd p \<noteq> ''load'')
      (drop ?n (instructionOrderVector (reorderInstructionVector it)))"
    by (simp_all add: reorderInstructionVector_def list_all_iff)
  show "mset (instructionOrderVector (reorderInstructionVector it)) = mset (instructionOrderVector it)"
    by (simp add: reorderInstructionVector_def)
  show "filter (\<lambda>p. (snd p = ''load'') = b) (instructionOrderVector (reorderInstructionVector it)) =
      filter (\<lambda>p. (snd p = ''load'') = b) (instructionOrderVector it)"
    by (cases b) (simp_all add: reorderInstructionVector_def)
  show "reorderInstructionVector (reorderInstructionVector it) = reorderInstructionVector it"
    by (simp add: reorderInstructionVector_def)
qed

text \<open>
  Each operation changes what it is meant to change: the entry after an insertion, and the
  fields after a swap.
\<close>

lemma insertInstruction_find:
  assumes "it_inv it" "sm_find (instructionMap it) (destinationReg d) = None"
  shows "sm_find (instructionMap (insertInstruction d it)) (destinationReg d) =
    Some (d\<lparr>specifications := []\<rparr>)"
  using assms by (simp add: insertInstruction_def it_inv_def sm_find_insert)

lemma swapOperands_twice_sources:
  assumes "swapOperands k it = Inr it'" "swapOperands k it' = Inr it''"
    "sm_find (instructionMap it) k = Some d"
  shows "sm_find (instructionMap it'') k = Some (d\<lparr>destRegPrt := srcReg2Ptr d\<rparr>)"
  using assms by (auto simp: swapOperands_def sm_find_modify split: if_splits)

end
