(* ===== verification/ASAP.thy ===== *)
theory ASAP
  imports Instruction_Table
begin

text \<open>
  \<open>Scheduling/ASAP\<close>: the as-soon-as-possible scheduler. It visits a copy of the instruction map in
  the order of the keys (addresses of destination registers) and reads the available times of the
  operands from the table it is updating. The locale \<open>time_table\<close> states what the scheduler uses
  of a table of start times and delays and proves the scheduling argument once.
\<close>

section \<open>The scheduler\<close>

definition source_time :: "instructionTable \<Rightarrow> operandType \<Rightarrow> ptr \<Rightarrow> int res" where
  "source_time it srcType src = (if srcType = constantOperand then Inr 0 else getAvailableTime it src)"

definition getTime ::
  "instructionTable \<Rightarrow> operandType \<Rightarrow> operandType \<Rightarrow> ptr \<Rightarrow> ptr \<Rightarrow> int res" where
  "getTime it src1Type src2Type src1 src2 =
     ebind (source_time it src1Type src1) (\<lambda>tSrc1.
     ebind (source_time it src2Type src2) (\<lambda>tSrc2.
       Inr (if tSrc1 > tSrc2 then tSrc1 else tSrc2)))"

definition asap_step :: "ptr \<times> instructionData \<Rightarrow> instructionTable \<Rightarrow> instructionTable res" where
  "asap_step = (\<lambda>(k, d) it.
     if operation d = ''load'' then Inr (setInstructionTimeAndDelay k 0 0 it)
     else ebind (getTime it (srcReg1Type d) (srcReg2Type d) (sourceReg1 d) (sourceReg2 d)) (\<lambda>t.
       Inr (setInstructionTimeAndDelay k t (getOperationDelay (operation d)) it)))"

definition scheduleFunction :: "instructionTable \<Rightarrow> instructionTable res" where
  "scheduleFunction it =
     ebind (efold asap_step (instructionMap it) it) (\<lambda>it'. Inr (reorderInstructionVector it'))"

section \<open>The interface: tables of start times and delays\<close>

locale time_table =
  fixes set_time :: "'k::linorder \<Rightarrow> int \<Rightarrow> int \<Rightarrow> 's \<Rightarrow> 's"
    and time_of :: "'s \<Rightarrow> 'k \<Rightarrow> (int \<times> int) option"
  assumes time_of_set: "time_of (set_time k t e s) k' =
      (if k' = k \<and> time_of s k \<noteq> None then Some (t, e) else time_of s k')"
begin

lemma dom_set_time: "dom (time_of (set_time k t e s)) = dom (time_of s)"
  by (auto simp: time_of_set split: if_splits)

text \<open>
  A list of jobs in ascending key order, of which each computes its start time from the entries of
  smaller keys: every job gets a start time, and in the final table each start time is the one
  that the final table gives for the job's sources.
\<close>

lemma schedule_all:
  assumes step: "\<And>k x s. f (k, x) s = ebind (start x s) (\<lambda>t. Inr (set_time k t (delay x) s))"
    and local_reads: "\<And>x s s'. (\<And>q. q \<in> srcs x \<Longrightarrow> time_of s q = time_of s' q) \<Longrightarrow> start x s = start x s'"
    and total: "\<And>x s. srcs x \<subseteq> dom (time_of s) \<Longrightarrow> \<exists>t. start x s = Inr t"
    and ascending: "sorted_wrt (<) (map fst jobs)"
    and earlier: "\<forall>(k, x) \<in> set jobs. \<forall>q \<in> srcs x. q < k \<and> q \<in> dom (time_of s)"
    and known: "fst ` set jobs \<subseteq> dom (time_of s)"
  shows "\<exists>s'. efold f jobs s = Inr s' \<and> dom (time_of s') = dom (time_of s) \<and>
    (\<forall>k. k \<notin> fst ` set jobs \<longrightarrow> time_of s' k = time_of s k) \<and>
    (\<forall>(k, x) \<in> set jobs. \<exists>t. start x s' = Inr t \<and> time_of s' k = Some (t, delay x))"
  using ascending earlier known
proof (induction jobs rule: rev_induct)
  case Nil
  then show ?case by simp
next
  case (snoc j jobs)
  obtain k x where j: "j = (k, x)" by (cases j)
  have prefix: "sorted_wrt (<) (map fst jobs)" "fst ` set jobs \<subseteq> dom (time_of s)"
    "\<forall>(q, y) \<in> set jobs. \<forall>p \<in> srcs y. p < q \<and> p \<in> dom (time_of s)"
    using snoc.prems by (auto simp: sorted_wrt_append)
  obtain u where u: "efold f jobs s = Inr u" "dom (time_of u) = dom (time_of s)"
    "\<And>q. q \<notin> fst ` set jobs \<Longrightarrow> time_of u q = time_of s q"
    "\<forall>(q, y) \<in> set jobs. \<exists>t. start y u = Inr t \<and> time_of u q = Some (t, delay y)"
    using snoc.IH[OF prefix(1) prefix(3) prefix(2)] by blast
  have "srcs x \<subseteq> dom (time_of u)" using snoc.prems(2) u(2) j by auto
  then obtain t where t: "start x u = Inr t" using total by blast
  define u' where "u' = set_time k t (delay x) u"
  have run: "efold f (jobs @ [j]) s = Inr u'" using u(1) t by (simp add: j step u'_def)
  have "k \<in> dom (time_of s)" using snoc.prems(3) j by simp
  then have "k \<in> dom (time_of u)" using u(2) by simp
  then have k_known: "time_of u k \<noteq> None" by auto
  have at_k: "time_of u' k = Some (t, delay x)" using k_known by (simp add: u'_def time_of_set)
  have off_k: "q \<noteq> k \<Longrightarrow> time_of u' q = time_of u q" for q by (simp add: u'_def time_of_set)
  have below: "q < k" if "(q, y) \<in> set jobs" for q y
    using snoc.prems(1) that j by (force simp: sorted_wrt_append)
  have same: "start y u' = start y u" if "(q, y) \<in> set jobs \<or> y = x" for q y
  proof (rule local_reads)
    fix p assume "p \<in> srcs y"
    then have "p < k"
      using that snoc.prems(2) below[of q y] j by fastforce
    then show "time_of u' p = time_of u p" using off_k by simp
  qed
  have "\<exists>t. start y u' = Inr t \<and> time_of u' q = Some (t, delay y)" if "(q, y) \<in> set (jobs @ [j])" for q y
  proof (cases "(q, y) \<in> set jobs")
    case True
    then show ?thesis using bspec[OF u(4) True] same[of q y] off_k[of q] below[OF True] by auto
  next
    case False
    then have "q = k" "y = x" using that j by auto
    then show ?thesis using t same[of q x] at_k by simp
  qed
  moreover have "dom (time_of u') = dom (time_of s)" using u(2) by (simp add: u'_def dom_set_time)
  moreover have "time_of u' q = time_of s q" if "q \<notin> fst ` set (jobs @ [j])" for q
    using that u(3)[of q] off_k[of q] j by force
  ultimately show ?case using run by blast
qed

text \<open>
  The schedule is the least one: any assignment of start times that is not below a job's own
  start function lies above the schedule.
\<close>

lemma schedule_nonneg:
  assumes fixpoint: "\<forall>(k, x) \<in> set jobs. \<exists>t. time_of s k = Some (t, delay x) \<and>
        (0 \<le> t \<or> (\<exists>q \<in> srcs x. \<exists>t' e. time_of s q = Some (t', e) \<and> t = t' + e))"
    and earlier: "\<forall>(k, x) \<in> set jobs. \<forall>q \<in> srcs x. q < k \<and> q \<in> fst ` set jobs"
    and delays: "\<forall>(k, x) \<in> set jobs. 0 \<le> delay x"
    and job: "k \<in> fst ` set jobs" "time_of s k = Some (t, e)"
  shows "0 \<le> t"
  using job
proof (induction "card {q \<in> fst ` set jobs. q < k}" arbitrary: k t e rule: less_induct)
  case less
  then obtain x where x: "(k, x) \<in> set jobs" by auto
  have "0 \<le> t' + e'" if "q \<in> srcs x" "time_of s q = Some (t', e')" for q t' e'
  proof -
    have q: "q < k" "q \<in> fst ` set jobs" using earlier x that(1) by auto
    have "{p \<in> fst ` set jobs. p < q} \<subset> {p \<in> fst ` set jobs. p < k}" using q by force
    then have "card {p \<in> fst ` set jobs. p < q} < card {p \<in> fst ` set jobs. p < k}"
      by (intro psubset_card_mono) auto
    then have "0 \<le> t'" using less.hyps[OF _ q(2) that(2)] by blast
    moreover have "0 \<le> e'" using q(2) fixpoint delays that(2) by fastforce
    ultimately show ?thesis by simp
  qed
  then show ?case using bspec[OF fixpoint x] less.prems(2) by fastforce
qed

lemma least_schedule:
  assumes fixpoint: "\<forall>(k, x) \<in> set jobs. \<exists>t. time_of s k = Some (t, delay x) \<and>
        (t = 0 \<or> (\<exists>q \<in> srcs x. \<exists>t' e. time_of s q = Some (t', e) \<and> t = t' + e))"
    and earlier: "\<forall>(k, x) \<in> set jobs. \<forall>q \<in> srcs x. q < k \<and> q \<in> fst ` set jobs"
    and feasible: "\<forall>(k, x) \<in> set jobs. 0 \<le> \<sigma> k \<and>
        (\<forall>q \<in> srcs x. \<forall>t e. time_of s q = Some (t, e) \<longrightarrow> \<sigma> q + e \<le> \<sigma> k)"
    and job: "k \<in> fst ` set jobs" "time_of s k = Some (t, e)"
  shows "t \<le> \<sigma> k"
  using job
proof (induction "card {q \<in> fst ` set jobs. q < k}" arbitrary: k t e rule: less_induct)
  case less
  then obtain x where x: "(k, x) \<in> set jobs" by auto
  have "t' + e' \<le> \<sigma> k" if "q \<in> srcs x" "time_of s q = Some (t', e')" for q t' e'
  proof -
    have q: "q < k" "q \<in> fst ` set jobs" using earlier x that(1) by auto
    have "{p \<in> fst ` set jobs. p < q} \<subset> {p \<in> fst ` set jobs. p < k}" using q by force
    then have "card {p \<in> fst ` set jobs. p < q} < card {p \<in> fst ` set jobs. p < k}"
      by (intro psubset_card_mono) auto
    then have "t' \<le> \<sigma> q" using less.hyps[OF _ q(2) that(2)] by blast
    then show ?thesis using bspec[OF feasible x] that by fastforce
  qed
  then show ?case using bspec[OF fixpoint x] bspec[OF feasible x] less.prems(2) by fastforce
qed

end

section \<open>The instruction table as a time table\<close>

definition it_time :: "instructionTable \<Rightarrow> ptr \<Rightarrow> (int \<times> int) option" where
  "it_time it k = map_option (\<lambda>d. (ti d, di d)) (sm_find (instructionMap it) k)"

interpretation it_times: time_table setInstructionTimeAndDelay it_time
  by unfold_locales (auto simp: it_time_def setInstructionTimeAndDelay_def sm_find_modify split: option.splits)

definition live_sources :: "instructionData \<Rightarrow> ptr set" where
  "live_sources d =
     (if operation d = ''load'' then {}
      else (if srcReg1Type d = constantOperand then {} else {sourceReg1 d}) \<union>
           (if srcReg2Type d = constantOperand then {} else {sourceReg2 d}))"

text \<open>
  A table that can be scheduled: each operand of an instruction that is not a constant is the
  destination of an instruction of the table, at a smaller address.
\<close>

definition schedulable :: "instructionTable \<Rightarrow> bool" where
  "schedulable it \<longleftrightarrow> it_inv it \<and>
     (\<forall>(k, d) \<in> set (instructionMap it). \<forall>q \<in> live_sources d.
        q < k \<and> q \<in> fst ` set (instructionMap it))"

definition start_time :: "instructionData \<Rightarrow> instructionTable \<Rightarrow> int res" where
  "start_time d it =
     (if operation d = ''load'' then Inr 0
      else getTime it (srcReg1Type d) (srcReg2Type d) (sourceReg1 d) (sourceReg2 d))"

definition delay_of :: "instructionData \<Rightarrow> int" where
  "delay_of d = (if operation d = ''load'' then 0 else getOperationDelay (operation d))"

text \<open>All but the start time and the delay of an instruction.\<close>

definition untimed :: "instructionData \<Rightarrow> instructionData" where
  "untimed d = d\<lparr>ti := 0, di := 0\<rparr>"

lemma asap_step_start:
  "asap_step (k, d) it = ebind (start_time d it) (\<lambda>t. Inr (setInstructionTimeAndDelay k t (delay_of d) it))"
  by (simp add: asap_step_def start_time_def delay_of_def)

lemma getAvailableTime_time:
  "getAvailableTime it q = (case it_time it q of
     None \<Rightarrow> Inl (UB ''getAvailableTime reads the end of instructionMap'') | Some (t, e) \<Rightarrow> Inr (t + e))"
  by (auto simp: getAvailableTime_def it_time_def split: option.splits)

lemma start_time_reads:
  "(\<And>q. q \<in> live_sources d \<Longrightarrow> it_time it q = it_time it' q) \<Longrightarrow> start_time d it = start_time d it'"
  by (auto simp: start_time_def getTime_def source_time_def getAvailableTime_time live_sources_def
      split: if_splits)

lemma start_time_total:
  assumes "live_sources d \<subseteq> dom (it_time it)"
  shows "\<exists>t. start_time d it = Inr t"
proof -
  have "\<exists>t. source_time it ty q = Inr t" if "ty \<noteq> constantOperand \<Longrightarrow> q \<in> dom (it_time it)" for ty q
    using that by (auto simp: source_time_def getAvailableTime_time)
  from this[of "srcReg1Type d" "sourceReg1 d"] this[of "srcReg2Type d" "sourceReg2 d"] assms
  show ?thesis by (auto simp: start_time_def getTime_def live_sources_def split: if_splits)
qed

lemma untimed_time [simp]: "untimed (d\<lparr>ti := t, di := e\<rparr>) = untimed d"
  by (simp add: untimed_def)

lemma asap_step_untimed:
  assumes "asap_step (k, d) it = Inr it'"
  shows "map_option untimed (sm_find (instructionMap it') q) = map_option untimed (sm_find (instructionMap it) q)
    \<and> instructionOrderVector it' = instructionOrderVector it"
  using assms
  by (auto simp: asap_step_start res_simps setInstructionTimeAndDelay_def sm_find_modify
      option.map_comp comp_def split: option.splits)

lemma asap_run_untimed:
  assumes "efold asap_step jobs it = Inr it'"
  shows "(\<forall>q. map_option untimed (sm_find (instructionMap it') q) = map_option untimed (sm_find (instructionMap it) q))
    \<and> instructionOrderVector it' = instructionOrderVector it"
proof -
  define P where "P u \<longleftrightarrow>
    (\<forall>q. map_option untimed (sm_find (instructionMap u) q) = map_option untimed (sm_find (instructionMap it) q))
    \<and> instructionOrderVector u = instructionOrderVector it" for u :: instructionTable
  have "P it'"
    using assms by (rule efold_invariant) (auto simp: P_def dest: asap_step_untimed)
  then show ?thesis by (simp add: P_def)
qed

text \<open>A load that has been visited starts at time 0.\<close>

lemma asap_loads:
  assumes "efold asap_step jobs it = Inr u" "distinct (map fst jobs)"
    and "(k, d) \<in> set jobs" "operation d = ''load''" "k \<in> dom (it_time it)"
  shows "it_time u k = Some (0, 0)"
  using assms
proof (induction jobs arbitrary: u rule: rev_induct)
  case (snoc j jobs)
  obtain q e where j: "j = (q, e)" by (cases j)
  obtain w where w: "efold asap_step jobs it = Inr w" "asap_step (q, e) w = Inr u"
    using snoc.prems(1) by (auto simp: j res_simps)
  obtain t where u: "u = setInstructionTimeAndDelay q t (delay_of e) w" "start_time e w = Inr t"
    using w(2) by (auto simp: asap_step_start res_simps)
  show ?case
  proof (cases "q = k")
    case True
    then have "e = d" using snoc.prems(2,3) by (force simp: j image_iff)
    have "map_option untimed (sm_find (instructionMap w) k) = map_option untimed (sm_find (instructionMap it) k)"
      using asap_run_untimed[OF w(1)] by blast
    then have "it_time w k \<noteq> None" using snoc.prems(5) by (auto simp: it_time_def)
    then show ?thesis using u True \<open>e = d\<close> snoc.prems(4)
      by (simp add: it_times.time_of_set start_time_def delay_of_def)
  next
    case False
    then have "it_time w k = Some (0, 0)" using snoc.IH[OF w(1)] snoc.prems by (auto simp: j)
    then show ?thesis using False by (simp add: u(1) it_times.time_of_set)
  qed
qed simp

lemma it_time_reorder [simp]: "it_time (reorderInstructionVector it) = it_time it"
  by (simp add: it_time_def reorderInstructionVector_def fun_eq_iff)

lemma map_reorder [simp]: "instructionMap (reorderInstructionVector it) = instructionMap it"
  by (simp add: reorderInstructionVector_def)

lemma start_time_reorder [simp]: "start_time d (reorderInstructionVector it) = start_time d it"
  by (rule start_time_reads) simp

text \<open>The scheduling argument of the interface, on the instruction table.\<close>

lemma schedule_run:
  assumes "schedulable it"
  shows "\<exists>it'. scheduleFunction it = Inr it' \<and>
    (\<forall>(k, d) \<in> set (instructionMap it). \<exists>t. start_time d it' = Inr t \<and> it_time it' k = Some (t, delay_of d)) \<and>
    (\<forall>q. map_option untimed (sm_find (instructionMap it') q) = map_option untimed (sm_find (instructionMap it) q)) \<and>
    instructionOrderVector it' = instructionOrderVector (reorderInstructionVector it)"
proof -
  have inv: "sm_inv (instructionMap it)" using assms by (simp add: schedulable_def it_inv_def)
  have dom: "dom (it_time it) = fst ` set (instructionMap it)"
    using sm.dom_lookup[OF inv] by (auto simp: it_time_def dom_def)
  obtain u where u: "efold asap_step (instructionMap it) it = Inr u"
    "\<forall>(k, d) \<in> set (instructionMap it). \<exists>t. start_time d u = Inr t \<and> it_time u k = Some (t, delay_of d)"
    using it_times.schedule_all[where f = asap_step and start = start_time and delay = delay_of
        and srcs = live_sources and jobs = "instructionMap it" and s = it,
        OF asap_step_start start_time_reads start_time_total sm.entries_sorted[OF inv]]
      assms unfolding schedulable_def dom by fastforce
  have "instructionOrderVector (reorderInstructionVector u) = instructionOrderVector (reorderInstructionVector it)"
    using asap_run_untimed[OF u(1)] by (simp add: reorderInstructionVector_def)
  then show ?thesis
    using u asap_run_untimed[OF u(1)]
    by (intro exI[of _ "reorderInstructionVector u"]) (simp add: scheduleFunction_def)
qed

section \<open>Properties\<close>

text \<open>When an operand is ready, in a table: at 0 for a constant, else start time plus delay.\<close>

definition operand_ready :: "(ptr, instructionData) smap \<Rightarrow> operandType \<Rightarrow> ptr \<Rightarrow> int" where
  "operand_ready m srcType src =
     (if srcType = constantOperand then 0
      else case sm_find m src of None \<Rightarrow> 0 | Some d \<Rightarrow> ti d + di d)"

lemma start_time_ready:
  "start_time d it = Inr t \<Longrightarrow>
   t = (if operation d = ''load'' then 0
        else max (operand_ready (instructionMap it) (srcReg1Type d) (sourceReg1 d))
                 (operand_ready (instructionMap it) (srcReg2Type d) (sourceReg2 d)))"
  by (auto simp: start_time_def getTime_def source_time_def operand_ready_def getAvailableTime_def
      res_simps max_def split: if_splits)

lemma start_time_cases:
  assumes "start_time d it = Inr t"
  shows "t = 0 \<or> (\<exists>q \<in> live_sources d. \<exists>t' e. it_time it q = Some (t', e) \<and> t = t' + e)"
  using assms
  by (auto simp: start_time_def getTime_def source_time_def getAvailableTime_def live_sources_def
      it_time_def res_simps split: if_splits)

lemma it_time_Some_iff:
  "it_time it k = Some (t, e) \<longleftrightarrow> (\<exists>d. sm_find (instructionMap it) k = Some d \<and> ti d = t \<and> di d = e)"
  by (auto simp: it_time_def)

lemma schedule_fixpoint:
  assumes "schedulable it" "scheduleFunction it = Inr it'"
  shows "\<forall>(k, d) \<in> set (instructionMap it). \<exists>t. it_time it' k = Some (t, delay_of d) \<and>
    (t = 0 \<or> (\<exists>q \<in> live_sources d. \<exists>t' e. it_time it' q = Some (t', e) \<and> t = t' + e))"
  using schedule_run[OF assms(1)] assms(2) by (fastforce dest: start_time_cases)

lemma schedule_key:
  assumes "schedulable it" "scheduleFunction it = Inr it'" "sm_find (instructionMap it') k = Some d'"
  shows "\<exists>d. (k, d) \<in> set (instructionMap it) \<and> untimed d' = untimed d"
proof -
  have "map_option untimed (sm_find (instructionMap it') k) = map_option untimed (sm_find (instructionMap it) k)"
    using schedule_run[OF assms(1)] assms(2) by auto
  then obtain d where d: "sm_find (instructionMap it) k = Some d" "untimed d = untimed d'"
    using assms(3) by (cases "sm_find (instructionMap it) k") auto
  then show ?thesis
    using assms(1) sm.entries_iff[of "instructionMap it" k d] by (auto simp: schedulable_def it_inv_def)
qed

text \<open>
  C14: when each operand that is not a constant is produced by an instruction of the table at a
  smaller address (\<open>schedulable\<close>; otherwise see \<open>scheduleFunction_relies_on_addresses\<close>), scheduling
  succeeds; it changes the start times and the delays of the entries and nothing else in them, and moves
  the loads to the front of the order vector; every load starts at 0, and every other instruction starts
  exactly when the later one of its two operands is ready in the resulting table.
\<close>

theorem scheduleFunction_asap:
  assumes "schedulable it"
  shows "\<exists>it'. scheduleFunction it = Inr it' \<and>
    instructionOrderVector it' = instructionOrderVector (reorderInstructionVector it) \<and>
    (\<forall>(k, d) \<in> set (instructionMap it). \<exists>d'. sm_find (instructionMap it') k = Some d' \<and>
       untimed d' = untimed d \<and> di d' = delay_of d \<and>
       ti d' = (if operation d = ''load'' then 0
                else max (operand_ready (instructionMap it') (srcReg1Type d) (sourceReg1 d))
                         (operand_ready (instructionMap it') (srcReg2Type d) (sourceReg2 d))))"
proof -
  obtain it' where it': "scheduleFunction it = Inr it'"
    "\<forall>(k, d) \<in> set (instructionMap it). \<exists>t. start_time d it' = Inr t \<and> it_time it' k = Some (t, delay_of d)"
    "\<forall>q. map_option untimed (sm_find (instructionMap it') q) = map_option untimed (sm_find (instructionMap it) q)"
    "instructionOrderVector it' = instructionOrderVector (reorderInstructionVector it)"
    using schedule_run[OF assms] by blast
  have inv: "sm_inv (instructionMap it)" using assms by (simp add: schedulable_def it_inv_def)
  have "\<exists>d'. sm_find (instructionMap it') k = Some d' \<and>
       untimed d' = untimed d \<and> di d' = delay_of d \<and>
       ti d' = (if operation d = ''load'' then 0
                else max (operand_ready (instructionMap it') (srcReg1Type d) (sourceReg1 d))
                         (operand_ready (instructionMap it') (srcReg2Type d) (sourceReg2 d)))"
    if kd: "(k, d) \<in> set (instructionMap it)" for k d
  proof -
    obtain d' where d': "start_time d it' = Inr (ti d')" "sm_find (instructionMap it') k = Some d'"
      "di d' = delay_of d"
      using bspec[OF it'(2) kd] by (auto simp: it_time_Some_iff)
    have "sm_find (instructionMap it) k = Some d" using sm.entries_iff[OF inv] kd by simp
    then show ?thesis
      using it'(3)[rule_format, of k] d' start_time_ready[OF d'(1)] by simp
  qed
  then show ?thesis using it'(1,4) by blast
qed

text \<open>
  C15: when the operands are at smaller addresses, the schedule is as soon as possible: an assignment of
  non-negative start times that respects the delays of the operands of each instruction starts no
  instruction earlier than the schedule.
\<close>

theorem scheduleFunction_least:
  assumes "schedulable it" "scheduleFunction it = Inr it'"
    and feasible: "\<forall>(k, d) \<in> set (instructionMap it). 0 \<le> \<sigma> k \<and>
      (\<forall>q \<in> live_sources d. \<forall>(p, e) \<in> set (instructionMap it). p = q \<longrightarrow> \<sigma> q + delay_of e \<le> \<sigma> k)"
    and "sm_find (instructionMap it') k = Some d'"
  shows "ti d' \<le> \<sigma> k"
proof (rule it_times.least_schedule[where s = it' and jobs = "instructionMap it" and srcs = live_sources
      and delay = delay_of and e = "di d'" and \<sigma> = \<sigma> and k = k])
  show "\<forall>(k, x) \<in> set (instructionMap it). 0 \<le> \<sigma> k \<and>
      (\<forall>q \<in> live_sources x. \<forall>t e. it_time it' q = Some (t, e) \<longrightarrow> \<sigma> q + e \<le> \<sigma> k)"
  proof (clarify, intro conjI ballI allI impI)
    fix p x assume px: "(p, x) \<in> set (instructionMap it)"
    then show "0 \<le> \<sigma> p" using feasible by fastforce
    fix q t e assume q: "q \<in> live_sources x" "it_time it' q = Some (t, e)"
    obtain y where y: "(q, y) \<in> set (instructionMap it)"
      using assms(1) px q(1) by (fastforce simp: schedulable_def)
    then have "e = delay_of y" using bspec[OF schedule_fixpoint[OF assms(1,2)] y] q(2) by auto
    then show "\<sigma> q + e \<le> \<sigma> p" using bspec[OF feasible px] q(1) y by fastforce
  qed
  show "k \<in> fst ` set (instructionMap it)" using schedule_key[OF assms(1,2,4)] by force
  show "it_time it' k = Some (ti d', di d')" using assms(4) by (simp add: it_time_def)
  show "\<forall>(k, x) \<in> set (instructionMap it). \<forall>q \<in> live_sources x. q < k \<and> q \<in> fst ` set (instructionMap it)"
    using assms(1) by (simp add: schedulable_def)
qed (rule schedule_fixpoint[OF assms(1,2)])

text \<open>
  A table with a load of an array element and of a variable, the sum of both, and the exclusive or
  of the sum with a constant; the keys are addresses in the order of the dependencies.
\<close>

definition binary_instruction ::
  "string \<Rightarrow> ptr \<Rightarrow> operandType \<Rightarrow> ptr \<Rightarrow> operandType \<Rightarrow> ptr \<Rightarrow> instructionData" where
  "binary_instruction op dest t1 s1 t2 s2 =
     \<lparr>ti = 0, di = 0, operation = op, specifications = [],
      destinationReg = dest, destRegType = temporaryVariable, destRegPrt = nullptr,
      sourceReg1 = s1, srcReg1Type = t1, srcReg1Ptr = nullptr,
      sourceReg2 = s2, srcReg2Type = t2, srcReg2Ptr = nullptr,
      isInLoopBody = False\<rparr>"

definition sample_it :: instructionTable where
  "sample_it =
     insertInstruction (binary_instruction ''xor'' 28 temporaryVariable 24 constantOperand 7)
       (insertInstruction (binary_instruction ''add'' 24 arrayOperand 16 singleVariable 20)
          (insertLoadInstruction 20 singleVariable (insertLoadInstruction 16 arrayOperand empty_IT)))"

lemmas sample_it_defs = sample_it_def binary_instruction_def insertInstruction_def
  insertLoadInstruction_def load_data_def empty_IT_def

lemma sample_it_schedulable: "schedulable sample_it"
  by (simp add: schedulable_def it_inv_def sample_it_defs live_sources_def domIff)

lemma sample_it_map:
  "instructionMap sample_it =
     [(16, load_data 16 arrayOperand), (20, load_data 20 singleVariable),
      (24, binary_instruction ''add'' 24 arrayOperand 16 singleVariable 20),
      (28, binary_instruction ''xor'' 28 temporaryVariable 24 constantOperand 7)]"
  by (simp add: sample_it_defs)

theorem scheduleFunction_asap_witness:
  "schedulable sample_it \<and> (\<exists>it'. scheduleFunction sample_it = Inr it' \<and>
     instructionOrderVector it' = instructionOrderVector (reorderInstructionVector sample_it))"
  using scheduleFunction_asap[OF sample_it_schedulable] sample_it_schedulable by blast

definition sample_scheduled :: instructionTable where
  "sample_scheduled = (case scheduleFunction sample_it of Inr it \<Rightarrow> it | Inl _ \<Rightarrow> empty_IT)"

lemma sample_it_times:
  "scheduleFunction sample_it = Inr sample_scheduled"
  "map (\<lambda>(k, d). (k, ti d, di d)) (instructionMap sample_scheduled) =
     [(16, 0, 0), (20, 0, 0), (24, 0, 1), (28, 1, 1)]"
  by (simp_all add: sample_scheduled_def scheduleFunction_def sample_it_defs asap_step_def getTime_def
      source_time_def getAvailableTime_def setInstructionTimeAndDelay_def sm_modify_def
      reorderInstructionVector_def getOperationDelay_def delayMap_def)

lemma sample_it_28: "\<exists>d'. sm_find (instructionMap sample_scheduled) 28 = Some d'"
proof -
  have "28 \<in> fst ` set (instructionMap sample_scheduled)"
    using arg_cong[OF sample_it_times(2), of "\<lambda>l. fst ` set l"] by (auto simp: image_image case_prod_unfold)
  moreover have "sm_inv (instructionMap sample_scheduled)"
    using arg_cong[OF sample_it_times(2), of "map fst"] by (simp add: sm_inv_def case_prod_unfold comp_def)
  ultimately show ?thesis using sm.dom_lookup by blast
qed

theorem scheduleFunction_least_witness:
  "\<exists>d'. sm_find (instructionMap sample_scheduled) 28 = Some d' \<and> ti d' \<le> 5"
proof -
  obtain d' where d': "sm_find (instructionMap sample_scheduled) 28 = Some d'" using sample_it_28 ..
  moreover have "\<forall>(k, d) \<in> set (instructionMap sample_it). 0 \<le> (if k = 28 then 5 else (0::int)) \<and>
      (\<forall>q \<in> live_sources d. \<forall>(p, e) \<in> set (instructionMap sample_it). p = q \<longrightarrow>
         (if q = 28 then 5 else 0) + delay_of e \<le> (if k = 28 then 5 else 0))"
    by (simp add: sample_it_map live_sources_def delay_of_def load_data_def binary_instruction_def
        getOperationDelay_def delayMap_def)
  ultimately have "ti d' \<le> 5"
    using scheduleFunction_least[OF sample_it_schedulable sample_it_times(1),
        where \<sigma> = "\<lambda>k. if k = 28 then 5 else 0" and k = 28 and d' = d'] by simp
  then show ?thesis using d' by blast
qed

text \<open>
  C22: in the schedule of a table of loads and of operations that have an entry in the table of delays,
  with all operands at smaller addresses, no start time is negative and none reaches the number of
  instructions of the table. (An operation without an entry gets the delay -1, and its users may start
  at -1.)
\<close>

theorem scheduleFunction_bounds:
  assumes "schedulable it" "scheduleFunction it = Inr it'"
    and ops: "\<forall>(k, d) \<in> set (instructionMap it). operation d = ''load'' \<or> operation d \<in> fst ` set delayMap"
    and "sm_find (instructionMap it') k = Some d'"
  shows "0 \<le> ti d' \<and> ti d' < int (length (instructionMap it))"
proof
  obtain d where d: "(k, d) \<in> set (instructionMap it)" using schedule_key[OF assms(1,2,4)] by blast
  have earlier: "\<forall>(k, x) \<in> set (instructionMap it). \<forall>q \<in> live_sources x. q < k \<and> q \<in> fst ` set (instructionMap it)"
    using assms(1) by (simp add: schedulable_def)
  have delays: "\<forall>(k, x) \<in> set (instructionMap it). 0 \<le> delay_of x"
    using ops getOperationDelay_pos_iff by (force simp: delay_of_def)
  have time: "it_time it' k = Some (ti d', di d')" using assms(4) by (simp add: it_time_def)
  have fix0: "\<forall>(k, d) \<in> set (instructionMap it). \<exists>t. it_time it' k = Some (t, delay_of d) \<and>
      (0 \<le> t \<or> (\<exists>q \<in> live_sources d. \<exists>t' e. it_time it' q = Some (t', e) \<and> t = t' + e))"
    using schedule_fixpoint[OF assms(1,2)] by fastforce
  show "0 \<le> ti d'"
    using it_times.schedule_nonneg[OF fix0 earlier delays _ time] d by force
  define rank where "rank p = int (card {q \<in> fst ` set (instructionMap it). q < p})" for p :: ptr
  have up: "rank q + 1 \<le> rank p" if "q < p" "q \<in> fst ` set (instructionMap it)" for p q
  proof -
    have "{r \<in> fst ` set (instructionMap it). r < q} \<subset> {r \<in> fst ` set (instructionMap it). r < p}"
      using that by force
    then have "card {r \<in> fst ` set (instructionMap it). r < q} < card {r \<in> fst ` set (instructionMap it). r < p}"
      by (intro psubset_card_mono) auto
    then show ?thesis unfolding rank_def by linarith
  qed
  have feasible: "\<forall>(k, d) \<in> set (instructionMap it). 0 \<le> rank k \<and>
      (\<forall>q \<in> live_sources d. \<forall>t e. it_time it' q = Some (t, e) \<longrightarrow> rank q + e \<le> rank k)"
  proof (clarify, intro conjI ballI allI impI)
    fix p x assume px: "(p, x) \<in> set (instructionMap it)"
    show "0 \<le> rank p" by (simp add: rank_def)
    fix q t e assume q: "q \<in> live_sources x" "it_time it' q = Some (t, e)"
    have q': "q < p" "q \<in> fst ` set (instructionMap it)" using bspec[OF earlier px] q(1) by auto
    then obtain y where y: "(q, y) \<in> set (instructionMap it)" by auto
    then have "e = delay_of y" using bspec[OF schedule_fixpoint[OF assms(1,2)] y] q(2) by auto
    then have "e \<le> 1" using getOperationDelay_range[of "operation y"] by (auto simp: delay_of_def)
    then show "rank q + e \<le> rank p" using up[OF q'] by simp
  qed
  have "k \<in> fst ` set (instructionMap it)" using d by force
  then have "ti d' \<le> rank k"
    by (rule it_times.least_schedule[OF schedule_fixpoint[OF assms(1,2)] earlier feasible _ time])
  also have "rank k < int (card (fst ` set (instructionMap it)))"
    unfolding rank_def using d by (intro of_nat_less_iff[THEN iffD2] psubset_card_mono) force+
  also have "\<dots> \<le> int (length (instructionMap it))"
    by (metis card_length length_map list.set_map of_nat_le_iff)
  finally show "ti d' < int (length (instructionMap it))" .
qed

theorem scheduleFunction_bounds_witness:
  "\<exists>d'. sm_find (instructionMap sample_scheduled) 28 = Some d' \<and> 0 \<le> ti d' \<and> ti d' < 4"
proof -
  obtain d' where d': "sm_find (instructionMap sample_scheduled) 28 = Some d'" using sample_it_28 ..
  moreover have "\<forall>(k, d) \<in> set (instructionMap sample_it). operation d = ''load'' \<or> operation d \<in> fst ` set delayMap"
    by (simp add: sample_it_map load_data_def binary_instruction_def delayMap_def)
  ultimately have "0 \<le> ti d' \<and> ti d' < 4"
    using scheduleFunction_bounds[OF sample_it_schedulable sample_it_times(1), of 28 d']
    by (simp add: sample_it_map)
  then show ?thesis using d' by blast
qed

text \<open>
  The order of the addresses is relied on, and so is the delay table. With the same two
  instructions at addresses in the other order, the exclusive or is started at 0, although its
  operand, the sum, is only ready at 1; and a division, which has no delay in the table, makes the
  instruction that reads it start before the division itself.
\<close>

theorem scheduleFunction_relies_on_addresses:
  "(\<exists>it'. scheduleFunction
       (insertInstruction (binary_instruction ''xor'' 12 temporaryVariable 24 constantOperand 7)
         (insertInstruction (binary_instruction ''add'' 24 constantOperand 1 constantOperand 2) empty_IT)) = Inr it' \<and>
      map (\<lambda>(k, d). (k, ti d, di d)) (instructionMap it') = [(12, 0, 1), (24, 0, 1)] \<and>
      operand_ready (instructionMap it') temporaryVariable 24 = 1) \<and>
   (\<exists>it'. scheduleFunction
       (insertInstruction (binary_instruction ''xor'' 28 temporaryVariable 24 temporaryVariable 24)
         (insertInstruction (binary_instruction ''sdiv'' 24 constantOperand 1 constantOperand 2) empty_IT)) = Inr it' \<and>
      map (\<lambda>(k, d). (k, ti d, di d)) (instructionMap it') = [(24, 0, -1), (28, -1, 1)])"
  by (simp add: scheduleFunction_def sample_it_defs asap_step_def getTime_def
      source_time_def getAvailableTime_def setInstructionTimeAndDelay_def sm_modify_def
      reorderInstructionVector_def getOperationDelay_def delayMap_def operand_ready_def)

end
