(* ===== verification/Named_Store.thy ===== *)
theory Named_Store
  imports Std_Map
begin

text \<open>
  Stores keyed by the names the binder makes up. \<open>LiMBinder::getNewName\<close> counts an \<open>int *\<close> up
  from 0, so the names are the multiples of 4 below the next name; the LiM array and the state
  machine are both tables over such names, in which the first entry for a name stays. The locale
  \<open>named_store\<close> is that contract, with the reasoning about fresh names that rests on it.
\<close>

definition row_name :: "ptr \<Rightarrow> ptr \<Rightarrow> bool" where
  "row_name limit p \<longleftrightarrow> 0 \<le> p \<and> p < limit \<and> 4 dvd p"

lemma row_name_new: "0 \<le> limit \<Longrightarrow> 4 dvd limit \<Longrightarrow> row_name (ptr_incr limit) limit"
  by (simp add: row_name_def ptr_incr_def)

lemma row_name_mono: "row_name limit p \<Longrightarrow> limit \<le> limit' \<Longrightarrow> row_name limit' p"
  by (simp add: row_name_def)

lemma row_name_incr [intro]: "row_name limit p \<Longrightarrow> row_name (ptr_incr limit) p"
  by (simp add: row_name_def ptr_incr_def)

lemma row_name_fresh [simp]: "\<not> row_name limit limit"
  by (simp add: row_name_def)

text \<open>The marker of a row without a memory input, \<open>0xdef\<close>, is no name.\<close>

definition no_input :: ptr where "no_input = 3567"

lemma no_input_is_no_name [simp]: "\<not> row_name limit no_input"
  by (simp add: row_name_def no_input_def)

locale named_store =
  fixes content :: "'s \<Rightarrow> ptr \<Rightarrow> 'r option"
    and add :: "ptr \<Rightarrow> 'r \<Rightarrow> 's \<Rightarrow> 's"
    and store_inv :: "'s \<Rightarrow> bool"
  assumes content_add: "store_inv s \<Longrightarrow>
      content (add p r s) q = (if q = p \<and> content s p = None then Some r else content s q)"
    and store_inv_add: "store_inv s \<Longrightarrow> store_inv (add p r s)"
begin

definition names_below :: "ptr \<Rightarrow> 's \<Rightarrow> bool" where
  "names_below limit s \<longleftrightarrow> (\<forall>p. content s p \<noteq> None \<longrightarrow> row_name limit p)"

lemma names_add: "store_inv s \<Longrightarrow> dom (content (add p r s)) = {p} \<union> dom (content s)"
  by (auto simp: content_add split: if_splits)

lemma fresh: "names_below limit s \<Longrightarrow> content s limit = None"
  using row_name_fresh[of limit] by (auto simp: names_below_def)

text \<open>A fresh name gets the new entry and no other entry changes.\<close>

lemma content_add_fresh:
  "store_inv s \<Longrightarrow> names_below limit s \<Longrightarrow> content (add limit r s) = (content s)(limit \<mapsto> r)"
  by (auto simp: content_add fresh fun_eq_iff)

lemma content_add_kept: "store_inv s \<Longrightarrow> content s q = Some x \<Longrightarrow> content (add p r s) q = Some x"
  by (auto simp: content_add)

lemma names_below_add:
  "store_inv s \<Longrightarrow> names_below limit s \<Longrightarrow> row_name limit' p \<Longrightarrow> limit \<le> limit' \<Longrightarrow>
   names_below limit' (add p r s)"
  by (auto simp: names_below_def content_add dest: row_name_mono split: if_splits)

lemma names_below_mono: "names_below limit s \<Longrightarrow> limit \<le> limit' \<Longrightarrow> names_below limit' s"
  by (auto simp: names_below_def dest: row_name_mono)

end

end
