(* ===== verification/LiM_Array.thy ===== *)
theory LiM_Array
  imports Named_Store "HOL-Library.Sublist"
begin

text \<open>
  \<open>Binding/LiMArray\<close>: the memory array the binder builds, a map from row names to rows. The
  first input connection of a row is its memory input (\<open>0xdef\<close> for none), the others are its
  logic inputs; the list of connection types runs along with the list of connections.
\<close>

section \<open>Data and operations\<close>

record LiMRow =
  rowType :: string
  rowLength :: int
  inputConnections :: "ptr list"
  inputConnectionsType :: "string list"
  additionalLogic :: "string list"

type_synonym limArray = "(ptr, LiMRow) smap"

definition addNewRow :: "ptr \<Rightarrow> string \<Rightarrow> int \<Rightarrow> limArray \<Rightarrow> limArray" where
  "addNewRow rowName type len m =
     sm_insert rowName
       \<lparr>rowType = type, rowLength = len, inputConnections = [no_input],
        inputConnectionsType = [''none''], additionalLogic = []\<rparr> m"

definition addNewLiMRow ::
  "ptr \<Rightarrow> string \<Rightarrow> string list \<Rightarrow> int \<Rightarrow> ptr \<Rightarrow> string \<Rightarrow> limArray \<Rightarrow> limArray" where
  "addNewLiMRow rowName type addLogic len src conType m =
     sm_insert rowName
       \<lparr>rowType = type, rowLength = len, inputConnections = [src],
        inputConnectionsType = [conType], additionalLogic = addLogic\<rparr> m"

definition addNewResultRow :: "ptr \<Rightarrow> int \<Rightarrow> ptr \<Rightarrow> string \<Rightarrow> limArray \<Rightarrow> limArray" where
  "addNewResultRow rowName len src conType m =
     sm_insert rowName
       \<lparr>rowType = ''load'', rowLength = len, inputConnections = [src],
        inputConnectionsType = [conType], additionalLogic = []\<rparr> m"

definition findRow :: "limArray \<Rightarrow> ptr \<Rightarrow> LiMRow res" where
  "findRow m rowName =
     or_fail (Unreachable ''LiMArray error: Error in finding a row inside the LiMArray.'') (sm_find m rowName)"

definition checkIfRowIsLiM :: "LiMRow \<Rightarrow> bool" where
  "checkIfRowIsLiM row \<longleftrightarrow> rowType row \<noteq> ''load''"

definition changeLiMRowType :: "ptr \<Rightarrow> string \<Rightarrow> string list \<Rightarrow> limArray \<Rightarrow> (bool \<times> limArray) res" where
  "changeLiMRowType rowName newRowType additionalOperators m =
     ebind (findRow m rowName) (\<lambda>row.
       if checkIfRowIsLiM row then Inr (False, m)
       else if ''input_line'' \<in> set (additionalLogic row) then Inr (False, m)
       else Inr (True, sm_modify rowName
         (\<lambda>row. row\<lparr>rowType := newRowType,
                    additionalLogic := (if additionalOperators \<noteq> [] then additionalOperators
                                        else additionalLogic row)\<rparr>) m))"

definition addNewInputConnection :: "ptr \<Rightarrow> ptr \<Rightarrow> string \<Rightarrow> limArray \<Rightarrow> limArray res" where
  "addNewInputConnection rowName srcRowName conType m =
     ebind (findRow m rowName) (\<lambda>row.
       if length (inputConnections row) = 1 \<or> srcRowName \<notin> set (inputConnections row)
       then Inr (sm_modify rowName
         (\<lambda>row. row\<lparr>inputConnections := inputConnections row @ [srcRowName],
                    inputConnectionsType := inputConnectionsType row @ [conType]\<rparr>) m)
       else Inr m)"

definition addLogicToRow :: "ptr \<Rightarrow> string \<Rightarrow> limArray \<Rightarrow> limArray res" where
  "addLogicToRow rowName additionalLogicType m =
     ebind (findRow m rowName) (\<lambda>row.
       if additionalLogicType \<in> set (additionalLogic row) then Inr m
       else Inr (sm_modify rowName
         (\<lambda>row. row\<lparr>additionalLogic := additionalLogic row @ [additionalLogicType]\<rparr>) m))"

definition isLiMRowOfThisType :: "limArray \<Rightarrow> ptr \<Rightarrow> string \<Rightarrow> bool res" where
  "isLiMRowOfThisType m rowName type = ebind (findRow m rowName) (\<lambda>row. Inr (rowType row = type))"

definition getDimensions :: "limArray \<Rightarrow> int" where
  "getDimensions m = int (length m)"

definition deleteLiMRow :: "ptr \<Rightarrow> limArray \<Rightarrow> limArray res" where
  "deleteLiMRow rowName m =
     (if sm_find m rowName = None then Inl (UB ''deleteLiMRow erases the end of limArray'')
      else Inr (sm_erase rowName m))"

section \<open>The report\<close>

text \<open>
  The numbers \<open>printLiMArrayToFile\<close> writes: how many rows have the types it counts, and how many
  have a multiplexer, which it takes to be the rows with exactly three connections. The number of
  bits is computed in \<open>size_t\<close>.
\<close>

record limReport =
  r_rows :: int
  r_bits :: int
  r_load :: int
  r_add :: int
  r_sdiv :: int
  r_xor :: int
  r_mux :: int

definition count_row :: "LiMRow \<Rightarrow> limReport \<Rightarrow> limReport" where
  "count_row row r =
     (let r = (if length (inputConnections row) = 3 then r\<lparr>r_mux := r_mux r + 1\<rparr> else r)
      in if rowType row = ''add'' then r\<lparr>r_add := r_add r + 1\<rparr>
         else if rowType row = ''load'' then r\<lparr>r_load := r_load r + 1\<rparr>
         else if rowType row = ''sdiv'' then r\<lparr>r_sdiv := r_sdiv r + 1\<rparr>
         else if rowType row = ''xor'' then r\<lparr>r_xor := r_xor r + 1\<rparr>
         else r)"

definition report_of :: "int \<Rightarrow> limArray \<Rightarrow> limReport" where
  "report_of par m =
     fold (count_row \<circ> snd) m
       \<lparr>r_rows = int (length m), r_bits = int (length m) * par mod 2 ^ 64,
        r_load = 0, r_add = 0, r_sdiv = 0, r_xor = 0, r_mux = 0\<rparr>"

definition count_rows :: "(LiMRow \<Rightarrow> bool) \<Rightarrow> limArray \<Rightarrow> int" where
  "count_rows P m = int (length (filter (P \<circ> snd) m))"

lemma count_rows_simps [simp]:
  "count_rows P [] = 0"
  "count_rows P (kr # m) = (if P (snd kr) then 1 else 0) + count_rows P m"
  by (simp_all add: count_rows_def)

lemma count_rows_report:
  "r_load (fold (count_row \<circ> snd) m r) = r_load r + count_rows (\<lambda>row. rowType row = ''load'') m \<and>
   r_add (fold (count_row \<circ> snd) m r) = r_add r + count_rows (\<lambda>row. rowType row = ''add'') m \<and>
   r_sdiv (fold (count_row \<circ> snd) m r) = r_sdiv r + count_rows (\<lambda>row. rowType row = ''sdiv'') m \<and>
   r_xor (fold (count_row \<circ> snd) m r) = r_xor r + count_rows (\<lambda>row. rowType row = ''xor'') m \<and>
   r_mux (fold (count_row \<circ> snd) m r) = r_mux r + count_rows (\<lambda>row. length (inputConnections row) = 3) m \<and>
   r_rows (fold (count_row \<circ> snd) m r) = r_rows r \<and> r_bits (fold (count_row \<circ> snd) m r) = r_bits r"
  by (induction m arbitrary: r) (simp_all add: count_row_def Let_def)

section \<open>Invariant\<close>

text \<open>
  A row: as many connection types as connections, at least one connection, and no logic input
  twice.
\<close>

definition row_wf :: "LiMRow \<Rightarrow> bool" where
  "row_wf row \<longleftrightarrow> length (inputConnectionsType row) = length (inputConnections row) \<and>
     inputConnections row \<noteq> [] \<and> distinct (tl (inputConnections row))"

definition array_inv :: "limArray \<Rightarrow> bool" where
  "array_inv m \<longleftrightarrow> sm_inv m \<and> (\<forall>p row. sm_find m p = Some row \<longrightarrow> row_wf row)"

lemma array_invD [dest]: "array_inv m \<Longrightarrow> sm_inv m"
  by (simp add: array_inv_def)

lemma array_inv_insert: "array_inv m \<Longrightarrow> row_wf row \<Longrightarrow> array_inv (sm_insert p row m)"
  by (auto simp: array_inv_def sm_find_insert split: if_splits)

lemma array_inv_modify:
  "array_inv m \<Longrightarrow> (\<And>row. sm_find m p = Some row \<Longrightarrow> row_wf (f row)) \<Longrightarrow> array_inv (sm_modify p f m)"
  by (auto simp: array_inv_def sm_find_modify split: if_splits)

lemma findRow_Inr_iff [res_simps]: "findRow m p = Inr row \<longleftrightarrow> sm_find m p = Some row"
  by (simp add: findRow_def res_simps)

lemmas array_op_defs = addNewRow_def addNewLiMRow_def addNewResultRow_def changeLiMRowType_def
  addNewInputConnection_def addLogicToRow_def deleteLiMRow_def isLiMRowOfThisType_def

text \<open>What the operations do to the rows that are there: they only append connections.\<close>

definition row_extends :: "LiMRow \<Rightarrow> LiMRow \<Rightarrow> bool" where
  "row_extends row row' \<longleftrightarrow> rowLength row' = rowLength row \<and>
     prefix (inputConnections row) (inputConnections row') \<and>
     prefix (inputConnectionsType row) (inputConnectionsType row') \<and>
     (rowType row \<noteq> ''load'' \<longrightarrow> rowType row' = rowType row)"

definition array_extends :: "limArray \<Rightarrow> limArray \<Rightarrow> bool" where
  "array_extends m m' \<longleftrightarrow> (\<forall>p row. sm_find m p = Some row \<longrightarrow>
     (\<exists>row'. sm_find m' p = Some row' \<and> row_extends row row'))"

lemma row_extends_refl [simp]: "row_extends row row"
  by (simp add: row_extends_def)

lemma array_extends_refl [simp]: "array_extends m m"
  by (auto simp: array_extends_def)

lemma row_extends_trans: "row_extends a b \<Longrightarrow> row_extends b c \<Longrightarrow> row_extends a c"
  by (auto simp: row_extends_def intro: prefix_order.trans)

lemma array_extends_trans: "array_extends a b \<Longrightarrow> array_extends b c \<Longrightarrow> array_extends a c"
  by (meson array_extends_def row_extends_trans)

lemma array_extends_dom: "array_extends m m' \<Longrightarrow> dom (sm_find m) \<subseteq> dom (sm_find m')"
  by (force simp: array_extends_def)

lemma array_extends_insert: "sm_inv m \<Longrightarrow> array_extends m (sm_insert p row m)"
  by (auto simp: array_extends_def sm_find_insert)

lemma array_extends_modify:
  "(\<And>row. sm_find m p = Some row \<Longrightarrow> row_extends row (f row)) \<Longrightarrow> array_extends m (sm_modify p f m)"
  by (auto simp: array_extends_def sm_find_modify)

text \<open>The operations the binder uses, as values, for statements about sequences of them.\<close>

datatype array_op =
    Add_Row ptr string int
  | Add_LiMRow ptr string "string list" int ptr string
  | Add_ResultRow ptr int ptr string
  | Change_Type ptr string "string list"
  | Connect ptr ptr string
  | Add_Logic ptr string

fun array_apply :: "array_op \<Rightarrow> limArray \<Rightarrow> limArray res" where
  "array_apply (Add_Row p ty len) m = Inr (addNewRow p ty len m)"
| "array_apply (Add_LiMRow p ty l len src con) m = Inr (addNewLiMRow p ty l len src con m)"
| "array_apply (Add_ResultRow p len src con) m = Inr (addNewResultRow p len src con m)"
| "array_apply (Change_Type p ty l) m = ebind (changeLiMRowType p ty l m) (\<lambda>r. Inr (snd r))"
| "array_apply (Connect p src con) m = addNewInputConnection p src con m"
| "array_apply (Add_Logic p l) m = addLogicToRow p l m"

lemma row_wf_connect:
  "row_wf row \<Longrightarrow> length (inputConnections row) = 1 \<or> src \<notin> set (inputConnections row) \<Longrightarrow>
   row_wf (row\<lparr>inputConnections := inputConnections row @ [src],
               inputConnectionsType := inputConnectionsType row @ [con]\<rparr>)"
  by (cases "inputConnections row") (auto simp: row_wf_def)

lemma array_modify_ok:
  assumes "array_inv m" "sm_find m p = Some row" "row_wf row \<Longrightarrow> row_wf (f row) \<and> row_extends row (f row)"
  shows "array_inv (sm_modify p f m) \<and> array_extends m (sm_modify p f m)"
proof -
  have "row_wf row" using assms(1,2) by (auto simp: array_inv_def)
  then show ?thesis using assms by (auto intro!: array_inv_modify array_extends_modify)
qed

lemma array_insert_ok:
  "array_inv m \<Longrightarrow> row_wf row \<Longrightarrow> array_inv (sm_insert p row m) \<and> array_extends m (sm_insert p row m)"
  by (auto intro!: array_inv_insert array_extends_insert)

lemma changeLiMRowType_ok:
  assumes "array_inv m" "changeLiMRowType p ty l m = Inr (b, m')"
  shows "array_inv m' \<and> array_extends m m' \<and> dom (sm_find m') = dom (sm_find m) \<and> p \<in> dom (sm_find m)"
proof -
  obtain row where row: "sm_find m p = Some row" "m' = m \<or> rowType row = ''load'' \<and>
    m' = sm_modify p (\<lambda>row. row\<lparr>rowType := ty,
         additionalLogic := (if l \<noteq> [] then l else additionalLogic row)\<rparr>) m"
    using assms(2) by (auto simp: changeLiMRowType_def checkIfRowIsLiM_def res_simps split: if_splits)
  from row(2) show ?thesis
  proof (elim disjE conjE)
    assume m': "rowType row = ''load''" "m' = sm_modify p (\<lambda>row. row\<lparr>rowType := ty,
         additionalLogic := (if l \<noteq> [] then l else additionalLogic row)\<rparr>) m"
    show ?thesis
      unfolding m'(2) using array_modify_ok[OF assms(1) row(1)] m'(1) row(1) assms(1)
      by (simp add: row_wf_def row_extends_def sm.dom_modify array_invD domI)
  qed (use assms(1) row(1) in auto)
qed

lemma addNewInputConnection_ok:
  assumes "array_inv m" "addNewInputConnection p src con m = Inr m'"
  shows "array_inv m' \<and> array_extends m m' \<and> dom (sm_find m') = dom (sm_find m) \<and> p \<in> dom (sm_find m)"
proof -
  obtain row where row: "sm_find m p = Some row"
    "m' = m \<or> (length (inputConnections row) = 1 \<or> src \<notin> set (inputConnections row)) \<and>
     m' = sm_modify p (\<lambda>row. row\<lparr>inputConnections := inputConnections row @ [src],
               inputConnectionsType := inputConnectionsType row @ [con]\<rparr>) m"
    using assms(2) by (auto simp: addNewInputConnection_def res_simps split: if_splits)
  from row(2) show ?thesis
  proof (elim disjE[of "m' = m"] conjE)
    assume m': "length (inputConnections row) = 1 \<or> src \<notin> set (inputConnections row)"
      "m' = sm_modify p (\<lambda>row. row\<lparr>inputConnections := inputConnections row @ [src],
               inputConnectionsType := inputConnectionsType row @ [con]\<rparr>) m"
    show ?thesis
      unfolding m'(2) using array_modify_ok[OF assms(1) row(1)] row_wf_connect[OF _ m'(1)] row(1) assms(1)
      by (simp add: row_extends_def sm.dom_modify array_invD domI)
  qed (use assms(1) row(1) in auto)
qed

lemma addLogicToRow_ok:
  assumes "array_inv m" "addLogicToRow p l m = Inr m'"
  shows "array_inv m' \<and> array_extends m m' \<and> dom (sm_find m') = dom (sm_find m) \<and> p \<in> dom (sm_find m)"
proof -
  obtain row where row: "sm_find m p = Some row"
    "m' = m \<or> m' = sm_modify p (\<lambda>row. row\<lparr>additionalLogic := additionalLogic row @ [l]\<rparr>) m"
    using assms(2) by (auto simp: addLogicToRow_def res_simps split: if_splits)
  from row(2) show ?thesis
  proof
    assume m': "m' = sm_modify p (\<lambda>row. row\<lparr>additionalLogic := additionalLogic row @ [l]\<rparr>) m"
    show ?thesis
      unfolding m' using array_modify_ok[OF assms(1) row(1)] row(1) assms(1)
      by (simp add: row_wf_def row_extends_def sm.dom_modify array_invD domI)
  qed (use assms(1) row(1) in auto)
qed

lemma new_rows_ok:
  assumes "array_inv m"
  shows "array_inv (addNewRow p ty len m) \<and> array_extends m (addNewRow p ty len m)"
    "array_inv (addNewLiMRow p ty l len src con m) \<and> array_extends m (addNewLiMRow p ty l len src con m)"
    "array_inv (addNewResultRow p len src con m) \<and> array_extends m (addNewResultRow p len src con m)"
  unfolding addNewRow_def addNewLiMRow_def addNewResultRow_def
  by (rule array_insert_ok[OF assms], simp add: row_wf_def)+

lemma dom_new_rows:
  assumes "array_inv m"
  shows "dom (sm_find (addNewRow p ty len m)) = {p} \<union> dom (sm_find m)"
    "dom (sm_find (addNewLiMRow p ty l len src con m)) = {p} \<union> dom (sm_find m)"
    "dom (sm_find (addNewResultRow p len src con m)) = {p} \<union> dom (sm_find m)"
  using assms by (simp_all add: addNewRow_def addNewLiMRow_def addNewResultRow_def sm.dom_insert array_invD)

lemma array_apply_inv:
  "array_inv m \<Longrightarrow> array_apply op m = Inr m' \<Longrightarrow> array_inv m' \<and> array_extends m m'"
  by (cases op)
    (auto simp: res_simps new_rows_ok dest: changeLiMRowType_ok addNewInputConnection_ok addLogicToRow_ok)

interpretation rows: named_store sm_find sm_insert "sm_inv :: limArray \<Rightarrow> bool"
  by unfold_locales (auto simp: sm_find_insert)

section \<open>Properties\<close>

text \<open>
  C25: whatever sequence of additions, type changes, connections and logic additions is applied to the empty
  array (\<open>deleteLiMRow\<close>, which nothing calls, is left out), every row has as many connection types
  as connections, at least one connection, and no logic input twice; and between any two points of the sequence
  a row is never lost, keeps its length, only gets connections appended, and keeps its type once it is a LiM
  row.
\<close>

theorem limarray_rows_only_grow:
  assumes "efold array_apply ops [] = Inr m" "efold array_apply later m = Inr m'"
  shows "array_inv m' \<and> array_extends m m'"
proof -
  have "array_inv m"
    using assms(1)
  proof (rule efold_invariant)
    show "array_inv []" by (simp add: array_inv_def)
  qed (use array_apply_inv in blast)
  then show ?thesis
    using efold_invariant[OF assms(2), where P = "\<lambda>u. array_inv u \<and> array_extends m u"]
      array_apply_inv array_extends_trans by (meson array_extends_refl)
qed

theorem limarray_rows_only_grow_witness:
  "\<exists>m m'. efold array_apply [Add_Row 0 ''load'' 8, Add_Row 4 ''load'' 8] [] = Inr m \<and>
     efold array_apply [Change_Type 4 ''and'' [], Connect 4 0 ''OC'', Add_ResultRow 8 8 4 ''OLiM''] m = Inr m' \<and>
     array_inv m' \<and> array_extends m m'"
proof -
  let ?ops = "[Add_Row 0 ''load'' 8, Add_Row 4 ''load'' 8]"
  let ?later = "[Change_Type 4 ''and'' [], Connect 4 0 ''OC'', Add_ResultRow 8 8 4 ''OLiM'']"
  obtain m where m: "efold array_apply ?ops [] = Inr m" by simp
  then have "\<exists>m'. efold array_apply ?later m = Inr m'"
    by (auto simp: array_op_defs findRow_def checkIfRowIsLiM_def sm_find_modify)
  then obtain m' where m': "efold array_apply ?later m = Inr m'" ..
  show ?thesis using limarray_rows_only_grow[OF m m'] m m' by blast
qed

text \<open>
  The report counts the rows of each type it knows and the rows with three connections, and
  the number of bits is the number of rows times the parallelism as long as that fits 64 bits.
\<close>

theorem report_of_counts:
  assumes "0 \<le> par" "int (length m) * par < 2 ^ 64"
  shows "r_rows (report_of par m) = getDimensions m \<and>
    r_bits (report_of par m) = getDimensions m * par \<and>
    r_load (report_of par m) = count_rows (\<lambda>row. rowType row = ''load'') m \<and>
    r_add (report_of par m) = count_rows (\<lambda>row. rowType row = ''add'') m \<and>
    r_sdiv (report_of par m) = count_rows (\<lambda>row. rowType row = ''sdiv'') m \<and>
    r_xor (report_of par m) = count_rows (\<lambda>row. rowType row = ''xor'') m \<and>
    r_mux (report_of par m) = count_rows (\<lambda>row. length (inputConnections row) = 3) m"
  using assms by (simp add: report_of_def count_rows_report getDimensions_def)

theorem report_of_counts_witness:
  "r_bits (report_of 8 (addNewRow 4 ''load'' 8 (addNewRow 0 ''load'' 8 []))) = 16"
proof -
  have "length (addNewRow 4 ''load'' 8 (addNewRow 0 ''load'' 8 [])) = 2" by (simp add: addNewRow_def)
  then show ?thesis
    using report_of_counts[of 8 "addNewRow 4 ''load'' 8 (addNewRow 0 ''load'' 8 [])"]
    by (simp add: getDimensions_def)
qed

end
