(* ===== verification/FSM.thy ===== *)
theory FSM
  imports Named_Store
begin

text \<open>
  \<open>Binding/FiniteStateMachine\<close>: the time at which each row is written (\<open>FSM2\<close>), its inverse,
  the rows written at each time (\<open>FSM\<close>, computed once at the end by \<open>transform\<close>), and the times
  at which the inputs of multiplexed rows are selected.
\<close>

section \<open>Data and operations\<close>

record selectionSignalStruct =
  destRow :: ptr
  activeTimeList :: "int list"

record fsm =
  FSM :: "(int, ptr list) smap"
  FSM2 :: "(ptr, int) smap"
  selectionSignalsList :: "selectionSignalStruct list"

definition empty_fsm :: fsm where
  "empty_fsm = \<lparr>FSM = [], FSM2 = [], selectionSignalsList = []\<rparr>"

definition addNewInstruction :: "int \<Rightarrow> ptr \<Rightarrow> fsm \<Rightarrow> fsm" where
  "addNewInstruction time operand f = f\<lparr>FSM2 := sm_insert operand time (FSM2 f)\<rparr>"

definition transform_step :: "ptr \<times> int \<Rightarrow> (int, ptr list) smap \<Rightarrow> (int, ptr list) smap" where
  "transform_step = (\<lambda>(operand, time) m.
     if sm_find m time = None then sm_insert time [operand] m
     else sm_modify time (\<lambda>l. l @ [operand]) m)"

definition transform :: "fsm \<Rightarrow> fsm" where
  "transform f = f\<lparr>FSM := fold transform_step (FSM2 f) (FSM f)\<rparr>"

definition insertSelectionSignal :: "int list \<Rightarrow> ptr \<Rightarrow> fsm \<Rightarrow> fsm" where
  "insertSelectionSignal activeTimes row f =
     f\<lparr>selectionSignalsList :=
         selectionSignalsList f @ [\<lparr>destRow = row, activeTimeList = activeTimes\<rparr>]\<rparr>"

definition getFSMSize :: "fsm \<Rightarrow> int" where
  "getFSMSize f = int (length (FSM f))"

definition deleteInstruction :: "ptr \<Rightarrow> fsm \<Rightarrow> fsm res" where
  "deleteInstruction operand f =
     (if sm_find (FSM2 f) operand = None then Inl (UB ''deleteInstruction erases the end of FSM2'')
      else Inr (f\<lparr>FSM2 := sm_erase operand (FSM2 f)\<rparr>))"

definition fsm_getTime :: "fsm \<Rightarrow> ptr \<Rightarrow> int res" where
  "fsm_getTime f operand = or_fail (UB ''getTime reads the end of FSM2'') (sm_find (FSM2 f) operand)"

text \<open>
  \<open>printFSMToFile\<close>: for each time the number of active rows, then the last time, kept in a
  variable that only the loop sets.
\<close>

definition printFSMToFile :: "fsm \<Rightarrow> ((int \<times> int) list \<times> int) res" where
  "printFSMToFile f =
     (if FSM f = [] then Inl (UB ''printFSMToFile prints totalExecutionTime uninitialised'')
      else Inr (map (\<lambda>(t, l). (t, int (length l))) (FSM f), fst (last (FSM f))))"

section \<open>Invariant and lemmas\<close>

definition fsm_inv :: "fsm \<Rightarrow> bool" where
  "fsm_inv f \<longleftrightarrow> sm_inv (FSM2 f) \<and> sm_inv (FSM f)"

lemma fsm_inv_empty [simp]: "fsm_inv empty_fsm"
  by (simp add: fsm_inv_def empty_fsm_def)

lemma fsm_inv_ops [simp, intro]:
  "fsm_inv f \<Longrightarrow> fsm_inv (addNewInstruction t p f)"
  "fsm_inv f \<Longrightarrow> fsm_inv (insertSelectionSignal ts p f)"
  by (simp_all add: fsm_inv_def addNewInstruction_def insertSelectionSignal_def)

interpretation times: named_store "sm_find \<circ> FSM2" "\<lambda>p t. addNewInstruction t p" fsm_inv
  by unfold_locales (auto simp: fsm_inv_def addNewInstruction_def sm_find_insert)

lemma FSM2_signal [simp]: "FSM2 (insertSelectionSignal ts p f) = FSM2 f"
  by (simp add: insertSelectionSignal_def)

lemma fsm_getTime_Inr_iff [res_simps]: "fsm_getTime f p = Inr t \<longleftrightarrow> sm_find (FSM2 f) p = Some t"
  by (simp add: fsm_getTime_def res_simps)

text \<open>A second time for a row is dropped.\<close>

lemma addNewInstruction_again:
  "fsm_inv f \<Longrightarrow> sm_find (FSM2 f) p = Some t \<Longrightarrow> addNewInstruction t' p f = f"
  by (simp add: addNewInstruction_def fsm_inv_def sm_insert_present)

lemma sm_inv_transform_step: "sm_inv m \<Longrightarrow> sm_inv (transform_step pt m)"
  by (cases pt) (auto simp: transform_step_def)

lemma transform_fold:
  assumes "sm_inv m"
  shows "sm_inv (fold transform_step pts m) \<and>
    sm_find (fold transform_step pts m) t =
      (case sm_find m t of
         Some l \<Rightarrow> Some (l @ map fst (filter (\<lambda>pt. snd pt = t) pts))
       | None \<Rightarrow> if t \<in> snd ` set pts then Some (map fst (filter (\<lambda>pt. snd pt = t) pts)) else None)"
  using assms
proof (induction pts arbitrary: m)
  case (Cons pt pts)
  show ?case
    using Cons.IH[OF sm_inv_transform_step[OF Cons.prems], of pt] Cons.prems
    by (cases pt) (auto simp: transform_step_def sm_find_insert sm_find_modify split: option.splits)
qed (simp split: option.split)

lemma transform_FSM:
  "fsm_inv f \<Longrightarrow> FSM f = [] \<Longrightarrow>
   sm_find (FSM (transform f)) t =
     (if t \<in> snd ` set (FSM2 f) then Some (map fst (filter (\<lambda>pt. snd pt = t) (FSM2 f))) else None)"
  using transform_fold[of "[]" "FSM2 f" t] by (simp add: transform_def fsm_inv_def)

lemma fsm_inv_transform: "fsm_inv f \<Longrightarrow> fsm_inv (transform f)"
  using transform_fold[of "FSM f" "FSM2 f"] by (simp add: transform_def fsm_inv_def)

lemma sm_last_max:
  assumes "sm_inv m" "m \<noteq> []"
  shows "k \<in> fst ` set m \<Longrightarrow> k \<le> fst (last m)"
proof -
  assume k: "k \<in> fst ` set m"
  have "m = butlast m @ [last m]" using assms(2) by simp
  then have "sorted_wrt (<) (map fst (butlast m @ [last m]))" using assms(1) by (simp add: sm_inv_def)
  then have "\<forall>x \<in> fst ` set (butlast m). x < fst (last m)" by (simp add: sorted_wrt_append)
  moreover have "set m = insert (last m) (set (butlast m))"
    using arg_cong[OF \<open>m = butlast m @ [last m]\<close>, of set] by simp
  ultimately show ?thesis using k by auto
qed

text \<open>The number of activations, over all times.\<close>

definition active_rows :: "(int, ptr list) smap \<Rightarrow> int" where
  "active_rows m = sum_list (map (\<lambda>(t, l). int (length l)) m)"

lemma active_rows_simps [simp]:
  "active_rows [] = 0"
  "active_rows ((t, l) # m) = int (length l) + active_rows m"
  by (simp_all add: active_rows_def)

lemma active_rows_insert: "sm_find m t = None \<Longrightarrow> active_rows (sm_insert t l m) = active_rows m + int (length l)"
  by (induction t l m rule: sm_insert.induct) (auto split: if_splits)

lemma sm_modify_Cons: "sm_modify k f ((a, b) # m) = (if a = k then (a, f b) else (a, b)) # sm_modify k f m"
  by (simp add: sm_modify_def)

lemma active_rows_modify:
  "sm_inv m \<Longrightarrow> sm_find m t \<noteq> None \<Longrightarrow> active_rows (sm_modify t (\<lambda>l. l @ [p]) m) = active_rows m + 1"
proof (induction m)
  case (Cons kl m)
  obtain k l where kl: "kl = (k, l)" by (cases kl)
  have "sm_modify t (\<lambda>l. l @ [p]) m = m" if "t = k"
    using that Cons.prems(1) kl by (intro sm_modify_id sm_find_above) simp
  then show ?case using Cons by (auto simp: kl sm_modify_Cons)
qed simp

lemma active_rows_transform:
  "sm_inv m \<Longrightarrow> active_rows (fold transform_step pts m) = active_rows m + int (length pts)"
proof (induction pts arbitrary: m)
  case (Cons pt pts)
  have "active_rows (transform_step pt m) = active_rows m + 1"
    using Cons.prems by (cases pt) (auto simp: transform_step_def active_rows_insert active_rows_modify)
  then show ?case using Cons.IH[OF sm_inv_transform_step[OF Cons.prems]] by simp
qed simp

section \<open>Properties\<close>

text \<open>
  C19: transforming a state machine inverts its time table: at each time the rows written at that
  time are listed in the order of their names, none twice, and there is an entry only for the
  times at which some row is written; in particular every row is listed at exactly one time.
\<close>

theorem transform_inverts:
  assumes "fsm_inv f" "FSM f = []"
  shows "sm_find (FSM (transform f)) t =
      (if t \<in> ran (sm_find (FSM2 f))
       then Some (sorted_list_of_set {p. sm_find (FSM2 f) p = Some t}) else None) \<and>
    (p \<in> dom (sm_find (FSM2 f))) = (\<exists>!t. \<exists>l. sm_find (FSM (transform f)) t = Some l \<and> p \<in> set l)"
proof
  have inv: "sm_inv (FSM2 f)" using assms(1) by (simp add: fsm_inv_def)
  have mem: "(p, t) \<in> set (FSM2 f) \<longleftrightarrow> sm_find (FSM2 f) p = Some t" for p t
    using sm.entries_iff[OF inv] .
  have keys: "snd ` set (FSM2 f) = ran (sm_find (FSM2 f))"
    using mem by (force simp: ran_def)
  have "sorted_wrt (<) (map fst (filter (\<lambda>pt. snd pt = t) (FSM2 f)))" for t
    using sm.entries_sorted[OF inv] by (simp add: sorted_wrt_map sorted_wrt_filter)
  moreover have set_l: "set (map fst (filter (\<lambda>pt. snd pt = t) (FSM2 f))) = {p. sm_find (FSM2 f) p = Some t}" for t
    using mem by force
  ultimately have l: "map fst (filter (\<lambda>pt. snd pt = t) (FSM2 f)) = sorted_list_of_set {p. sm_find (FSM2 f) p = Some t}" for t
    by (metis sorted_list_of_set.idem_if_sorted_distinct strict_sorted_iff)
  show "sm_find (FSM (transform f)) t =
      (if t \<in> ran (sm_find (FSM2 f))
       then Some (sorted_list_of_set {p. sm_find (FSM2 f) p = Some t}) else None)"
    by (simp add: transform_FSM[OF assms] keys l)
  have "(\<exists>l. sm_find (FSM (transform f)) t = Some l \<and> p \<in> set l) \<longleftrightarrow> sm_find (FSM2 f) p = Some t" for t
    unfolding transform_FSM[OF assms] keys using set_l[of t] by (auto simp: ran_def)
  then show "(p \<in> dom (sm_find (FSM2 f))) = (\<exists>!t. \<exists>l. sm_find (FSM (transform f)) t = Some l \<and> p \<in> set l)"
    by (auto simp: dom_def)
qed

definition sample_fsm :: fsm where
  "sample_fsm = addNewInstruction 1 8 (addNewInstruction 0 4 (addNewInstruction 0 0 empty_fsm))"

lemma sample_fsm_tables: "FSM2 sample_fsm = [(0, 0), (4, 0), (8, 1)]" "FSM sample_fsm = []"
  by (simp_all add: sample_fsm_def addNewInstruction_def empty_fsm_def)

lemma sample_fsm_inv: "fsm_inv sample_fsm"
  by (simp add: fsm_inv_def sample_fsm_tables)

theorem transform_inverts_witness:
  "\<exists>l. sm_find (FSM (transform sample_fsm)) 0 = Some l \<and> set l = {0, 4}"
proof -
  have zero: "{p. sm_find (FSM2 sample_fsm) p = Some 0} = {0, 4}"
    by (auto simp: sample_fsm_tables split: if_splits)
  moreover have "0 \<in> ran (sm_find (FSM2 sample_fsm))"
    using zero by (auto simp: ran_def)
  ultimately show ?thesis
    using transform_inverts[OF sample_fsm_inv sample_fsm_tables(2), of 0 0] by simp
qed

text \<open>
  The total execution time that is reported is the latest time at which a row is written, and
  the numbers of active rows add up to the number of rows; for a state machine without rows the
  report prints an uninitialised variable.
\<close>

theorem printFSMToFile_total:
  assumes "fsm_inv f" "FSM f = []"
  shows "printFSMToFile (transform f) =
    (if FSM2 f = [] then Inl (UB ''printFSMToFile prints totalExecutionTime uninitialised'')
     else Inr (map (\<lambda>(t, l). (t, int (length l))) (FSM (transform f)), Max (snd ` set (FSM2 f)))) \<and>
    active_rows (FSM (transform f)) = int (length (FSM2 f))"
proof -
  let ?F = "FSM (transform f)"
  have inv: "sm_inv ?F" using fsm_inv_transform[OF assms(1)] by (simp add: fsm_inv_def)
  have dom: "fst ` set ?F = snd ` set (FSM2 f)"
    using sm.dom_lookup[OF inv] transform_FSM[OF assms] by (auto simp: dom_def split: if_splits)
  have "fst (last ?F) = Max (snd ` set (FSM2 f))" if "FSM2 f \<noteq> []"
  proof (rule Max_eqI[symmetric])
    have ne: "?F \<noteq> []" using that dom by auto
    show "fst (last ?F) \<in> snd ` set (FSM2 f)" unfolding dom[symmetric] using ne by simp
    show "y \<le> fst (last ?F)" if "y \<in> snd ` set (FSM2 f)" for y
      using sm_last_max[OF inv ne] that unfolding dom by blast
  qed simp
  moreover have "?F = [] \<longleftrightarrow> FSM2 f = []" using dom by (metis image_is_empty set_empty)
  moreover have "active_rows ?F = int (length (FSM2 f))"
    using active_rows_transform[of "[]" "FSM2 f"] assms(2) by (simp add: transform_def)
  ultimately show ?thesis by (simp add: printFSMToFile_def)
qed

theorem printFSMToFile_total_witness:
  "\<exists>l. printFSMToFile (transform sample_fsm) = Inr (l, 1)"
  using printFSMToFile_total[OF sample_fsm_inv sample_fsm_tables(2)] by (simp add: sample_fsm_tables)

end
