(* ===== verification/Std_String.thy ===== *)
theory Std_String
  imports Octantis_Prelude
begin

text \<open>
  The conversions between integers and strings that the program uses: \<open>std::to_string\<close> and
  \<open>std::stoi\<close> (which skips white space, takes a sign and the longest run of digits, and throws
  when there are no digits or the value does not fit 32 bits).
\<close>

definition digit_char :: "nat \<Rightarrow> char" where
  "digit_char d = char_of (48 + d)"

definition is_digit :: "char \<Rightarrow> bool" where
  "is_digit c \<longleftrightarrow> 48 \<le> (of_char c :: nat) \<and> (of_char c :: nat) \<le> 57"

definition digit_value :: "char \<Rightarrow> nat" where
  "digit_value c = of_char c - 48"

fun nat_to_string :: "nat \<Rightarrow> string" where
  "nat_to_string n =
     (if n < 10 then [digit_char n] else nat_to_string (n div 10) @ [digit_char (n mod 10)])"

declare nat_to_string.simps [simp del]

definition to_string :: "int \<Rightarrow> string" where
  "to_string i = (if i < 0 then CHR ''-'' # nat_to_string (nat (- i)) else nat_to_string (nat i))"

text \<open>\<open>std::isspace\<close> in the C locale.\<close>

definition is_space :: "char \<Rightarrow> bool" where
  "is_space c \<longleftrightarrow> (of_char c :: nat) = 32 \<or> 9 \<le> (of_char c :: nat) \<and> (of_char c :: nat) \<le> 13"

definition digits_value :: "string \<Rightarrow> nat" where
  "digits_value = foldl (\<lambda>n c. 10 * n + digit_value c) 0"

definition stoi :: "string \<Rightarrow> int res" where
  "stoi s =
     (let t = dropWhile is_space s;
          neg = (t \<noteq> [] \<and> hd t = CHR ''-'');
          u = (if t \<noteq> [] \<and> (hd t = CHR ''-'' \<or> hd t = CHR ''+'') then tl t else t);
          ds = takeWhile is_digit u
      in if ds = [] then Inl (InvalidArgument ''stoi'')
         else let v = (if neg then - int (digits_value ds) else int (digits_value ds)) in
              if v < - (2 ^ 31) \<or> 2 ^ 31 \<le> v then Inl (OutOfRange ''stoi'') else Inr v)"

lemma digit_char_simps [simp]:
  "d < 10 \<Longrightarrow> is_digit (digit_char d)"
  "d < 10 \<Longrightarrow> digit_value (digit_char d) = d"
  by (simp_all add: is_digit_def digit_char_def digit_value_def)

lemma nat_to_string_not_Nil [simp]: "nat_to_string n \<noteq> []"
  by (subst nat_to_string.simps) simp

lemma nat_to_string_digits: "list_all is_digit (nat_to_string n)"
proof (induction n rule: nat_to_string.induct)
  case (1 n)
  then show ?case by (subst nat_to_string.simps) simp
qed

lemma digits_value_append: "digits_value (ds @ [c]) = 10 * digits_value ds + digit_value c"
  by (simp add: digits_value_def)

lemma digits_value_nat_to_string [simp]: "digits_value (nat_to_string n) = n"
proof (induction n rule: nat_to_string.induct)
  case (1 n)
  then show ?case
    by (subst nat_to_string.simps) (simp add: digits_value_append, simp add: digits_value_def)
qed

lemma is_digit_not_space: "is_digit c \<Longrightarrow> \<not> is_space c"
  by (auto simp: is_digit_def is_space_def)

lemma is_digit_not_sign: "is_digit c \<Longrightarrow> c \<noteq> CHR ''-'' \<and> c \<noteq> CHR ''+''"
  by (auto simp: is_digit_def)

text \<open>Reading back what was written, whatever follows it that is not a digit.\<close>

lemma stoi_to_string:
  assumes "- (2 ^ 31) \<le> i" "i < 2 ^ 31" "rest = [] \<or> \<not> is_digit (hd rest)"
  shows "stoi (to_string i @ rest) = Inr i"
proof -
  have digits: "takeWhile is_digit (nat_to_string n @ rest) = nat_to_string n" for n
    using nat_to_string_digits[of n] assms(3)
    by (cases rest) (auto simp: takeWhile_append list_all_iff takeWhile_eq_all_conv)
  have hd: "is_digit (hd (nat_to_string n))" for n
    using nat_to_string_digits[of n] by (metis hd_in_set list_all_iff nat_to_string_not_Nil)
  obtain c cs where c: "nat_to_string (nat i) = c # cs" by (cases "nat_to_string (nat i)") auto
  have "is_digit c" using hd[of "nat i"] c by simp
  show ?thesis
  proof (cases "i < 0")
    case True
    then show ?thesis
      using assms(1,2) digits[of "nat (- i)"]
      by (simp add: to_string_def stoi_def Let_def is_space_def)
  next
    case False
    then show ?thesis
      using assms(1,2) digits[of "nat i"] \<open>is_digit c\<close> is_digit_not_space[of c] is_digit_not_sign[of c]
        digits_value_nat_to_string[of "nat i"]
      by (simp add: to_string_def stoi_def Let_def c)
  qed
qed

lemma to_string_inj: "to_string i = to_string j \<Longrightarrow> i = j"
proof -
  have strip: "i = (if hd s = CHR ''-'' then - int (digits_value (tl s)) else int (digits_value s))"
    if s: "to_string i = s" for i s
  proof (cases "i < 0")
    case True
    then show ?thesis using s[symmetric] by (simp add: to_string_def)
  next
    case False
    have "is_digit (hd (nat_to_string (nat i)))"
      using nat_to_string_digits[of "nat i"] by (metis hd_in_set list_all_iff nat_to_string_not_Nil)
    then show ?thesis using False s[symmetric] by (auto simp: to_string_def is_digit_def)
  qed
  assume "to_string i = to_string j"
  then show "i = j" using strip[of i "to_string j"] strip[of j "to_string j"] by simp
qed

end
