(* ===== verification/Loop_Info.thy ===== *)
theory Loop_Info
  imports Std_Map
begin

text \<open>
  \<open>Analysis/LoopInfoTable\<close>: what is known of each loop of the function, keyed by the allocated
  register of its iterator, and for each loop the iterators of the loops around it, the
  innermost first.
\<close>

section \<open>Data\<close>

record loopInfoStruct =
  loopHeader :: ptr
  loopBody :: "ptr list"
  loopLatch :: ptr
  iteratorInitValue :: int
  iteratorFinalValue :: int
  iteratorIncrement :: int
  iterations :: int
  variableInitValue :: ptr
  variableFinalValue :: ptr
  isInitValueConstant :: bool
  isFinalValueConstant :: bool

record loopInfoTable =
  nestedLoopMap :: "(ptr, ptr list) smap"
  loopInfoMap :: "(ptr, loopInfoStruct) smap"

definition empty_LIT :: loopInfoTable where
  "empty_LIT = \<lparr>nestedLoopMap = [], loopInfoMap = []\<rparr>"

definition lit_inv :: "loopInfoTable \<Rightarrow> bool" where
  "lit_inv t \<longleftrightarrow> sm_inv (nestedLoopMap t) \<and> sm_inv (loopInfoMap t)"

section \<open>Operations\<close>

definition insertNewLoopIt :: "ptr \<Rightarrow> loopInfoTable \<Rightarrow> loopInfoTable" where
  "insertNewLoopIt iteratorOp t =
     t\<lparr>nestedLoopMap := sm_insert iteratorOp [] (nestedLoopMap t)\<rparr>"

definition pushNestedLoop :: "ptr \<Rightarrow> ptr \<Rightarrow> loopInfoTable \<Rightarrow> loopInfoTable" where
  "pushNestedLoop loopIt higherLevelLoop t =
     t\<lparr>nestedLoopMap := sm_modify loopIt (\<lambda>l. l @ [higherLevelLoop]) (nestedLoopMap t)\<rparr>"

definition insertLoopInfo :: "ptr \<Rightarrow> loopInfoStruct \<Rightarrow> loopInfoTable \<Rightarrow> loopInfoTable" where
  "insertLoopInfo iteratorOp loopInfo t =
     t\<lparr>loopInfoMap := sm_insert iteratorOp loopInfo (loopInfoMap t)\<rparr>"

definition getLoopInfo :: "loopInfoTable \<Rightarrow> ptr \<Rightarrow> loopInfoStruct res" where
  "getLoopInfo t iteratorOp =
     or_fail (UB ''getLoopInfo reads the end of loopInfoMap'') (sm_find (loopInfoMap t) iteratorOp)"

definition getNestedLoops :: "loopInfoTable \<Rightarrow> ptr \<Rightarrow> (ptr \<times> ptr list) res" where
  "getNestedLoops t iteratorOp =
     ebind (or_fail (UB ''getNestedLoops reads the end of nestedLoopMap'')
              (sm_find (nestedLoopMap t) iteratorOp))
       (\<lambda>l. Inr (iteratorOp, l))"

fun find_loop_body :: "(ptr, loopInfoStruct) smap \<Rightarrow> ptr \<Rightarrow> ptr option" where
  "find_loop_body [] body = None"
| "find_loop_body ((it, info) # m) body =
     (if body \<in> set (loopBody info) then Some it else find_loop_body m body)"

definition getLoopIteratorFromLoopBody :: "loopInfoTable \<Rightarrow> ptr \<Rightarrow> ptr res" where
  "getLoopIteratorFromLoopBody t body =
     or_fail (UB ''getLoopIteratorFromLoopBody reads the end of loopInfoMap'')
       (find_loop_body (loopInfoMap t) body)"

definition getIterationVector :: "loopInfoTable \<Rightarrow> ptr \<Rightarrow> ptr list" where
  "getIterationVector t innermost =
     (case sm_find (nestedLoopMap t) innermost of
        None \<Rightarrow> []
      | Some l \<Rightarrow> rev l @ [innermost])"

text \<open>
  The iteration counts of a loop nest, outermost first: the loop that the binder runs over the
  iteration vector in both of its handlers.
\<close>

definition iteration_counts :: "loopInfoTable \<Rightarrow> ptr list \<Rightarrow> int list res" where
  "iteration_counts t its =
     efold (\<lambda>it l. ebind (getLoopInfo t it) (\<lambda>info. Inr (l @ [iterations info]))) its []"

section \<open>Properties\<close>

lemma lit_inv_ops [simp, intro]:
  "lit_inv empty_LIT"
  "lit_inv t \<Longrightarrow> lit_inv (insertNewLoopIt it t)"
  "lit_inv t \<Longrightarrow> lit_inv (pushNestedLoop it p t)"
  "lit_inv t \<Longrightarrow> lit_inv (insertLoopInfo it info t)"
  by (auto simp: lit_inv_def empty_LIT_def insertNewLoopIt_def pushNestedLoop_def insertLoopInfo_def)

lemma pushNestedLoop_all:
  "sm_find (nestedLoopMap t) it = Some l \<Longrightarrow>
   sm_find (nestedLoopMap (fold (pushNestedLoop it) ps t)) it = Some (l @ ps)"
  by (induction ps arbitrary: t l) (auto simp: pushNestedLoop_def sm_find_modify)

text \<open>
  C27: when the parents of a new loop are pushed from the innermost outwards, the iteration
  vector of the loop lists the nest from the outermost loop down to it.
\<close>

theorem getIterationVector_nest:
  assumes "lit_inv t" "sm_find (nestedLoopMap t) it = None"
  shows "getIterationVector (fold (pushNestedLoop it) parents (insertNewLoopIt it t)) it =
    rev parents @ [it]"
proof -
  have "sm_find (nestedLoopMap (insertNewLoopIt it t)) it = Some []"
    using assms by (simp add: insertNewLoopIt_def lit_inv_def sm.insert_absent)
  then show ?thesis
    by (simp add: getIterationVector_def pushNestedLoop_all)
qed

theorem getIterationVector_nest_witness:
  "getIterationVector (fold (pushNestedLoop 12) [8, 4] (insertNewLoopIt 12 empty_LIT)) 12 = [4, 8, 12]"
  using getIterationVector_nest [of empty_LIT 12 "[8, 4]"] by (simp add: empty_LIT_def lit_inv_def)

lemma iteration_counts_Inr:
  assumes "\<forall>it \<in> set its. sm_find (loopInfoMap t) it \<noteq> None"
  shows "iteration_counts t its = Inr (map (\<lambda>it. iterations (the (sm_find (loopInfoMap t) it))) its)"
proof -
  have "efold (\<lambda>it l. ebind (getLoopInfo t it) (\<lambda>info. Inr (l @ [iterations info]))) its [] =
    Inr ([] @ concat (map (\<lambda>it. [iterations (the (sm_find (loopInfoMap t) it))]) its))"
    using assms by (intro efold_collect) (auto simp: getLoopInfo_def)
  then show ?thesis by (simp add: iteration_counts_def concat_map_singleton)
qed

end
