(* ===== verification/Access_Pattern.thy ===== *)
theory Access_Pattern
  imports Octantis_Prelude
begin

text \<open>
  \<open>Utils/AccessPattern\<close>: the matrix of loop increments of an array access (one row per array
  index, one column per loop of the nest), the detection of the kind of traversal, and the
  count of the columns of zeros.

  The matrix is one flat \<open>std::vector<int>\<close>. \<open>operator()\<close> does not check its index, and several
  reads of the detection fall outside the vector. What such a read gives is the parameter
  \<open>heap\<close> of the definitions (the vector's name and the index): \<open>ub_heap\<close> takes it as the
  undefined behaviour it is, \<open>junk_heap g\<close> as the value \<open>g\<close> finds behind the vector.
\<close>

section \<open>Data\<close>

datatype arrayAccessPattern =
    rowMajor
  | colMajor
  | colMajorSet1ColMajor
  | colMajorSet1RowMajor
  | rowMajorSet1RowMajor
  | rowMajorSet1ColMajor
  | colMajorSet2RowMajor
  | rowMajorSet2ColMajor
  | colMajorSet2ColMajor
  | rowMajorSet2RowMajor
  | undefinedPattern

record access_pattern =
  rowsM :: int
  colsM :: int
  incrementVector :: "int list"
  initZerosM :: int
  finalZerosM :: int
  apmType :: arrayAccessPattern

type_synonym heap = "string \<Rightarrow> int \<Rightarrow> int res"

definition ub_heap :: heap where
  "ub_heap v k = Inl (UB ''read outside a vector'')"

definition junk_heap :: "(string \<Rightarrow> int \<Rightarrow> int) \<Rightarrow> heap" where
  "junk_heap g v k = Inr (g v k)"

definition vec_at :: "heap \<Rightarrow> string \<Rightarrow> int list \<Rightarrow> int \<Rightarrow> int res" where
  "vec_at heap name xs k =
     (if 0 \<le> k \<and> k < int (length xs) then Inr (xs ! nat k) else heap name k)"

lemma vec_at_inside [simp]: "0 \<le> k \<Longrightarrow> k < int (length xs) \<Longrightarrow> vec_at h v xs k = Inr (xs ! nat k)"
  by (simp add: vec_at_def)

lemma vec_at_ub: "vec_at ub_heap v xs k = Inr x \<Longrightarrow> 0 \<le> k \<and> k < int (length xs) \<and> x = xs ! nat k"
  by (auto simp: vec_at_def ub_heap_def split: if_splits)

section \<open>Operations\<close>

definition ap_at :: "heap \<Rightarrow> access_pattern \<Rightarrow> int \<Rightarrow> int \<Rightarrow> int res" where
  "ap_at heap ap i j = vec_at heap ''incrementVector'' (incrementVector ap) (i * colsM ap + j)"

definition pushIncrement :: "int \<Rightarrow> access_pattern \<Rightarrow> access_pattern" where
  "pushIncrement el ap = ap\<lparr>incrementVector := incrementVector ap @ [el]\<rparr>"

definition ap_setRows :: "int \<Rightarrow> access_pattern \<Rightarrow> access_pattern" where
  "ap_setRows rows ap = ap\<lparr>rowsM := rows\<rparr>"

definition ap_setCols :: "int \<Rightarrow> access_pattern \<Rightarrow> access_pattern" where
  "ap_setCols cols ap = ap\<lparr>colsM := cols\<rparr>"

definition setApmType :: "arrayAccessPattern \<Rightarrow> access_pattern \<Rightarrow> access_pattern" where
  "setApmType apmT ap = ap\<lparr>apmType := apmT\<rparr>"

text \<open>
  \<open>pruneIncrementVector\<close>. The iterator of each row is advanced by \<open>i\<close> in iteration \<open>i\<close> from where
  it stands, so it visits the positions 0, 1, 3, 6, ... The loop state is the position, the
  columns kept so far and \<open>newCols\<close>. In the branch for one row the inner \<open>newCols\<close> hides the
  outer one, which is the one stored, so \<open>colsM\<close> keeps its value there.
\<close>

definition prune_step2 ::
  "heap \<Rightarrow> int list \<Rightarrow> int list \<Rightarrow> int \<Rightarrow> int \<times> int list \<times> int list \<times> int
   \<Rightarrow> (int \<times> int list \<times> int list \<times> int) res" where
  "prune_step2 heap row1 row2 i s =
     (case s of (pos, new1, new2, newCols) \<Rightarrow>
        ebind (vec_at heap ''row1Vector'' row1 (pos + i)) (\<lambda>x.
        ebind (vec_at heap ''row2Vector'' row2 (pos + i)) (\<lambda>y.
          Inr (if x \<noteq> 0 \<or> y \<noteq> 0 then (pos + i, new1 @ [x], new2 @ [y], newCols)
               else (pos + i, new1, new2, newCols - 1)))))"

definition prune_step1 ::
  "heap \<Rightarrow> int list \<Rightarrow> int \<Rightarrow> int \<times> int list \<Rightarrow> (int \<times> int list) res" where
  "prune_step1 heap row1 i s =
     (case s of (pos, new1) \<Rightarrow>
        ebind (vec_at heap ''row1Vector'' row1 (pos + i)) (\<lambda>x.
          Inr (if x \<noteq> 0 then (pos + i, new1 @ [x]) else (pos + i, new1))))"

definition pruneIncrementVector :: "heap \<Rightarrow> access_pattern \<Rightarrow> access_pattern res" where
  "pruneIncrementVector heap ap =
     (let v = incrementVector ap; cols = colsM ap in
      if rowsM ap = 2 then
        (if 0 \<le> cols \<and> cols \<le> int (length v) then
           ebind (for_loop 0 cols 1
                    (prune_step2 heap (take (nat cols) v) (drop (nat cols) v)) (0, [], [], cols))
             (\<lambda>(pos, new1, new2, newCols).
                Inr (ap\<lparr>incrementVector := new1 @ new2, colsM := newCols\<rparr>))
         else Inl (UB ''iterator moved outside a vector''))
      else
        ebind (for_loop 0 cols 1 (prune_step1 heap v) (0, []))
          (\<lambda>(pos, new1). Inr (ap\<lparr>incrementVector := new1\<rparr>)))"

text \<open>
  \<open>detectAccessPatternType\<close> looks for the first non-zero element and decides by the elements
  around it; \<open>&&\<close> stops at the first zero.
\<close>

fun all_nonzero :: "heap \<Rightarrow> access_pattern \<Rightarrow> (int \<times> int) list \<Rightarrow> bool res" where
  "all_nonzero heap ap [] = Inr True"
| "all_nonzero heap ap ((i, j) # ps) =
     ebind (ap_at heap ap i j) (\<lambda>v. if v \<noteq> 0 then all_nonzero heap ap ps else Inr False)"

definition dap_matrix_case ::
  "heap \<Rightarrow> access_pattern \<Rightarrow> int \<Rightarrow> int \<Rightarrow> (arrayAccessPattern \<times> int \<times> int) option res" where
  "dap_matrix_case heap ap i j =
     (let cols = colsM ap in
      if cols = 4 then
        ebind (all_nonzero heap ap [(i + 1, j - 1), (i + 1, j + 1), (i, j + 2)]) (\<lambda>b.
        if b then Inr (Some (colMajorSet2ColMajor, i - 1, cols - i - 3)) else
        ebind (all_nonzero heap ap [(i, j + 2), (i + 1, j + 1), (i + 1, j + 3)]) (\<lambda>b.
        if b then Inr (Some (rowMajorSet2RowMajor, i, cols - i - 4)) else
        ebind (all_nonzero heap ap [(i, j + 1), (i + 1, j - 1), (i + 1, j + 2)]) (\<lambda>b.
        if b then Inr (Some (rowMajorSet2ColMajor, i - 1, cols - i - 3)) else
        ebind (all_nonzero heap ap [(i, j + 3), (i + 1, j + 1), (i + 1, j + 2)]) (\<lambda>b.
        if b then Inr (Some (colMajorSet2RowMajor, i, cols - i - 4)) else Inr None))))
      else if cols = 3 then
        ebind (all_nonzero heap ap [(i, j + 2), (i + 1, j + 1)]) (\<lambda>b.
        if b then Inr (Some (colMajorSet1RowMajor, i, cols - i - 3)) else
        ebind (all_nonzero heap ap [(i + 1, j - 1), (i + 1, j + 1)]) (\<lambda>b.
        if b then Inr (Some (rowMajorSet1ColMajor, i - 1, cols - i - 2)) else Inr None))
      else if cols = 2 then
        ebind (all_nonzero heap ap [(i + 1, j + 1)]) (\<lambda>b.
        if b then Inr (Some (rowMajor, i, cols - i - 2)) else
        ebind (all_nonzero heap ap [(i + 1, j - 1)]) (\<lambda>b.
        if b then Inr (Some (colMajor, i - 1, cols - i - 1)) else Inr None))
      else Inr None)"

fun dap_matrix_scan ::
  "heap \<Rightarrow> access_pattern \<Rightarrow> (int \<times> int) list \<Rightarrow> (arrayAccessPattern \<times> int \<times> int) option res" where
  "dap_matrix_scan heap ap [] = Inr None"
| "dap_matrix_scan heap ap ((i, j) # ps) =
     ebind (ap_at heap ap i j) (\<lambda>v.
       if v \<noteq> 0 then
         ebind (dap_matrix_case heap ap i j) (\<lambda>r.
           case r of Some x \<Rightarrow> Inr (Some x) | None \<Rightarrow> dap_matrix_scan heap ap ps)
       else dap_matrix_scan heap ap ps)"

text \<open>
  The branch for a vector: the second condition is evaluated only where the first is false, and
  reads both elements again.
\<close>

fun dap_vector_scan ::
  "heap \<Rightarrow> access_pattern \<Rightarrow> int list \<Rightarrow> (arrayAccessPattern \<times> int \<times> int) option res" where
  "dap_vector_scan heap ap [] = Inr None"
| "dap_vector_scan heap ap (i # is') =
     ebind (ap_at heap ap 0 i) (\<lambda>v.
       if v \<noteq> 0 then
         ebind (ap_at heap ap 0 (i + 1)) (\<lambda>w.
           if w = 0 then Inr (Some (rowMajor, i, colsM ap - i - 1))
           else Inr (Some (rowMajor, i, colsM ap - i - 2)))
       else dap_vector_scan heap ap is')"

definition ap_positions :: "int \<Rightarrow> int \<Rightarrow> (int \<times> int) list" where
  "ap_positions rows cols = concat (map (\<lambda>i. map (\<lambda>j. (i, j)) [0..cols - 1]) [0..rows - 1])"

definition detectAccessPatternType :: "heap \<Rightarrow> access_pattern \<Rightarrow> access_pattern res" where
  "detectAccessPatternType heap ap =
     ebind (pruneIncrementVector heap ap) (\<lambda>tmp.
     ebind (if 1 < rowsM tmp
            then dap_matrix_scan heap tmp (ap_positions (rowsM tmp) (colsM tmp))
            else dap_vector_scan heap tmp [0..colsM tmp - 1]) (\<lambda>r.
       Inr (case r of
              Some (p, iz, fz) \<Rightarrow> ap\<lparr>apmType := p, initZerosM := iz, finalZerosM := fz\<rparr>
            | None \<Rightarrow> ap\<lparr>apmType := undefinedPattern, initZerosM := 0, finalZerosM := 0\<rparr>)))"

text \<open>
  \<open>detectZeroCols\<close>: the columns of zeros before the first other column, and then every column of
  zeros behind it.
\<close>

definition zero_col :: "heap \<Rightarrow> access_pattern \<Rightarrow> int \<Rightarrow> bool res" where
  "zero_col heap ap j =
     ebind (ap_at heap ap 0 j) (\<lambda>x.
       if rowsM ap = 1 then Inr (x = 0)
       else if x = 0 then ebind (ap_at heap ap 1 j) (\<lambda>y. Inr (y = 0))
       else Inr False)"

fun dzc_final :: "heap \<Rightarrow> access_pattern \<Rightarrow> int list \<Rightarrow> int \<Rightarrow> int res" where
  "dzc_final heap ap [] n = Inr n"
| "dzc_final heap ap (j # js) n =
     ebind (zero_col heap ap j) (\<lambda>z. dzc_final heap ap js (if z then n + 1 else n))"

fun dzc_scan :: "heap \<Rightarrow> access_pattern \<Rightarrow> int list \<Rightarrow> int \<Rightarrow> (int \<times> int) res" where
  "dzc_scan heap ap [] n = Inr (n, 0)"
| "dzc_scan heap ap (i # is') n =
     ebind (zero_col heap ap i) (\<lambda>z.
       if z then dzc_scan heap ap is' (n + 1)
       else ebind (dzc_final heap ap is' 0) (\<lambda>m. Inr (n, m)))"

definition detectZeroCols :: "heap \<Rightarrow> access_pattern \<Rightarrow> access_pattern res" where
  "detectZeroCols heap ap =
     (if rowsM ap = 1 \<or> rowsM ap = 2 then
        ebind (dzc_scan heap ap [0..colsM ap - 1] 0)
          (\<lambda>(n, m). Inr (ap\<lparr>initZerosM := n, finalZerosM := m\<rparr>))
      else Inr (ap\<lparr>initZerosM := 0, finalZerosM := 0\<rparr>))"

section \<open>Columns of zeros\<close>

definition ap_wf :: "access_pattern \<Rightarrow> bool" where
  "ap_wf ap \<longleftrightarrow> (rowsM ap = 1 \<or> rowsM ap = 2) \<and> 0 \<le> colsM ap \<and>
     int (length (incrementVector ap)) = rowsM ap * colsM ap"

definition is_zero_col :: "access_pattern \<Rightarrow> int \<Rightarrow> bool" where
  "is_zero_col ap j \<longleftrightarrow> incrementVector ap ! nat j = 0 \<and>
     (rowsM ap = 2 \<longrightarrow> incrementVector ap ! nat (colsM ap + j) = 0)"

lemma zero_col_wf:
  assumes "ap_wf ap" "0 \<le> j" "j < colsM ap"
  shows "zero_col h ap j = Inr (is_zero_col ap j)"
  using assms by (auto simp: zero_col_def ap_at_def ap_wf_def is_zero_col_def vec_at_def)

lemma dzc_final_wf:
  assumes "ap_wf ap" "\<forall>j \<in> set js. 0 \<le> j \<and> j < colsM ap"
  shows "dzc_final h ap js n = Inr (n + int (length (filter (is_zero_col ap) js)))"
  using assms(2) by (induction js arbitrary: n) (auto simp: zero_col_wf [OF assms(1)])

lemma dzc_scan_wf:
  assumes "ap_wf ap" "\<forall>j \<in> set js. 0 \<le> j \<and> j < colsM ap"
  shows "dzc_scan h ap js n =
    Inr (n + int (length (takeWhile (is_zero_col ap) js)),
         int (length (filter (is_zero_col ap) (dropWhile (is_zero_col ap) js))))"
  using assms(2)
  by (induction js arbitrary: n) (auto simp: zero_col_wf [OF assms(1)] dzc_final_wf [OF assms(1)])

lemma length_filter_takeWhile:
  "length (filter P xs) = length (takeWhile P xs) + length (filter P (dropWhile P xs))"
  by (induction xs) auto

text \<open>
  C28: on a well-formed matrix of one or two rows \<open>detectZeroCols\<close> reads inside the vector only,
  stores in \<open>initZerosM\<close> the number of leading columns of zeros, and in \<open>finalZerosM\<close> the number
  of all columns of zeros behind the first column that is not zero, those between other columns included.
  (The comment in the code says that \<open>finalZeros\<close> counts the final columns of zeros.)
\<close>

theorem detectZeroCols_correct:
  assumes "ap_wf ap"
  shows "detectZeroCols heap ap =
    Inr (ap\<lparr>initZerosM := int (length (takeWhile (is_zero_col ap) [0..colsM ap - 1])),
            finalZerosM := int (length (filter (is_zero_col ap) [0..colsM ap - 1]))
              - int (length (takeWhile (is_zero_col ap) [0..colsM ap - 1]))\<rparr>)"
proof -
  have "dzc_scan heap ap [0..colsM ap - 1] 0 =
    Inr (int (length (takeWhile (is_zero_col ap) [0..colsM ap - 1])),
         int (length (filter (is_zero_col ap) (dropWhile (is_zero_col ap) [0..colsM ap - 1]))))"
    using dzc_scan_wf [OF assms, of "[0..colsM ap - 1]" heap 0] by auto
  then show ?thesis
    using assms length_filter_takeWhile [of "is_zero_col ap" "[0..colsM ap - 1]"]
    by (auto simp: detectZeroCols_def ap_wf_def)
qed

definition sample_pattern :: "int \<Rightarrow> int \<Rightarrow> int list \<Rightarrow> access_pattern" where
  "sample_pattern rows cols v =
     \<lparr>rowsM = rows, colsM = cols, incrementVector = v, initZerosM = 0, finalZerosM = 0,
      apmType = undefinedPattern\<rparr>"

lemma sample_pattern_simps [simp]:
  "rowsM (sample_pattern r c v) = r" "colsM (sample_pattern r c v) = c"
  "incrementVector (sample_pattern r c v) = v"
  by (simp_all add: sample_pattern_def)

theorem detectZeroCols_correct_witness:
  "ap_wf (sample_pattern 1 4 [0, 1, 0, 1]) \<and>
   map_sum id (\<lambda>a. (initZerosM a, finalZerosM a)) (detectZeroCols ub_heap (sample_pattern 1 4 [0, 1, 0, 1]))
     = Inr (1, 1)"
proof -
  have wf: "ap_wf (sample_pattern 1 4 [0, 1, 0, 1])" by (simp add: ap_wf_def)
  have up: "[0..3::int] = [0, 1, 2, 3]" by (simp add: upto.simps)
  show ?thesis
    using wf by (simp add: detectZeroCols_correct [OF wf] up is_zero_col_def)
qed

section \<open>Pruning\<close>

text \<open>
  The iterators visit the triangular numbers, so with three or more columns of a matrix of two
  rows the last visited position lies outside the rows.
\<close>

lemma efold_prune2_pos:
  assumes "efold (prune_step2 h r1 r2) (map int [a..<b]) (pos, n1, n2, c) = Inr (pos', n1', n2', c')"
    and "a \<le> b" "2 * pos = int a * (int a - 1)"
  shows "2 * pos' = int b * (int b - 1)"
  using assms
proof (induction "b - a" arbitrary: a pos n1 n2 c)
  case 0
  then show ?case by simp
next
  case (Suc d)
  then have ab: "[a..<b] = a # [Suc a..<b]" by (simp add: upt_conv_Cons)
  from Suc.prems(1) obtain n1a n2a ca where
    "efold (prune_step2 h r1 r2) (map int [Suc a..<b]) (pos + int a, n1a, n2a, ca) = Inr (pos', n1', n2', c')"
    unfolding ab by (auto simp: prune_step2_def res_simps split: if_splits)
  then show ?case
    using Suc.prems(3) Suc.hyps(2) by (intro Suc.hyps(1) [of "Suc a"]) (auto simp: algebra_simps)
qed

lemma triangular_ge:
  assumes "3 \<le> c" "2 * p = c * (c - 1)"
  shows "(c::int) \<le> p"
proof -
  have "2 * c \<le> (c - 1) * c" using assms(1) by (intro mult_right_mono) auto
  then show ?thesis using assms(2) by (simp add: mult.commute)
qed

text \<open>
  \<open>pruneIncrementVector\<close> of a matrix of two rows and three or more columns never finishes
  without reading outside the rows: the loop advances its iterators by the loop index instead of
  by one.
\<close>

theorem prune_two_rows_reads_outside:
  assumes "rowsM ap = 2" "3 \<le> colsM ap" "int (length (incrementVector ap)) = 2 * colsM ap"
  shows "isl (pruneIncrementVector ub_heap ap)"
proof (rule ccontr)
  define r1 where "r1 = take (nat (colsM ap)) (incrementVector ap)"
  define r2 where "r2 = drop (nat (colsM ap)) (incrementVector ap)"
  define n where "n = nat (colsM ap) - 1"
  have n: "[0..<nat (colsM ap)] = [0..<n] @ [n]" "int n = colsM ap - 1" "3 \<le> int n + 1"
    using assms(2) unfolding n_def
    by (auto simp: Suc_diff_1 simp flip: upt_Suc_append)
  assume "\<not> isl (pruneIncrementVector ub_heap ap)"
  then obtain s where "for_loop 0 (colsM ap) 1 (prune_step2 ub_heap r1 r2) (0, [], [], colsM ap) = Inr s"
    using assms
    by (auto simp: pruneIncrementVector_def r1_def r2_def Let_def ebind_def split: sum.splits if_splits)
  then have "efold (prune_step2 ub_heap r1 r2) (map int [0..<nat (colsM ap)]) (0, [], [], colsM ap) = Inr s"
    by (simp only: for_loop_upt)
  then obtain pos n1 n2 c where
    first: "efold (prune_step2 ub_heap r1 r2) (map int [0..<n]) (0, [], [], colsM ap) = Inr (pos, n1, n2, c)"
    and last: "prune_step2 ub_heap r1 r2 (int n) (pos, n1, n2, c) = Inr s"
    unfolding n(1) map_append efold_append by (force simp: res_simps)
  have "2 * pos = int n * (int n - 1)" using efold_prune2_pos [OF first] by simp
  moreover have "colsM ap = int n + 1" using n(2) by linarith
  ultimately have "2 * (pos + int n) = colsM ap * (colsM ap - 1)" by (simp add: algebra_simps)
  then have "colsM ap \<le> pos + int n" by (rule triangular_ge [OF assms(2)])
  moreover from last have "pos + int n < int (length r1)"
    by (auto simp: prune_step2_def res_simps dest!: vec_at_ub)
  ultimately show False using assms(2,3) by (simp add: r1_def)
qed

theorem prune_two_rows_reads_outside_witness:
  "isl (pruneIncrementVector ub_heap (sample_pattern 2 3 [1, 0, 0, 0, 1, 0]))"
  by (rule prune_two_rows_reads_outside) simp_all

section \<open>Detection\<close>

lemma upt_small: "[0..<2] = [0, 1]" "[0..<1] = [0]"
  by (simp_all add: upt_rec)

lemma prune_two_by_two:
  assumes "rowsM ap = 2" "colsM ap = 2" "incrementVector ap = [a, b, c, d]"
    "a \<noteq> 0 \<or> c \<noteq> 0" "b \<noteq> 0 \<or> d \<noteq> 0"
  shows "pruneIncrementVector heap ap = Inr ap"
  using assms
  by (auto simp: pruneIncrementVector_def for_loop_upt upt_small prune_step2_def numeral_2_eq_2)

lemma ap_positions_2: "ap_positions 2 2 = [(0, 0), (0, 1), (1, 0), (1, 1)]"
  by (simp add: ap_positions_def upto.simps)

text \<open>
  A matrix access whose outer loop drives the row index and whose inner loop drives the
  column index (increments on the diagonal) is found to be row-major, whatever lies behind the
  vector.
\<close>

theorem detect_row_major:
  assumes "rowsM ap = 2" "colsM ap = 2" "incrementVector ap = [a, 0, 0, d]" "a \<noteq> 0" "d \<noteq> 0"
  shows "detectAccessPatternType heap ap =
    Inr (ap\<lparr>apmType := rowMajor, initZerosM := 0, finalZerosM := 0\<rparr>)"
proof -
  have "pruneIncrementVector heap ap = Inr ap"
    by (rule prune_two_by_two [OF assms(1-3)]) (simp_all add: assms(4,5))
  then show ?thesis
    using assms
    by (simp add: detectAccessPatternType_def ap_positions_2 ap_at_def dap_matrix_case_def Let_def)
qed

theorem detect_row_major_witness:
  "detectAccessPatternType ub_heap (sample_pattern 2 2 [1, 0, 0, 1]) =
     Inr ((sample_pattern 2 2 [1, 0, 0, 1])\<lparr>apmType := rowMajor, initZerosM := 0, finalZerosM := 0\<rparr>)"
  by (rule detect_row_major [where a = 1 and d = 1]) simp_all

text \<open>
  C29: for the transposed access (increments off the diagonal) the detection reads the element
  behind the vector: it answers column-major exactly when that element is 0, and row-major
  otherwise.
\<close>

theorem detect_col_major_depends_on_heap:
  assumes "rowsM ap = 2" "colsM ap = 2" "incrementVector ap = [0, b, c, 0]" "b \<noteq> 0" "c \<noteq> 0"
  shows "detectAccessPatternType heap ap =
    ebind (heap ''incrementVector'' 4) (\<lambda>v.
      Inr (if v = 0 then ap\<lparr>apmType := colMajor, initZerosM := -1, finalZerosM := 1\<rparr>
           else ap\<lparr>apmType := rowMajor, initZerosM := 0, finalZerosM := 0\<rparr>))"
proof -
  have "pruneIncrementVector heap ap = Inr ap"
    by (rule prune_two_by_two [OF assms(1-3)]) (simp_all add: assms(4,5))
  moreover have "ap_at heap ap 1 2 = heap ''incrementVector'' 4"
    using assms by (simp add: ap_at_def vec_at_def)
  ultimately show ?thesis
    using assms
    by (cases "heap ''incrementVector'' 4")
      (simp_all add: detectAccessPatternType_def ap_positions_2 ap_at_def dap_matrix_case_def Let_def)
qed

theorem detect_col_major_depends_on_heap_witness:
  "detectAccessPatternType (junk_heap (\<lambda>_ _. 0)) (sample_pattern 2 2 [0, 1, 1, 0]) =
     Inr ((sample_pattern 2 2 [0, 1, 1, 0])\<lparr>apmType := colMajor, initZerosM := -1, finalZerosM := 1\<rparr>)
   \<and> isl (detectAccessPatternType ub_heap (sample_pattern 2 2 [0, 1, 1, 0]))"
  by (simp add: detect_col_major_depends_on_heap [where b = 1 and c = 1] junk_heap_def ub_heap_def)

text \<open>
  An access to a vector in one or two nested loops is classified \<open>rowMajor\<close> as soon as one
  loop moves the index, whatever the reads outside the pruned vector find, provided they do not
  trap.
\<close>

theorem detect_vector_row_major:
  assumes "rowsM ap = 1" "colsM ap = 1 \<or> colsM ap = 2"
    and "int (length (incrementVector ap)) = colsM ap" "\<exists>x \<in> set (incrementVector ap). x \<noteq> 0"
  shows "\<exists>ap'. detectAccessPatternType (junk_heap g) ap = Inr ap' \<and> apmType ap' = rowMajor"
proof -
  from assms consider (one) a where "incrementVector ap = [a]" "a \<noteq> 0" "colsM ap = 1"
    | (two) a b where "incrementVector ap = [a, b]" "a \<noteq> 0 \<or> b \<noteq> 0" "colsM ap = 2"
    by (auto simp: length_Suc_conv numeral_2_eq_2 eval_nat_numeral)
  then show ?thesis
  proof cases
    case one
    with assms(1) show ?thesis
      by (auto simp: detectAccessPatternType_def pruneIncrementVector_def for_loop_upt upt_small
          prune_step1_def ap_at_def vec_at_def junk_heap_def)
  next
    case two
    have up: "[0..1::int] = [0, 1]" by (simp add: upto.simps)
    from two assms(1) show ?thesis
      by (auto simp: detectAccessPatternType_def pruneIncrementVector_def for_loop_upt upt_small
          prune_step1_def ap_at_def vec_at_def junk_heap_def up numeral_2_eq_2)
  qed
qed

theorem detect_vector_row_major_witness:
  "\<exists>ap'. detectAccessPatternType (junk_heap (\<lambda>_ _. 7)) (sample_pattern 1 2 [0, 1]) = Inr ap' \<and>
         apmType ap' = rowMajor"
  by (rule detect_vector_row_major) simp_all

end
