(* ===== verification/Pointer_Info.thy ===== *)
theory Pointer_Info
  imports Std_Map Access_Pattern
begin

text \<open>
  \<open>Analysis/PointerInfoTable\<close>: for each pointer used to access an array (a GEP instruction) the
  geometry of the access that the analysis computes and the binder reads.
\<close>

record indexInfoStruct =
  iterators :: "ptr list"
  idx_constant :: int
  idx_operation :: int
  operationConstant :: int

record pointerInfoStruct =
  loopIterator :: ptr
  arrayRows :: int
  arrayCols :: int
  setRows :: int
  setCols :: int
  spacingInSubsetX :: int
  spacingInSubsetY :: int
  spacingX :: int
  spacingY :: int
  offsetX :: int
  offsetY :: int
  stopX :: int
  stopY :: int
  numberOfSubsets :: int
  numberOfSubsetsElements :: int
  pointerAccessPattern :: access_pattern
  pointerAccessPatternConstant :: access_pattern
  firstIdxInfo :: indexInfoStruct
  secondIdxInfo :: indexInfoStruct

type_synonym pointerInfoTable = "(ptr, pointerInfoStruct) smap"

definition getPointerInfo :: "pointerInfoTable \<Rightarrow> ptr \<Rightarrow> pointerInfoStruct res" where
  "getPointerInfo pit pointer =
     or_fail (UB ''getPointerInfo reads the end of pointerInfoMap'') (sm_find pit pointer)"

definition modifyPointerInfo :: "ptr \<Rightarrow> pointerInfoStruct \<Rightarrow> pointerInfoTable \<Rightarrow> pointerInfoTable res" where
  "modifyPointerInfo pointer info pit =
     (if sm_find pit pointer = None
      then Inl (UB ''modifyPointerInfo writes the end of pointerInfoMap'')
      else Inr (sm_modify pointer (\<lambda>_. info) pit))"

definition insertPointerInfo :: "ptr \<Rightarrow> pointerInfoStruct \<Rightarrow> pointerInfoTable \<Rightarrow> pointerInfoTable" where
  "insertPointerInfo pointer info pit = sm_insert pointer info pit"

lemma getPointerInfo_modify:
  "modifyPointerInfo p info pit = Inr pit' \<Longrightarrow>
   getPointerInfo pit' q = (if q = p then Inr info else getPointerInfo pit q)"
  by (auto simp: modifyPointerInfo_def getPointerInfo_def sm_find_modify split: if_splits)

lemma getPointerInfo_insert:
  "sm_inv pit \<Longrightarrow> sm_find pit p = None \<Longrightarrow>
   getPointerInfo (insertPointerInfo p info pit) q = (if q = p then Inr info else getPointerInfo pit q)"
  by (auto simp: insertPointerInfo_def getPointerInfo_def sm_find_insert)

end
