(* ===== verification/Address_List.thy ===== *)
theory Address_List
  imports Pointer_Info
begin

text \<open>
  \<open>Utils/AddressList\<close>: the rows on which an operation works, in the order in which the loop
  nest visits them. The list starts as the rows of an array; \<open>shapeAddressList\<close> selects the
  elements the access touches, \<open>expandAddressList\<close> repeats them for the loops that do not move
  the index. The iterator kept as a member is set before every use and carries nothing from one
  call to the next; the model has the list alone.
\<close>

section \<open>Operations\<close>

type_synonym addressList = "ptr list"

definition extractIteratorAdvancement ::
  "arrayAccessPattern \<Rightarrow> int \<Rightarrow> int \<Rightarrow> int \<Rightarrow> int \<Rightarrow> int \<Rightarrow> int \<Rightarrow> int res" where
  "extractIteratorAdvancement ap i j k l aCols sCols =
     (case ap of
        rowMajor \<Rightarrow> Inr (i * aCols + j)
      | colMajor \<Rightarrow> Inr (j * aCols + i)
      | colMajorSet1RowMajor \<Rightarrow> Inr (i * aCols + j + k)
      | rowMajorSet1ColMajor \<Rightarrow> Inr (i + (j + k) * aCols)
      | rowMajorSet2RowMajor \<Rightarrow> Inr (i * aCols + j + aCols * k + l)
      | rowMajorSet2ColMajor \<Rightarrow> Inr (i * aCols + j + aCols * l + k)
      | colMajorSet2ColMajor \<Rightarrow> Inr (j * aCols + i + aCols * l + k)
      | colMajorSet2RowMajor \<Rightarrow> Inr (j * aCols + i + aCols * k + l)
      | _ \<Rightarrow> Inl (UB ''extractIteratorAdvancement ends without a value''))"

text \<open>\<open>advance(addrListIT, n); tmpList.push_back(*addrListIT)\<close> from the first position.\<close>

definition push_at :: "addressList \<Rightarrow> int res \<Rightarrow> addressList \<Rightarrow> addressList res" where
  "push_at addrs n tmpList = ebind n (\<lambda>n. ebind (list_at addrs n) (\<lambda>a. Inr (tmpList @ [a])))"

definition shape_triangular :: "addressList \<Rightarrow> pointerInfoStruct \<Rightarrow> addressList res" where
  "shape_triangular addrs pis =
     for_loop (offsetY pis) (stopX pis) (spacingX pis) (\<lambda>i.
       for_loop (offsetX pis) (stopY pis) (spacingY pis) (\<lambda>j.
         for_loop 0 (i + 1) (spacingInSubsetX pis) (\<lambda>k.
           for_loop 0 (j + 1) (spacingInSubsetY pis) (\<lambda>l.
             push_at addrs (Inr (arrayCols pis * k + l)))))) []"

definition shape_plain :: "addressList \<Rightarrow> arrayAccessPattern \<Rightarrow> pointerInfoStruct \<Rightarrow> addressList res" where
  "shape_plain addrs ap pis =
     for_loop (offsetY pis) (stopY pis + 1) (spacingY pis) (\<lambda>i.
       for_loop (offsetX pis) (stopX pis + 1) (spacingX pis) (\<lambda>j.
         push_at addrs (extractIteratorAdvancement ap i j 0 0 (arrayCols pis) 0))) []"

definition shape_sets :: "addressList \<Rightarrow> arrayAccessPattern \<Rightarrow> pointerInfoStruct \<Rightarrow> addressList res" where
  "shape_sets addrs ap pis =
     for_loop (offsetY pis) (stopY pis + 1) (spacingY pis) (\<lambda>i.
       for_loop (offsetX pis) (arrayRows pis - setRows pis + 1) (spacingX pis) (\<lambda>j.
         for_loop 0 (setRows pis) (spacingInSubsetY pis) (\<lambda>k.
           for_loop 0 (setCols pis) (spacingInSubsetX pis) (\<lambda>l.
             push_at addrs
               (extractIteratorAdvancement ap i j k l (arrayCols pis) (setCols pis)))))) []"

definition shapeAddressList :: "addressList \<Rightarrow> pointerInfoStruct \<Rightarrow> addressList res" where
  "shapeAddressList addrs pis =
     (let ap = apmType (pointerAccessPattern pis) in
      if ap = rowMajor \<or> ap = colMajor then
        (if initZerosM (pointerAccessPattern pis) = 2 then shape_triangular addrs pis
         else shape_plain addrs ap pis)
      else if ap = colMajorSet1RowMajor \<or> ap = rowMajorSet1ColMajor then
        shape_sets addrs ap pis
      else if ap = rowMajorSet2ColMajor \<or> ap = rowMajorSet2RowMajor
            \<or> ap = colMajorSet2RowMajor \<or> ap = colMajorSet2ColMajor then
        shape_sets addrs ap pis
      else Inr [])"

text \<open>
  \<open>expandAddressList\<close>: the product of the first \<open>nInitZeroCols\<close> iteration counts, read from the
  front, is the number of times the list is repeated; the product of the last
  \<open>nFinalZeroCols\<close>, read from the back, the number of times each element is.
\<close>

definition repeat_list :: "int list \<Rightarrow> int \<Rightarrow> int res" where
  "repeat_list its n =
     for_loop 0 n 1 (\<lambda>i r. ebind (list_at its i) (\<lambda>x. Inr (r * x))) 1"

definition repeat_element :: "int list \<Rightarrow> int \<Rightarrow> int res" where
  "repeat_element its n =
     for_loop 0 n 1 (\<lambda>i r. ebind (list_at its (int (length its) - 1 - i)) (\<lambda>x. Inr (r * x))) 1"

definition expandAddressList :: "addressList \<Rightarrow> pointerInfoStruct \<Rightarrow> int list \<Rightarrow> addressList res" where
  "expandAddressList addrs pis loopIterations =
     (let nInitZeroCols = initZerosM (pointerAccessPattern pis);
          nFinalZeroCols = finalZerosM (pointerAccessPattern pis)
      in if nInitZeroCols \<noteq> 0 \<or> nFinalZeroCols \<noteq> 0 then
           ebind (repeat_list loopIterations nInitZeroCols) (\<lambda>nRepeatList.
           ebind (repeat_element loopIterations nFinalZeroCols) (\<lambda>nRepeatEachElement.
             Inr (concat (replicate (nat nRepeatList)
                    (concat (map (replicate (nat nRepeatEachElement)) addrs))))))
         else Inr addrs)"

text \<open>
  \<open>getSubset\<close>. The bound of its loop compares the \<open>int\<close> counter with the unsigned size, so a
  counter that has become negative ends the loop; with \<open>nSubsetElements = 0\<close> the counter does not
  move. \<open>pos\<close> is the position of the local iterator.
\<close>

function getSubset_loop ::
  "addressList \<Rightarrow> int \<Rightarrow> int \<Rightarrow> int \<Rightarrow> int \<Rightarrow> int \<Rightarrow> int \<Rightarrow> addressList res" where
  "getSubset_loop addrs subsetNumber n skip j cur pos =
     (if 0 \<le> j \<and> j < int (length addrs) then
        if cur = subsetNumber \<and> 0 < n then
          (if 0 \<le> pos \<and> pos + n \<le> int (length addrs)
           then Inr (take (nat n) (drop (nat pos) addrs))
           else Inl (UB ''list iterator dereferenced outside the list''))
        else if n = 0 then Inl (LoopForever ''getSubset with an empty subset'')
        else if n < 0 then Inr []
        else getSubset_loop addrs subsetNumber n skip (j + n) subsetNumber
               (pos + (if subsetNumber = 1 then 1 else skip))
      else Inr [])"
  by pat_completeness auto
termination
  by (relation "measure (\<lambda>(addrs, s, n, skip, j, cur, pos). nat (int (length addrs) - j))") auto

declare getSubset_loop.simps [simp del]

definition getSubset :: "addressList \<Rightarrow> int \<Rightarrow> int \<Rightarrow> int \<Rightarrow> addressList res" where
  "getSubset addrs subsetNumber nSubsetElements skipElements =
     getSubset_loop addrs subsetNumber nSubsetElements skipElements 0 0 0"

section \<open>Shaping\<close>

lemma for_values_counted:
  assumes "0 < inc"
  shows "for_values lo (lo + inc * (int n - 1) + 1) inc = map (\<lambda>k. lo + int k * inc) [0..<n]"
proof -
  have "(lo + inc * (int n - 1) + 1 - lo + inc - 1) div inc = int n"
    using assms by (simp add: algebra_simps)
  then show ?thesis by (simp add: for_values_def)
qed

definition row_index :: "arrayAccessPattern \<Rightarrow> int \<Rightarrow> int \<Rightarrow> int \<Rightarrow> int" where
  "row_index ap cols i j = (if ap = rowMajor then i * cols + j else j * cols + i)"

lemma shape_plain_collect:
  assumes "ap = rowMajor \<or> ap = colMajor" "0 < spacingX pis" "0 < spacingY pis"
    and range: "\<And>i j. i \<in> set (for_values (offsetY pis) (stopY pis + 1) (spacingY pis)) \<Longrightarrow>
      j \<in> set (for_values (offsetX pis) (stopX pis + 1) (spacingX pis)) \<Longrightarrow>
      0 \<le> row_index ap (arrayCols pis) i j \<and> row_index ap (arrayCols pis) i j < int (length addrs)"
  shows "shape_plain addrs ap pis = Inr (concat (map (\<lambda>i.
      map (\<lambda>j. addrs ! nat (row_index ap (arrayCols pis) i j))
        (for_values (offsetX pis) (stopX pis + 1) (spacingX pis)))
      (for_values (offsetY pis) (stopY pis + 1) (spacingY pis))))"
proof -
  let ?I = "for_values (offsetY pis) (stopY pis + 1) (spacingY pis)"
  let ?J = "for_values (offsetX pis) (stopX pis + 1) (spacingX pis)"
  have push: "push_at addrs (extractIteratorAdvancement ap i j 0 0 (arrayCols pis) 0) u =
      Inr (u @ [addrs ! nat (row_index ap (arrayCols pis) i j)])"
    if "i \<in> set ?I" "j \<in> set ?J" for i j u
    using range [OF that] assms(1)
    by (auto simp: push_at_def extractIteratorAdvancement_def row_index_def list_at_def)
  have inner: "for_loop (offsetX pis) (stopX pis + 1) (spacingX pis)
       (\<lambda>j. push_at addrs (extractIteratorAdvancement ap i j 0 0 (arrayCols pis) 0)) u =
     Inr (u @ map (\<lambda>j. addrs ! nat (row_index ap (arrayCols pis) i j)) ?J)"
    if "i \<in> set ?I" for i u
  proof -
    have "efold (\<lambda>j. push_at addrs (extractIteratorAdvancement ap i j 0 0 (arrayCols pis) 0)) ?J u =
       Inr (u @ concat (map (\<lambda>j. [addrs ! nat (row_index ap (arrayCols pis) i j)]) ?J))"
      by (rule efold_collect) (use push that in blast)
    then show ?thesis
      by (simp add: for_loop_def for_range_pos [OF assms(2)] concat_map_singleton)
  qed
  have "efold (\<lambda>i. for_loop (offsetX pis) (stopX pis + 1) (spacingX pis)
       (\<lambda>j. push_at addrs (extractIteratorAdvancement ap i j 0 0 (arrayCols pis) 0))) ?I [] =
     Inr ([] @ concat (map (\<lambda>i. map (\<lambda>j. addrs ! nat (row_index ap (arrayCols pis) i j)) ?J) ?I))"
    by (rule efold_collect) (use inner in blast)
  then show ?thesis
    by (simp add: shape_plain_def for_loop_def for_range_pos [OF assms(3)])
qed

text \<open>The geometry of a traversal of a whole array of \<open>r\<close> rows and \<open>c\<close> columns.\<close>

definition full_traversal :: "arrayAccessPattern \<Rightarrow> nat \<Rightarrow> nat \<Rightarrow> pointerInfoStruct \<Rightarrow> bool" where
  "full_traversal ap r c pis \<longleftrightarrow>
     apmType (pointerAccessPattern pis) = ap \<and> initZerosM (pointerAccessPattern pis) \<noteq> 2 \<and>
     arrayCols pis = int c \<and> offsetX pis = 0 \<and> offsetY pis = 0 \<and>
     spacingX pis = 1 \<and> spacingY pis = 1 \<and> stopX pis = int c - 1 \<and> stopY pis = int r - 1"

lemma index_bound: "i < r \<Longrightarrow> j < c \<Longrightarrow> i * c + j < r * (c::nat)"
proof -
  assume "i < r" "j < c"
  then have "(i + 1) * c \<le> r * c" by (intro mult_le_mono1) simp
  with \<open>j < c\<close> show ?thesis by (simp add: algebra_simps)
qed

lemma shape_full:
  assumes "full_traversal ap r c pis" "ap = rowMajor \<or> ap = colMajor \<and> r = c" "length addrs = r * c"
  shows "shapeAddressList addrs pis = Inr (concat (map (\<lambda>i.
      map (\<lambda>j. addrs ! (if ap = rowMajor then i * c + j else j * c + i)) [0..<c]) [0..<r]))"
proof -
  note geo = assms(1) [unfolded full_traversal_def]
  have vals: "for_values 0 (int n) 1 = map int [0..<n]" for n
    by (simp add: for_values_unit)
  have "shape_plain addrs ap pis = Inr (concat (map (\<lambda>i.
      map (\<lambda>j. addrs ! nat (row_index ap (arrayCols pis) i j))
        (for_values (offsetX pis) (stopX pis + 1) (spacingX pis)))
      (for_values (offsetY pis) (stopY pis + 1) (spacingY pis))))"
  proof (rule shape_plain_collect)
    fix i j
    assume "i \<in> set (for_values (offsetY pis) (stopY pis + 1) (spacingY pis))"
      and "j \<in> set (for_values (offsetX pis) (stopX pis + 1) (spacingX pis))"
    then obtain a b where ab: "i = int a" "j = int b" "a < r" "b < c"
      using geo by (auto simp: vals)
    have "a * c + b < length addrs" "ap = colMajor \<and> r = c \<Longrightarrow> b * c + a < length addrs"
      using ab assms(3) index_bound by auto
    then show "0 \<le> row_index ap (arrayCols pis) i j \<and> row_index ap (arrayCols pis) i j < int (length addrs)"
      using geo assms(2) ab by (auto simp: row_index_def simp flip: of_nat_mult of_nat_add)
  qed (use geo assms(2) in auto)
  moreover have "nat (row_index ap (int c) (int i) (int j)) =
      (if ap = rowMajor then i * c + j else j * c + i)" for i j
    by (auto simp: row_index_def simp flip: of_nat_mult of_nat_add)
  ultimately show ?thesis
    using geo assms(2) by (auto simp: shapeAddressList_def Let_def vals comp_def)
qed

lemma concat_rows: "length xs = r * c \<Longrightarrow>
  concat (map (\<lambda>i. map (\<lambda>j. xs ! (i * c + j)) [0..<c]) [0..<r]) = xs"
proof (induction r arbitrary: xs)
  case 0
  then show ?case by simp
next
  case (Suc r)
  have "concat (map (\<lambda>i. map (\<lambda>j. take (r * c) xs ! (i * c + j)) [0..<c]) [0..<r]) = take (r * c) xs"
    using Suc.prems by (intro Suc.IH) simp
  moreover have "map (\<lambda>j. take (r * c) xs ! (i * c + j)) [0..<c] = map (\<lambda>j. xs ! (i * c + j)) [0..<c]"
    if "i < r" for i
    using that index_bound by auto
  then have "map (\<lambda>i. map (\<lambda>j. take (r * c) xs ! (i * c + j)) [0..<c]) [0..<r] =
      map (\<lambda>i. map (\<lambda>j. xs ! (i * c + j)) [0..<c]) [0..<r]" by auto
  moreover have "map (\<lambda>j. xs ! (r * c + j)) [0..<c] = drop (r * c) xs"
    using Suc.prems by (intro nth_equalityI) (auto simp: algebra_simps)
  ultimately show ?case by simp
qed

text \<open>
  The row-major traversal of a whole array visits its rows in the order in which they were
  allocated, none left out and none twice.
\<close>

theorem shape_row_major_full:
  assumes "full_traversal rowMajor r c pis" "length addrs = r * c"
  shows "shapeAddressList addrs pis = Inr addrs"
  using shape_full [OF assms(1) _ assms(2)] concat_rows [OF assms(2)] by simp

lemma length_concat_rows: "(\<And>i. length (f i) = c) \<Longrightarrow> length (concat (map f [0..<r])) = r * c"
  by (induction r) simp_all

lemma nth_concat_rows:
  assumes "\<And>i. length (f i) = c" "i < r" "j < c"
  shows "concat (map f [0..<r]) ! (i * c + j) = f i ! j"
  using assms(2)
proof (induction r)
  case (Suc r)
  note len = length_concat_rows[of f c r, OF assms(1)]
  show ?case
  proof (cases "i < r")
    case True
    have "i * c + j < r * c" using index_bound[OF True assms(3)] .
    then show ?thesis using Suc.IH[OF True] len by (simp add: nth_append)
  next
    case False
    then have "i = r" using Suc.prems by simp
    then show ?thesis using len by (simp add: nth_append)
  qed
qed simp

text \<open>The index in the array of the element \<open>(i, j)\<close> of a traversal.\<close>

definition visited_index :: "pointerInfoStruct \<Rightarrow> nat \<Rightarrow> nat \<Rightarrow> int" where
  "visited_index pis i j =
     (let y = offsetY pis + spacingY pis * int i; x = offsetX pis + spacingX pis * int j
      in if apmType (pointerAccessPattern pis) = rowMajor then y * arrayCols pis + x else x * arrayCols pis + y)"


text \<open>
  C24: the row-major or column-major traversal of a part of an array, with any offsets and positive
  spacings, takes the rows of exactly the elements it names, in the order of the visit: the element at
  \<open>(offsetY + i * spacingY, offsetX + j * spacingX)\<close> is at place \<open>i * c + j\<close>, for the \<open>r\<close> rows and \<open>c\<close>
  columns up to the stops, which are included. All these elements have to be in the array, and the
  pattern must not begin with two zero columns, which makes the shape a triangle.
\<close>

theorem shape_submatrix:
  assumes "apmType (pointerAccessPattern pis) \<in> {rowMajor, colMajor}" "initZerosM (pointerAccessPattern pis) \<noteq> 2"
    and "0 < spacingX pis" "0 < spacingY pis"
    and "stopY pis = offsetY pis + spacingY pis * (int r - 1)" "stopX pis = offsetX pis + spacingX pis * (int c - 1)"
    and "\<forall>i < r. \<forall>j < c. 0 \<le> visited_index pis i j \<and> visited_index pis i j < int (length addrs)"
  shows "\<exists>l. shapeAddressList addrs pis = Inr l \<and> length l = r * c \<and>
    (\<forall>i < r. \<forall>j < c. l ! (i * c + j) = addrs ! nat (visited_index pis i j))"
proof -
  let ?ap = "apmType (pointerAccessPattern pis)"
  let ?row = "\<lambda>i. map (\<lambda>j. addrs ! nat (visited_index pis i j)) [0..<c]"
  note I = for_values_counted[OF assms(4), where lo = "offsetY pis" and n = r] and J = for_values_counted[OF assms(3), where lo = "offsetX pis" and n = c]
  have index: "row_index ?ap (arrayCols pis) (offsetY pis + int i * spacingY pis) (offsetX pis + int j * spacingX pis) =
      visited_index pis i j" for i j
    by (simp add: row_index_def visited_index_def Let_def mult.commute)
  have "shape_plain addrs ?ap pis = Inr (concat (map (\<lambda>i.
      map (\<lambda>j. addrs ! nat (row_index ?ap (arrayCols pis) i j))
        (for_values (offsetX pis) (stopX pis + 1) (spacingX pis)))
      (for_values (offsetY pis) (stopY pis + 1) (spacingY pis))))"
  proof (rule shape_plain_collect)
    fix i j
    assume "i \<in> set (for_values (offsetY pis) (stopY pis + 1) (spacingY pis))"
      and "j \<in> set (for_values (offsetX pis) (stopX pis + 1) (spacingX pis))"
    then have "\<exists>a < r. i = offsetY pis + int a * spacingY pis" "\<exists>b < c. j = offsetX pis + int b * spacingX pis"
      unfolding assms(5,6) I J by auto
    then show "0 \<le> row_index ?ap (arrayCols pis) i j \<and> row_index ?ap (arrayCols pis) i j < int (length addrs)"
      using assms(7) index by auto
  qed (use assms(1,3,4) in auto)
  then have "shapeAddressList addrs pis = Inr (concat (map ?row [0..<r]))"
    using assms(1,2) unfolding assms(5,6) I J by (auto simp: shapeAddressList_def Let_def comp_def index)
  then show ?thesis using length_concat_rows[of ?row c r] nth_concat_rows[of ?row c _ r] by simp
qed

definition blank_idx :: indexInfoStruct where
  "blank_idx = \<lparr>iterators = [], idx_constant = 0, idx_operation = 0, operationConstant = 0\<rparr>"

definition sample_pis :: "arrayAccessPattern \<Rightarrow> int \<Rightarrow> int \<Rightarrow> int \<Rightarrow> int \<Rightarrow> pointerInfoStruct" where
  "sample_pis ap r c iz fz =
     \<lparr>loopIterator = 0, arrayRows = r, arrayCols = c, setRows = -1, setCols = -1,
      spacingInSubsetX = -1, spacingInSubsetY = -1, spacingX = 1, spacingY = 1,
      offsetX = 0, offsetY = 0, stopX = c - 1, stopY = r - 1,
      numberOfSubsets = 1, numberOfSubsetsElements = r * c,
      pointerAccessPattern = (sample_pattern 2 2 [1, 0, 0, 1])
        \<lparr>apmType := ap, initZerosM := iz, finalZerosM := fz\<rparr>,
      pointerAccessPatternConstant = sample_pattern 2 1 [0, 0],
      firstIdxInfo = blank_idx, secondIdxInfo = blank_idx\<rparr>"

lemma sample_pis_full: "full_traversal ap r c (sample_pis ap (int r) (int c) 0 0)"
  by (simp add: full_traversal_def sample_pis_def)

text \<open>Every other column of the last two rows of an array of three rows and four columns.\<close>

theorem shape_submatrix_witness:
  "\<exists>l. shapeAddressList [0, 1, 2, 3, 4, 5, 6, 7, 8, 9, 10, 11]
       ((sample_pis rowMajor 3 4 0 0)\<lparr>offsetY := 1, spacingX := 2, offsetX := 1, stopX := 3\<rparr>) = Inr l \<and>
     length l = 4 \<and> l ! 0 = 5 \<and> l ! 1 = 7 \<and> l ! 2 = 9 \<and> l ! 3 = 11"
proof -
  let ?pis = "(sample_pis rowMajor 3 4 0 0)\<lparr>offsetY := 1, spacingX := 2, offsetX := 1, stopX := 3\<rparr>"
  have small: "i < 2 \<longleftrightarrow> i = 0 \<or> i = 1" for i :: nat by auto
  have "\<exists>l. shapeAddressList [0, 1, 2, 3, 4, 5, 6, 7, 8, 9, 10, 11] ?pis = Inr l \<and> length l = 2 * 2 \<and>
      (\<forall>i < 2. \<forall>j < 2. l ! (i * 2 + j) = [0, 1, 2, 3, 4, 5, 6, 7, 8, 9, 10, 11] ! nat (visited_index ?pis i j))"
    by (rule shape_submatrix) (auto simp: sample_pis_def visited_index_def small)
  then obtain l where l: "shapeAddressList [0, 1, 2, 3, 4, 5, 6, 7, 8, 9, 10, 11] ?pis = Inr l" "length l = 4"
    "\<forall>i < 2. \<forall>j < 2. l ! (i * 2 + j) = [0, 1, 2, 3, 4, 5, 6, 7, 8, 9, 10, 11] ! nat (visited_index ?pis i j)" by auto
  have "l ! 0 = 5" "l ! 1 = 7" "l ! 2 = 9" "l ! 3 = 11"
    using l(3)[rule_format, of 0 0] l(3)[rule_format, of 0 1] l(3)[rule_format, of 1 0] l(3)[rule_format, of 1 1]
    by (simp_all add: visited_index_def sample_pis_def)
  then show ?thesis using l(1,2) by blast
qed

theorem shape_row_major_full_witness:
  "shapeAddressList [0, 4, 8, 12, 16, 20] (sample_pis rowMajor 2 3 0 0) = Inr [0, 4, 8, 12, 16, 20]"
  using shape_row_major_full [OF sample_pis_full [of rowMajor 2 3]] by simp


section \<open>Expansion\<close>

text \<open>
  The reference: the iteration vectors of a loop nest in the order of its execution, and the
  position of a vector among those of its loops.
\<close>

fun nest :: "nat list \<Rightarrow> nat list list" where
  "nest [] = [[]]"
| "nest (n # ns) = concat (map (\<lambda>i. map ((#) i) (nest ns)) [0..<n])"

fun rank :: "nat list \<Rightarrow> nat list \<Rightarrow> nat" where
  "rank [] v = 0"
| "rank (n # ns) [] = 0"
| "rank (n # ns) (i # v) = i * prod_list ns + rank ns v"

lemma nest_length_elem: "v \<in> set (nest ns) \<Longrightarrow> length v = length ns"
  by (induction ns arbitrary: v) auto

lemma length_nest: "length (nest ns) = prod_list ns"
proof (induction ns)
  case (Cons n ns)
  then show ?case by (induction n) (auto simp: algebra_simps)
qed simp

lemma concat_concat_map: "concat (concat xss) = concat (map concat xss)"
  by (induction xss) auto

lemma nest_append: "nest (xs @ ys) = concat (map (\<lambda>a. map ((@) a) (nest ys)) (nest xs))"
proof (induction xs)
  case (Cons n xs)
  have "(@) (i # a) = (\<lambda>v. i # a @ v)" for i :: nat and a by auto
  with Cons show ?case by (simp add: map_concat concat_concat_map comp_def)
qed (simp add: map_idI)

text \<open>Positions count up through the vectors of a nest.\<close>

lemma map_upt_blocks: "concat (map (\<lambda>i. map (\<lambda>k. i * m + k) [0..<m]) [0..<n]) = [0..<n * m]"
proof (induction n)
  case (Suc n)
  have "map (\<lambda>k. n * m + k) [0..<m] = [n * m..<n * m + m]"
    by (simp add: map_add_upt add.commute)
  with Suc show ?case
    using upt_add_eq_append [of 0 "n * m" m] by (simp add: add.commute)
qed simp

lemma map_rank_nest: "map (rank ns) (nest ns) = [0..<prod_list ns]"
proof (induction ns)
  case (Cons n ns)
  have "map (\<lambda>v. i * prod_list ns + rank ns v) (nest ns) =
      map (\<lambda>k. i * prod_list ns + k) [0..<prod_list ns]" for i
    unfolding Cons.IH [symmetric] by (simp add: comp_def)
  then show ?case
    by (simp add: map_concat comp_def map_upt_blocks)
qed simp

lemma map_by_rank: "length addrs = prod_list ns \<Longrightarrow> map (\<lambda>v. addrs ! rank ns v) (nest ns) = addrs"
proof -
  assume len: "length addrs = prod_list ns"
  have "map (\<lambda>v. addrs ! rank ns v) (nest ns) = map ((!) addrs) (map (rank ns) (nest ns))"
    by (simp add: comp_def)
  then show ?thesis by (simp only: map_rank_nest flip: len) (simp add: map_nth)
qed

lemma concat_map_replicate_1: "concat (map (replicate 1) xs) = xs"
  by (induction xs) auto

lemma repeat_list_prod:
  "efold (\<lambda>i r. ebind (list_at (map int (xs @ ys)) i) (\<lambda>x. Inr (r * x))) (map int [0..<length xs]) c =
   Inr (c * int (prod_list xs))"
proof (induction xs arbitrary: ys rule: rev_induct)
  case (snoc x xs)
  have "efold (\<lambda>i r. ebind (list_at (map int (xs @ x # ys)) i) (\<lambda>x. Inr (r * x))) (map int [0..<length xs]) c =
      Inr (c * int (prod_list xs))" by (rule snoc.IH)
  then show ?case by (simp add: list_at_def nth_append)
qed simp

lemma repeat_element_prod:
  "efold (\<lambda>i r. ebind (list_at (map int (xs @ ys)) (int (length (xs @ ys)) - 1 - i)) (\<lambda>x. Inr (r * x)))
     (map int [0..<length ys]) c = Inr (c * int (prod_list ys))"
proof (induction ys arbitrary: xs)
  case (Cons y ys)
  have "efold (\<lambda>i r. ebind (list_at (map int ((xs @ [y]) @ ys)) (int (length ((xs @ [y]) @ ys)) - 1 - i))
      (\<lambda>x. Inr (r * x))) (map int [0..<length ys]) c = Inr (c * int (prod_list ys))" by (rule Cons.IH)
  then show ?case by (simp add: list_at_def nth_append algebra_simps)
qed simp

text \<open>
  C16: let the index of an access be moved by the loops in the middle of a nest only (\<open>ini\<close>
  outer loops and \<open>fin\<close> inner loops have columns of zeros). Then \<open>expandAddressList\<close> turns the
  rows visited by the middle loops into the rows visited by the whole nest, iteration by
  iteration in the order of execution.
\<close>

theorem expandAddressList_nest:
  assumes "initZerosM (pointerAccessPattern pis) = int (length ini)"
    and "finalZerosM (pointerAccessPattern pis) = int (length fin)"
    and "length addrs = prod_list mid"
  shows "expandAddressList addrs pis (map int (ini @ mid @ fin)) =
    Inr (map (\<lambda>v. addrs ! rank mid (take (length mid) (drop (length ini) v))) (nest (ini @ mid @ fin)))"
proof -
  have pick: "take (length mid) (drop (length ini) (a @ m @ f)) = m"
    if "a \<in> set (nest ini)" "m \<in> set (nest mid)" for a m f
    using that nest_length_elem by fastforce
  have "map (\<lambda>v. addrs ! rank mid (take (length mid) (drop (length ini) v))) (nest (ini @ mid @ fin)) =
    concat (map (\<lambda>a. concat (map (\<lambda>m. map (\<lambda>f. addrs ! rank mid m) (nest fin)) (nest mid))) (nest ini))"
    using pick by (simp add: nest_append map_concat comp_def cong: map_cong)
  also have "\<dots> = concat (map (\<lambda>a. concat (map (replicate (prod_list fin))
      (map (\<lambda>m. addrs ! rank mid m) (nest mid)))) (nest ini))"
    by (simp add: map_replicate_const length_nest comp_def)
  also have "\<dots> = concat (replicate (prod_list ini) (concat (map (replicate (prod_list fin)) addrs)))"
    by (simp only: map_by_rank [OF assms(3)] map_replicate_const length_nest)
  finally have visit: "map (\<lambda>v. addrs ! rank mid (take (length mid) (drop (length ini) v)))
      (nest (ini @ mid @ fin)) =
    concat (replicate (prod_list ini) (concat (map (replicate (prod_list fin)) addrs)))" .
  have "repeat_list (map int (ini @ mid @ fin)) (int (length ini)) = Inr (int (prod_list ini))"
    using repeat_list_prod [of ini "mid @ fin" 1] by (simp add: repeat_list_def for_loop_upt)
  moreover have "repeat_element (map int (ini @ mid @ fin)) (int (length fin)) = Inr (int (prod_list fin))"
    using repeat_element_prod [of "ini @ mid" fin 1] by (simp add: repeat_element_def for_loop_upt)
  ultimately show ?thesis
    using assms(1,2) unfolding visit
    using concat_map_replicate_1 [of addrs] by (auto simp: expandAddressList_def Let_def)
qed

theorem expandAddressList_nest_witness:
  "expandAddressList [100, 104] (sample_pis rowMajor 1 2 1 1) [2, 2, 2] =
     Inr [100, 100, 104, 104, 100, 100, 104, 104]"
proof -
  have "expandAddressList [100, 104] (sample_pis rowMajor 1 2 1 1) (map int ([2] @ [2] @ [2])) =
    Inr (map (\<lambda>v. [100, 104] ! rank [2] (take (length [2::nat]) (drop (length [2::nat]) v)))
      (nest ([2] @ [2] @ [2])))"
    by (rule expandAddressList_nest) (simp_all add: sample_pis_def)
  then show ?thesis by (simp add: upt_rec)
qed

section \<open>Subsets\<close>

lemma getSubset_loop_later:
  assumes "0 < j" "0 < n" "j < int (length addrs)"
  shows "getSubset_loop addrs s n skip j s pos =
    (if 0 \<le> pos \<and> pos + n \<le> int (length addrs) then Inr (take (nat n) (drop (nat pos) addrs))
     else Inl (UB ''list iterator dereferenced outside the list''))"
  using assms by (subst getSubset_loop.simps) auto

text \<open>
  What \<open>getSubset\<close> returns for a non-empty list, on every branch. Subset 0 is the front of
  the list; any other subset starts one element (subset 1) or \<open>skipElements\<close> elements behind the
  front, whatever its number, and is empty as soon as the subset is at least as long as the list;
  elements outside the list are undefined behaviour, a subset of no elements never returns.
\<close>

theorem getSubset_cases:
  assumes "addrs \<noteq> []"
  shows "getSubset addrs s n skip =
    (let pos = (if s = 0 then 0 else if s = 1 then 1 else skip) in
     if n = 0 then Inl (LoopForever ''getSubset with an empty subset'')
     else if n < 0 \<or> s \<noteq> 0 \<and> int (length addrs) \<le> n then Inr []
     else if 0 \<le> pos \<and> pos + n \<le> int (length addrs) then Inr (take (nat n) (drop (nat pos) addrs))
     else Inl (UB ''list iterator dereferenced outside the list''))"
proof -
  have stop: "getSubset_loop addrs s n skip j cur pos = Inr []" if "int (length addrs) \<le> j" for j cur pos
    using that by (subst getSubset_loop.simps) auto
  have later: "getSubset_loop addrs s n skip n s pos =
      (if int (length addrs) \<le> n then Inr []
       else if 0 \<le> pos \<and> pos + n \<le> int (length addrs) then Inr (take (nat n) (drop (nat pos) addrs))
       else Inl (UB ''list iterator dereferenced outside the list''))" if "0 < n" for pos
    using stop getSubset_loop_later [of n n addrs s skip pos] that by auto
  show ?thesis
    using assms later
    by (subst getSubset_def, subst getSubset_loop.simps) (auto simp: Let_def)
qed

theorem getSubset_cases_witness:
  "getSubset [10, 14, 18, 22] 2 2 1 = Inr [14, 18]"
  by (simp add: getSubset_cases)

end
