(* ===== verification/LLVM_IR.thy ===== *)
theory LLVM_IR
  imports Octantis_Prelude
begin

text \<open>
  What the program looks at in the LLVM instructions it is given. A value is known by its address,
  which the program casts to \<open>int *\<close> and uses as a name; a \<open>ConstantInt\<close> also has its
  sign-extended value; the constants are those of C's \<open>int\<close> (\<open>i32\<close>), whose values fit the \<open>int\<close> members in
  which the program stores what \<open>getSExtValue\<close> answers. An instruction has its own address (the name of its result), the address of
  its basic block, its kind and its operands. Of a type only the nesting of array types is looked at,
  of a comparison the predicate; a branch and a \<open>getelementptr\<close> have the list of their operands.
\<close>

record llvmValue =
  v_addr :: ptr
  v_const :: "int option"

datatype opcode = OpAdd | OpSub | OpMul | OpSDiv | OpShl | OpLShr | OpAShr | OpAnd | OpOr | OpXor | OpOther

datatype llvmType = ArrayType int llvmType | OtherType

datatype predicate = ICMP_SLT | ICMP_SLE | ICMP_SGT | ICMP_SGE | ICMP_OTHER

datatype llvmKind =
    AllocaInst llvmType
  | LoadInst llvmValue
  | StoreInst llvmValue llvmValue
  | BinaryOperator opcode llvmValue llvmValue
  | ReturnInst
  | GetElementPtrInst "llvmValue list"
  | SwitchInst
  | BranchInst "llvmValue list"
  | ICmpInst predicate llvmValue llvmValue
  | SExtInst llvmValue
  | OtherInst

record llvmInst =
  i_addr :: ptr
  i_parent :: ptr
  i_kind :: llvmKind

text \<open>
  A basic block has its address, its instructions and what \<open>getSinglePredecessor\<close> answers. A loop is
  what \<open>LoopInfo\<close> tells of it: its blocks, its depth and the loop around it, each by its address, or
  \<open>nullptr\<close> where there is none.
\<close>

record basicBlock =
  bb_addr :: ptr
  bb_insts :: "llvmInst list"
  bb_single_pred :: ptr

record llvmLoop =
  l_addr :: ptr
  l_preheader :: ptr
  l_header :: ptr
  l_latch :: ptr
  l_depth :: int
  l_parent :: ptr

abbreviation register :: "ptr \<Rightarrow> llvmValue" where
  "register p \<equiv> \<lparr>v_addr = p, v_const = None\<rparr>"

definition is_const :: "llvmValue \<Rightarrow> bool" where
  "is_const v \<longleftrightarrow> v_const v \<noteq> None"

end
