(* ===== verification/Collect_Info.thy ===== *)
theory Collect_Info
  imports Loop_Info Address_List LLVM_IR
begin

text \<open>
  \<open>Analysis/CollectInfo\<close>, the state: what the analysis of a function leaves behind for the
  dependency detection and the binder, and the queries on it. Basic blocks, loops and
  instructions are their addresses.
\<close>

record collectInfo =
  PIT :: pointerInfoTable
  LIT :: loopInfoTable
  iteratorsAliasMap :: "(ptr, ptr) smap"
  aliasInfoMap :: "(ptr, ptr list) smap"
  initValuesMap :: "(ptr, int) smap"
  validBBs :: "ptr list"
  arraysInfoMap :: "(ptr, int list) smap"
  loopIteratorMap :: "(ptr, ptr) smap"
  loopPreheaderList :: "ptr list"
  loopHeaderList :: "ptr list"
  loopLatchList :: "ptr list"
  loopBodyList :: "ptr list"
  combinedIteratorsMap :: "(ptr, indexInfoStruct) smap"
  combinedIterators :: "ptr list"

definition isLoopBody :: "collectInfo \<Rightarrow> ptr \<Rightarrow> bool" where
  "isLoopBody ci BB \<longleftrightarrow> BB \<in> set (loopBodyList ci)"

text \<open>
  The instructions that are kept for the scheduler: not the accesses to iterators, nor the
  combinations of iterators, nor address computations and branches.
\<close>

definition isValidInst :: "collectInfo \<Rightarrow> llvmInst \<Rightarrow> bool" where
  "isValidInst ci I \<longleftrightarrow> \<not> (case i_kind I of
       StoreInst _ op1 \<Rightarrow> sm_find (iteratorsAliasMap ci) (v_addr op1) \<noteq> None
     | LoadInst op0 \<Rightarrow> sm_find (iteratorsAliasMap ci) (v_addr op0) \<noteq> None
     | SExtInst _ \<Rightarrow> True
     | GetElementPtrInst _ \<Rightarrow> True
     | BinaryOperator oc _ _ \<Rightarrow> (oc = OpAdd \<or> oc = OpSub) \<and> i_addr I \<in> set (combinedIterators ci)
     | BranchInst _ \<Rightarrow> True
     | _ \<Rightarrow> False)"

definition isArray :: "collectInfo \<Rightarrow> ptr \<Rightarrow> bool" where
  "isArray ci operand \<longleftrightarrow> sm_find (arraysInfoMap ci) operand \<noteq> None"

fun getAllocatedReg_scan :: "(ptr, ptr list) smap \<Rightarrow> ptr \<Rightarrow> ptr" where
  "getAllocatedReg_scan [] op = nullptr"
| "getAllocatedReg_scan ((reg, aliases) # m) op =
     (if op = reg then reg
      else if op \<in> set aliases then reg
      else getAllocatedReg_scan m op)"

definition getAllocatedReg :: "collectInfo \<Rightarrow> ptr \<Rightarrow> ptr" where
  "getAllocatedReg ci op = getAllocatedReg_scan (aliasInfoMap ci) op"

definition getArraySize :: "collectInfo \<Rightarrow> ptr \<Rightarrow> int res" where
  "getArraySize ci reg =
     (case sm_find (arraysInfoMap ci) reg of
        None \<Rightarrow> Inr 1
      | Some l \<Rightarrow> ebind (list_front l) (\<lambda>rows. ebind (list_back l) (\<lambda>cols. Inr (rows * cols))))"

definition getArrayCols :: "collectInfo \<Rightarrow> ptr \<Rightarrow> int res" where
  "getArrayCols ci reg = (case sm_find (arraysInfoMap ci) reg of None \<Rightarrow> Inr 0 | Some l \<Rightarrow> list_back l)"

definition getArrayRows :: "collectInfo \<Rightarrow> ptr \<Rightarrow> int res" where
  "getArrayRows ci reg = (case sm_find (arraysInfoMap ci) reg of None \<Rightarrow> Inr 0 | Some l \<Rightarrow> list_front l)"

text \<open>The size of an array is the product of its dimensions.\<close>

lemma getArraySize_dims:
  "sm_find (arraysInfoMap ci) reg = Some [rows, cols] \<Longrightarrow>
   getArraySize ci reg = Inr (rows * cols) \<and> getArrayRows ci reg = Inr rows \<and> getArrayCols ci reg = Inr cols"
  by (simp add: getArraySize_def getArrayRows_def getArrayCols_def list_front_def list_back_def)

lemma getAllocatedReg_scan_mem:
  "getAllocatedReg_scan m op = r \<Longrightarrow> r \<noteq> nullptr \<Longrightarrow>
   \<exists>aliases. (r, aliases) \<in> set m \<and> (op = r \<or> op \<in> set aliases)"
  by (induction m op rule: getAllocatedReg_scan.induct) (auto split: if_splits)

end
