(* ===== verification/LiM_Binder.thy ===== *)
theory LiM_Binder
  imports ASAP LiM_Array FSM Std_String Collect_Info
begin

text \<open>
  \<open>Binding/LiMBinder\<close>, the state of the binder, its name handling, and \<open>performBinding\<close>, which
  maps one operation on two rows to the memory array.

  The members that the constructor sets from the instruction at hand (\<open>operation\<close>,
  \<open>specifications\<close>, \<open>destReg\<close>, \<open>srcReg1\<close>, \<open>ti\<close>, ...) are the field \<open>b_instr\<close>, with \<open>destReg\<close> as
  its \<open>destinationReg\<close>. The member \<open>constant\<close> is never assigned in the code: the field
  \<open>b_constant\<close> is the value it happens to have. The flags that are only reset
  (\<open>isSrc1Constant\<close>, ...) and the output in debug mode are left out.
\<close>

section \<open>State\<close>

record lim_binder =
  b_par :: int
  b_optTarget :: string
  b_InfoCollection :: collectInfo
  b_IM :: instructionTable
  b_zeroAddr :: ptr
  b_arrayNamesMap :: "(ptr, ptr list) smap"
  b_src1 :: ptr
  b_src2 :: ptr
  b_dest :: ptr
  b_addMap :: "(ptr, ptr list) smap"
  b_lastDestMap :: "(ptr, ptr) smap"
  b_addrListSrc1 :: addressList
  b_addrListSrc2 :: addressList
  b_srcReg1PointerInfo :: pointerInfoStruct
  b_srcReg2PointerInfo :: pointerInfoStruct
  b_instr :: instructionData
  b_constant :: int
  b_MemArray :: limArray
  b_FSMLim :: fsm

abbreviation b_operation :: "lim_binder \<Rightarrow> string" where "b_operation b \<equiv> operation (b_instr b)"
abbreviation b_specifications :: "lim_binder \<Rightarrow> string list" where "b_specifications b \<equiv> specifications (b_instr b)"
abbreviation b_destReg :: "lim_binder \<Rightarrow> ptr" where "b_destReg b \<equiv> destinationReg (b_instr b)"

section \<open>Names\<close>

definition getNewName :: "lim_binder \<Rightarrow> ptr \<times> lim_binder" where
  "getNewName b = (b_zeroAddr b, b\<lparr>b_zeroAddr := ptr_incr (b_zeroAddr b)\<rparr>)"

definition adjustName :: "lim_binder \<Rightarrow> lim_binder" where
  "adjustName b = b\<lparr>b_zeroAddr := ptr_decr (b_zeroAddr b)\<rparr>"

definition addNewItem :: "ptr \<Rightarrow> ptr \<Rightarrow> lim_binder \<Rightarrow> lim_binder" where
  "addNewItem origSrc genName b =
     b\<lparr>b_arrayNamesMap :=
        (if sm_find (b_arrayNamesMap b) origSrc = None
         then sm_insert origSrc [genName] (b_arrayNamesMap b)
         else sm_modify origSrc (\<lambda>l. l @ [genName]) (b_arrayNamesMap b))\<rparr>"

text \<open>\<open>insert\<close> before the first occurrence of \<open>dest\<close> (at the end when there is none).\<close>

definition insert_before :: "'a \<Rightarrow> 'a \<Rightarrow> 'a list \<Rightarrow> 'a list" where
  "insert_before x y l = takeWhile (\<lambda>z. z \<noteq> x) l @ [y] @ dropWhile (\<lambda>z. z \<noteq> x) l"

definition addNewItemInRefPos :: "ptr \<Rightarrow> ptr \<Rightarrow> lim_binder \<Rightarrow> lim_binder" where
  "addNewItemInRefPos origSrc genName b =
     b\<lparr>b_arrayNamesMap :=
        sm_modify origSrc (\<lambda>l. removeAll (b_dest b) (insert_before (b_dest b) genName l)) (b_arrayNamesMap b)\<rparr>"

definition findInANM :: "lim_binder \<Rightarrow> ptr \<Rightarrow> ptr list res" where
  "findInANM b srcReg =
     or_fail (Unreachable ''Error in LiMCompiler: looking for a name not present inside the arrayNamesMap.'')
       (sm_find (b_arrayNamesMap b) srcReg)"

fun searchForResult :: "(ptr, ptr list) smap \<Rightarrow> ptr \<Rightarrow> ptr \<Rightarrow> ptr res" where
  "searchForResult [] srcRow1 srcRow2 = Inr nullptr"
| "searchForResult ((res, ops) # m) srcRow1 srcRow2 =
     ebind (list_front ops) (\<lambda>f. ebind (list_back ops) (\<lambda>l.
       if (f = srcRow1 \<or> l = srcRow1) \<and> (f = srcRow2 \<or> l = srcRow2) then Inr res
       else searchForResult m srcRow1 srcRow2))"

section \<open>\<open>performBinding\<close>\<close>

text \<open>\<open>isLiMRowOfThisType(row, operation) && findRow(row)->second.inputConnections.size() < 3\<close>\<close>

definition has_free_input :: "limArray \<Rightarrow> ptr \<Rightarrow> string \<Rightarrow> bool res" where
  "has_free_input m row op =
     ebind (isLiMRowOfThisType m row op) (\<lambda>b.
       if b then ebind (findRow m row) (\<lambda>r. Inr (length (inputConnections r) < 3)) else Inr False)"

definition later_time :: "fsm \<Rightarrow> ptr \<Rightarrow> ptr \<Rightarrow> int res" where
  "later_time f row1 row2 =
     ebind (fsm_getTime f row1) (\<lambda>t1. ebind (fsm_getTime f row2) (\<lambda>t2.
       Inr (if t1 > t2 then t1 + 1 else t2 + 1)))"

text \<open>
  How the result row gets its input: through a memory row turned into a LiM row, through a LiM
  row of the operation that gets another input and a multiplexer, or through a new copy row that
  is active at the given time.
\<close>

datatype binding = Plain ptr | Mux ptr | Copy ptr int

fun binding_row :: "binding \<Rightarrow> ptr" where
  "binding_row (Plain p) = p"
| "binding_row (Mux p) = p"
| "binding_row (Copy p t) = p"

definition connect_operand :: "(ptr \<Rightarrow> binding) \<Rightarrow> ptr \<Rightarrow> ptr \<Rightarrow> lim_binder \<Rightarrow> (binding \<times> lim_binder) res" where
  "connect_operand k row src b =
     ebind (addNewInputConnection row src ''OC'' (b_MemArray b)) (\<lambda>m. Inr (k row, b\<lparr>b_MemArray := m\<rparr>))"

definition bind_copy_row :: "lim_binder \<Rightarrow> (binding \<times> lim_binder) res" where
  "bind_copy_row b0 =
     (case getNewName b0 of (copyRow, b) \<Rightarrow>
      let m = addNewLiMRow copyRow (b_operation b) (b_specifications b) (b_par b) (b_src1 b) ''OC'' (b_MemArray b) in
      ebind (addNewInputConnection copyRow (b_src2 b) ''OC'' m) (\<lambda>m.
      ebind (later_time (b_FSMLim b) (b_src1 b) (b_src2 b)) (\<lambda>tCopy.
        Inr (Copy copyRow tCopy,
             b\<lparr>b_MemArray := m, b_FSMLim := addNewInstruction tCopy copyRow (b_FSMLim b)\<rparr>))))"

definition bind_operands :: "lim_binder \<Rightarrow> (binding \<times> lim_binder) res" where
  "bind_operands b =
     ebind (changeLiMRowType (b_src2 b) (b_operation b) (b_specifications b) (b_MemArray b)) (\<lambda>(ok2, m).
     if ok2 then connect_operand Plain (b_src2 b) (b_src1 b) (b\<lparr>b_MemArray := m\<rparr>) else
     ebind (changeLiMRowType (b_src1 b) (b_operation b) (b_specifications b) (b_MemArray b)) (\<lambda>(ok1, m).
     if ok1 then connect_operand Plain (b_src1 b) (b_src2 b) (b\<lparr>b_MemArray := m\<rparr>) else
     ebind (has_free_input (b_MemArray b) (b_src2 b) (b_operation b)) (\<lambda>free2.
     if free2 then connect_operand Mux (b_src2 b) (b_src1 b) b else
     ebind (has_free_input (b_MemArray b) (b_src1 b) (b_operation b)) (\<lambda>free1.
     if free1 then connect_operand Mux (b_src1 b) (b_src2 b) b
     else bind_copy_row b))))"

definition remember_dest :: "lim_binder \<Rightarrow> lim_binder" where
  "remember_dest b =
     b\<lparr>b_lastDestMap := sm_insert (b_src2 b) (b_dest b) (sm_insert (b_src1 b) (b_dest b) (b_lastDestMap b))\<rparr>"

definition add_result :: "binding \<Rightarrow> lim_binder \<Rightarrow> lim_binder res" where
  "add_result r b =
     (let b = b\<lparr>b_MemArray := addNewResultRow (b_dest b) (b_par b) (binding_row r) ''OLiM'' (b_MemArray b)\<rparr> in
      case r of
        Plain row \<Rightarrow>
          ebind (later_time (b_FSMLim b) (b_src1 b) (b_src2 b)) (\<lambda>t.
            Inr (remember_dest (b\<lparr>b_FSMLim := addNewInstruction t (b_dest b) (b_FSMLim b)\<rparr>)))
      | Mux row \<Rightarrow>
          ebind (later_time (b_FSMLim b) (b_src1 b) (b_src2 b)) (\<lambda>t.
            Inr (remember_dest (b\<lparr>b_FSMLim :=
              insertSelectionSignal [t - 1, t] row (addNewInstruction (t + 1) (b_dest b) (b_FSMLim b))\<rparr>)))
      | Copy row tCopy \<Rightarrow>
          Inr (remember_dest (b\<lparr>b_FSMLim := addNewInstruction (tCopy + 1) (b_dest b) (b_FSMLim b)\<rparr>)))"

text \<open>The shifts. \<open>floor(log2(constant))\<close> of a value that is not positive has no \<open>int\<close> value.\<close>

fun floor_log2 :: "nat \<Rightarrow> nat" where
  "floor_log2 n = (if n \<le> 1 then 0 else Suc (floor_log2 (n div 2)))"

declare floor_log2.simps [simp del]

definition is_shift :: "string \<Rightarrow> bool" where
  "is_shift op \<longleftrightarrow> op = ''shl'' \<or> op = ''shr'' \<or> op = ''ashr''"

definition shift_times :: "int \<Rightarrow> int \<Rightarrow> ptr \<Rightarrow> ptr \<Rightarrow> fsm \<Rightarrow> fsm" where
  "shift_times tSrc1 realConstant shifted result f =
     fold (\<lambda>i f. if i = tSrc1 + realConstant + 1 then addNewInstruction i result f
                 else addNewInstruction i shifted f)
       [tSrc1 + 1..tSrc1 + realConstant + 1] f"

definition bind_shift :: "lim_binder \<Rightarrow> lim_binder res" where
  "bind_shift b =
     ebind (isLiMRowOfThisType (b_MemArray b) (b_src1 b) ''load'') (\<lambda>isLoad.
     if isLoad then
       ebind (changeLiMRowType (b_src1 b) (b_operation b) [to_string (b_constant b)] (b_MemArray b)) (\<lambda>(_, m).
       let m = addNewResultRow (b_dest b) (b_par b) (b_src1 b) ''OC'' m in
       if b_constant b \<le> 0 then Inl (UB ''floor(log2(constant)) has no int value'')
       else
         ebind (fsm_getTime (b_FSMLim b) (b_src1 b)) (\<lambda>tSrc1.
           Inr (b\<lparr>b_MemArray := m,
                  b_FSMLim := shift_times tSrc1 (int (floor_log2 (nat (b_constant b)))) (b_src1 b) (b_dest b) (b_FSMLim b)\<rparr>)))
     else
       (case getNewName b of (row, b) \<Rightarrow>
        ebind (addNewInputConnection row (b_src2 b) ''OC''
            (addNewLiMRow row (b_operation b) (b_specifications b) (b_par b) (b_src1 b) ''OC'' (b_MemArray b))) (\<lambda>m.
          Inl (UB ''performBinding reads tCopy uninitialised''))))"

text \<open>The row that both operands already have as destination.\<close>

definition common_dest :: "lim_binder \<Rightarrow> ptr option" where
  "common_dest b =
     (case (sm_find (b_lastDestMap b) (b_src1 b), sm_find (b_lastDestMap b) (b_src2 b)) of
        (Some d1, Some d2) \<Rightarrow> if d1 = d2 then Some d1 else None
      | _ \<Rightarrow> None)"

definition reuse_dest :: "ptr \<Rightarrow> lim_binder \<Rightarrow> lim_binder res" where
  "reuse_dest d b =
     ebind (findRow (b_MemArray b) d) (\<lambda>row.
     ebind (list_front (inputConnections row)) (\<lambda>effInDest.
     ebind (findRow (b_MemArray b) effInDest) (\<lambda>eff.
       if rowType eff = b_operation b then Inr (adjustName (addNewItemInRefPos (b_destReg b) d b))
       else Inr b)))"

definition performBinding :: "lim_binder \<Rightarrow> lim_binder res" where
  "performBinding b =
     (case common_dest b of
        Some d \<Rightarrow> reuse_dest d b
      | None \<Rightarrow>
          if \<not> is_shift (b_operation b)
          then ebind (bind_operands b) (\<lambda>(r, b). add_result r b)
          else bind_shift b)"

end
