(* ===== verification/Binding_Invariant.thy ===== *)
theory Binding_Invariant
  imports LiM_Binder
begin

text \<open>
  The invariant of the binder and what \<open>performBinding\<close> does under it: it never fails on rows
  that exist, the row it leaves for the destination stores the output of a LiM row of the
  operation that is fed by both operands, and a result is written after its operands.
\<close>

section \<open>Connections\<close>

text \<open>Every input connection of a row is the marker or a row of the array.\<close>

definition connected :: "limArray \<Rightarrow> bool" where
  "connected m \<longleftrightarrow> (\<forall>p row. sm_find m p = Some row \<longrightarrow>
     set (inputConnections row) \<subseteq> {no_input} \<union> dom (sm_find m))"

lemma connectedD: "connected m \<Longrightarrow> sm_find m p = Some row \<Longrightarrow> q \<in> set (inputConnections row) \<Longrightarrow>
    q = no_input \<or> q \<in> dom (sm_find m)"
  by (auto simp: connected_def)

lemma connected_insert:
  assumes "sm_inv m" "connected m" "set (inputConnections row) \<subseteq> {no_input, p} \<union> dom (sm_find m)"
  shows "connected (sm_insert p row m)"
  unfolding connected_def
proof (intro allI impI)
  fix q r assume q: "sm_find (sm_insert p row m) q = Some r"
  have "set (inputConnections r) \<subseteq> {no_input, p} \<union> dom (sm_find m)"
    using q assms by (auto simp: sm_find_insert split: if_splits dest: connectedD)
  then show "set (inputConnections r) \<subseteq> {no_input} \<union> dom (sm_find (sm_insert p row m))"
    using sm.dom_insert[OF assms(1), of p row] by auto
qed

lemma connected_modify:
  assumes "sm_inv m" "connected m"
    and "\<And>row. sm_find m p = Some row \<Longrightarrow>
      set (inputConnections (f row)) \<subseteq> {no_input} \<union> dom (sm_find m)"
  shows "connected (sm_modify p f m)"
  unfolding connected_def sm.dom_modify[OF assms(1)]
  using assms by (auto simp: sm_find_modify connected_def split: if_splits)

text \<open>A row is connected, or has its type changed.\<close>

lemma connect_row:
  assumes "array_inv m" "connected m" "sm_find m p = Some row" "src \<in> dom (sm_find m)"
  shows "\<exists>m' row'. addNewInputConnection p src con m = Inr m' \<and> array_inv m' \<and> array_extends m m' \<and>
    dom (sm_find m') = dom (sm_find m) \<and> connected m' \<and>
    sm_find m' p = Some row' \<and> rowType row' = rowType row \<and> src \<in> set (inputConnections row')"
proof -
  have "\<exists>m'. addNewInputConnection p src con m = Inr m'"
    using assms(3) by (auto simp: addNewInputConnection_def findRow_def)
  then obtain m' where m': "addNewInputConnection p src con m = Inr m'" ..
  have "connected m' \<and> (\<exists>row'. sm_find m' p = Some row' \<and> rowType row' = rowType row \<and>
      src \<in> set (inputConnections row'))"
  proof (cases "length (inputConnections row) = 1 \<or> src \<notin> set (inputConnections row)")
    case True
    then have m'_eq: "m' = sm_modify p (\<lambda>row. row\<lparr>inputConnections := inputConnections row @ [src],
               inputConnectionsType := inputConnectionsType row @ [con]\<rparr>) m"
      using m' assms(3) by (auto simp: addNewInputConnection_def findRow_def)
    show ?thesis
      unfolding m'_eq
      using assms by (auto intro!: connected_modify simp: sm_find_modify dest: connectedD)
  next
    case False
    then have "m' = m" using m' assms(3) by (auto simp: addNewInputConnection_def findRow_def)
    then show ?thesis using False assms(2,3) by auto
  qed
  then show ?thesis using m' addNewInputConnection_ok[OF assms(1) m'] by blast
qed

lemma change_row:
  assumes "array_inv m" "connected m" "p \<in> dom (sm_find m)"
  shows "\<exists>ok m'. changeLiMRowType p ty l m = Inr (ok, m') \<and> array_inv m' \<and> array_extends m m' \<and>
    dom (sm_find m') = dom (sm_find m) \<and> connected m' \<and>
    (if ok then \<exists>row. sm_find m' p = Some row \<and> rowType row = ty else m' = m)"
proof -
  obtain row where row: "sm_find m p = Some row" using assms(3) by auto
  then have "\<exists>r. changeLiMRowType p ty l m = Inr r"
    by (auto simp: changeLiMRowType_def findRow_def)
  then obtain ok m' where m': "changeLiMRowType p ty l m = Inr (ok, m')" by auto
  have "connected m' \<and> (if ok then \<exists>row. sm_find m' p = Some row \<and> rowType row = ty else m' = m)"
  proof (cases ok)
    case True
    then have m'_eq: "m' = sm_modify p (\<lambda>row. row\<lparr>rowType := ty,
         additionalLogic := (if l \<noteq> [] then l else additionalLogic row)\<rparr>) m"
      using m' row by (auto simp: changeLiMRowType_def findRow_def split: if_splits)
    show ?thesis
      unfolding m'_eq
      using assms row True by (auto intro!: connected_modify simp: sm_find_modify dest: connectedD)
  next
    case False
    then have "m' = m" using m' row by (auto simp: changeLiMRowType_def findRow_def split: if_splits)
    then show ?thesis using assms(2) False by simp
  qed
  then show ?thesis using m' changeLiMRowType_ok[OF assms(1) m'] by blast
qed

lemma array_extendsD:
  "array_extends m m' \<Longrightarrow> sm_find m p = Some row \<Longrightarrow> sm_find m' p = Some row' \<Longrightarrow> row_extends row row'"
  by (force simp: array_extends_def)

section \<open>What a row computes\<close>

text \<open>
  Row \<open>p\<close> is a LiM row of the operation that is fed by both operands: by its own word for one of
  them, through its inputs otherwise.
\<close>

definition computes :: "limArray \<Rightarrow> string \<Rightarrow> ptr \<Rightarrow> ptr \<Rightarrow> ptr \<Rightarrow> bool" where
  "computes m op s1 s2 p \<longleftrightarrow> (\<exists>row. sm_find m p = Some row \<and> rowType row = op \<and>
     (p = s1 \<and> s2 \<in> set (inputConnections row) \<or> p = s2 \<and> s1 \<in> set (inputConnections row) \<or>
      s1 \<in> set (inputConnections row) \<and> s2 \<in> set (inputConnections row)))"

text \<open>Row \<open>d\<close> stores (in its memory input) what such a row puts out.\<close>

definition stores_result :: "limArray \<Rightarrow> string \<Rightarrow> ptr \<Rightarrow> ptr \<Rightarrow> ptr \<Rightarrow> bool" where
  "stores_result m op s1 s2 d \<longleftrightarrow> (\<exists>row eff rest. sm_find m d = Some row \<and>
     inputConnections row = eff # rest \<and> computes m op s1 s2 eff)"

lemma computes_sym: "computes m op s1 s2 p = computes m op s2 s1 p"
  by (auto simp: computes_def)

lemma stores_result_sym: "stores_result m op s1 s2 d = stores_result m op s2 s1 d"
  by (simp add: stores_result_def computes_sym[of m op s1 s2])

lemma computes_extends:
  assumes "array_extends m m'" "op \<noteq> ''load''" "computes m op s1 s2 p"
  shows "computes m' op s1 s2 p"
proof -
  obtain row where row: "sm_find m p = Some row" "rowType row = op"
    "p = s1 \<and> s2 \<in> set (inputConnections row) \<or> p = s2 \<and> s1 \<in> set (inputConnections row) \<or>
      s1 \<in> set (inputConnections row) \<and> s2 \<in> set (inputConnections row)"
    using assms(3) by (auto simp: computes_def)
  obtain row' where row': "sm_find m' p = Some row'" "row_extends row row'"
    using assms(1) row(1) by (auto simp: array_extends_def)
  have "set (inputConnections row) \<subseteq> set (inputConnections row')"
    using row'(2) by (auto simp: row_extends_def dest: set_mono_prefix)
  then show ?thesis
    using row row' assms(2) by (auto simp: computes_def row_extends_def)
qed

lemma stores_result_extends:
  assumes "array_extends m m'" "op \<noteq> ''load''" "stores_result m op s1 s2 d"
  shows "stores_result m' op s1 s2 d"
proof -
  obtain row eff rest where row: "sm_find m d = Some row" "inputConnections row = eff # rest"
    "computes m op s1 s2 eff"
    using assms(3) by (auto simp: stores_result_def)
  obtain row' where "sm_find m' d = Some row'" "row_extends row row'"
    using assms(1) row(1) by (auto simp: array_extends_def)
  then show ?thesis
    using row computes_extends[OF assms(1,2) row(3)]
    by (auto simp: stores_result_def row_extends_def prefix_def)
qed

lemma stores_result_dom: "stores_result m op s1 s2 d \<Longrightarrow> d \<in> dom (sm_find m)"
  by (auto simp: stores_result_def)

section \<open>The invariant\<close>

text \<open>
  The table of last destinations: the row remembered for an operand stores the result of an
  operation of which all the operands that remember it are operands.
\<close>

definition last_dest_ok :: "lim_binder \<Rightarrow> bool" where
  "last_dest_ok b \<longleftrightarrow> sm_inv (b_lastDestMap b) \<and>
     (\<forall>d \<in> ran (sm_find (b_lastDestMap b)). \<exists>op s1 s2. op \<noteq> ''load'' \<and>
        stores_result (b_MemArray b) op s1 s2 d \<and>
        {s. sm_find (b_lastDestMap b) s = Some d} \<subseteq> {s1, s2})"

definition store_ok :: "ptr \<Rightarrow> limArray \<Rightarrow> fsm \<Rightarrow> bool" where
  "store_ok limit m f \<longleftrightarrow> 0 \<le> limit \<and> 4 dvd limit \<and> array_inv m \<and> connected m \<and>
     fsm_inv f \<and> FSM f = [] \<and> dom (sm_find (FSM2 f)) = dom (sm_find m) \<and> rows.names_below limit m"

definition binder_inv :: "lim_binder \<Rightarrow> bool" where
  "binder_inv b \<longleftrightarrow> store_ok (b_zeroAddr b) (b_MemArray b) (b_FSMLim b) \<and> last_dest_ok b \<and>
     sm_inv (b_arrayNamesMap b) \<and> sm_inv (b_addMap b)"

text \<open>A state in which \<open>dest\<close> is a name that no row has yet, and both operands are rows.\<close>

definition ready :: "lim_binder \<Rightarrow> bool" where
  "ready b \<longleftrightarrow> binder_inv b \<and> row_name (b_zeroAddr b) (b_dest b) \<and>
     rows.names_below (b_dest b) (b_MemArray b) \<and> b_operation b \<noteq> ''load'' \<and>
     b_src1 b \<in> dom (sm_find (b_MemArray b)) \<and> b_src2 b \<in> dom (sm_find (b_MemArray b))"

text \<open>The store of rows and times after some steps: nothing that was there is lost.\<close>

definition store_grows :: "limArray \<Rightarrow> fsm \<Rightarrow> limArray \<Rightarrow> fsm \<Rightarrow> bool" where
  "store_grows m f m' f' \<longleftrightarrow> array_extends m m' \<and>
     (\<forall>p t. sm_find (FSM2 f) p = Some t \<longrightarrow> sm_find (FSM2 f') p = Some t)"

lemma store_grows_trans:
  "store_grows m f m' f' \<Longrightarrow> store_grows m' f' m'' f'' \<Longrightarrow> store_grows m f m'' f''"
  by (auto simp: store_grows_def intro: array_extends_trans)

lemma store_ok_mono: "store_ok limit m f \<Longrightarrow> limit \<le> limit' \<Longrightarrow> 4 dvd limit' \<Longrightarrow> store_ok limit' m f"
  by (auto simp: store_ok_def intro: rows.names_below_mono)

lemma store_ok_fsm: "store_ok limit m f \<Longrightarrow> fsm_inv f" "store_ok limit m f \<Longrightarrow> array_inv m"
  by (simp_all add: store_ok_def)

text \<open>Adding a row under a fresh name, with its time.\<close>

lemma store_ok_add:
  assumes "store_ok limit m f" "row_name limit' p" "limit \<le> limit'" "4 dvd limit'" "p \<notin> dom (sm_find m)"
    and "row_wf row" "set (inputConnections row) \<subseteq> {no_input, p} \<union> dom (sm_find m)"
  shows "store_ok limit' (sm_insert p row m) (addNewInstruction t p f) \<and>
    store_grows m f (sm_insert p row m) (addNewInstruction t p f) \<and>
    sm_find (sm_insert p row m) p = Some row \<and> sm_find (FSM2 (addNewInstruction t p f)) p = Some t"
proof -
  have inv: "sm_inv m" "array_inv m" "connected m" "fsm_inv f" "sm_inv (FSM2 f)" "0 \<le> limit"
    and dom: "dom (sm_find (FSM2 f)) = dom (sm_find m)"
    using assms(1) by (auto simp: store_ok_def fsm_inv_def)
  have time: "sm_find (FSM2 f) p = None" using dom assms(5) by auto
  have "rows.names_below limit' (sm_insert p row m)"
    using assms(1-3) inv(1) by (intro rows.names_below_add) (auto simp: store_ok_def)
  moreover have "FSM (addNewInstruction t p f) = []"
    using assms(1) by (simp add: store_ok_def addNewInstruction_def)
  moreover have "dom (sm_find (FSM2 (addNewInstruction t p f))) = dom (sm_find (sm_insert p row m))"
    using times.names_add[OF inv(4), of t p] sm.dom_insert[OF inv(1), of p row] dom by simp
  ultimately have "store_ok limit' (sm_insert p row m) (addNewInstruction t p f)"
    using inv assms connected_insert[OF inv(1,3) assms(7)] array_inv_insert[OF inv(2) assms(6)]
    by (auto simp: store_ok_def)
  moreover have "store_grows m f (sm_insert p row m) (addNewInstruction t p f)"
    using inv array_extends_insert[OF inv(1)] by (simp add: store_grows_def addNewInstruction_def sm_find_insert)
  moreover have "sm_find (sm_insert p row m) p = Some row" "sm_find (FSM2 (addNewInstruction t p f)) p = Some t"
    using inv assms(5) time by (auto simp: sm_find_insert addNewInstruction_def)
  ultimately show ?thesis by blast
qed

lemma store_ok_same_dom:
  assumes "store_ok limit m f" "array_inv m'" "connected m'" "dom (sm_find m') = dom (sm_find m)"
  shows "store_ok limit m' f"
  using assms by (auto simp: store_ok_def rows.names_below_def dom_def set_eq_iff)

lemma later_time_Inr:
  assumes "s1 \<in> dom (sm_find (FSM2 f))" "s2 \<in> dom (sm_find (FSM2 f))"
  shows "\<exists>t1 t2. sm_find (FSM2 f) s1 = Some t1 \<and> sm_find (FSM2 f) s2 = Some t2 \<and>
    later_time f s1 s2 = Inr (max t1 t2 + 1)"
  using assms by (auto simp: later_time_def fsm_getTime_def)

section \<open>The operands\<close>

lemma mem_dom_iff: "(p \<in> dom (sm_find m)) = (\<exists>x. sm_find m p = Some x)"
  by auto

definition context_kept :: "lim_binder \<Rightarrow> lim_binder \<Rightarrow> bool" where
  "context_kept b b' \<longleftrightarrow> (\<exists>z m f. b' = b\<lparr>b_zeroAddr := z, b_MemArray := m, b_FSMLim := f\<rparr>)"

lemma context_keptI:
  "b' = b\<lparr>b_MemArray := m\<rparr> \<Longrightarrow> context_kept b b'"
  "b' = b\<lparr>b_zeroAddr := z, b_MemArray := m, b_FSMLim := f\<rparr> \<Longrightarrow> context_kept b b'"
proof -
  show "b' = b\<lparr>b_MemArray := m\<rparr> \<Longrightarrow> context_kept b b'"
    unfolding context_kept_def
    by (intro exI[of _ "b_zeroAddr b"] exI[of _ m] exI[of _ "b_FSMLim b"]) simp
qed (auto simp: context_kept_def)

lemma context_kept_fields:
  assumes "context_kept b b'"
  shows "b_instr b' = b_instr b" "b_par b' = b_par b" "b_src1 b' = b_src1 b" "b_src2 b' = b_src2 b"
    "b_dest b' = b_dest b" "b_lastDestMap b' = b_lastDestMap b" "b_addMap b' = b_addMap b"
    "b_arrayNamesMap b' = b_arrayNamesMap b" "b_addrListSrc1 b' = b_addrListSrc1 b"
    "b_addrListSrc2 b' = b_addrListSrc2 b" "b_IM b' = b_IM b" "b_InfoCollection b' = b_InfoCollection b"
  using assms by (auto simp: context_kept_def)

definition remembers :: "lim_binder \<Rightarrow> lim_binder \<Rightarrow> bool" where
  "remembers b b' \<longleftrightarrow> b_addrListSrc1 b' = b_addrListSrc1 b \<and> b_addrListSrc2 b' = b_addrListSrc2 b \<and>
     b_IM b' = b_IM b \<and> b_InfoCollection b' = b_InfoCollection b \<and>
     b_lastDestMap b' = sm_insert (b_src2 b) (b_dest b) (sm_insert (b_src1 b) (b_dest b) (b_lastDestMap b))"

definition copy_time_ok :: "fsm \<Rightarrow> ptr \<Rightarrow> ptr \<Rightarrow> binding \<Rightarrow> bool" where
  "copy_time_ok f s1 s2 r = (case r of Copy p t \<Rightarrow> later_time f s1 s2 = Inr t | _ \<Rightarrow> True)"

definition operands_bound :: "lim_binder \<Rightarrow> binding \<Rightarrow> lim_binder \<Rightarrow> bool" where
  "operands_bound b r b' \<longleftrightarrow> context_kept b b' \<and>
     store_ok (b_zeroAddr b') (b_MemArray b') (b_FSMLim b') \<and>
     store_grows (b_MemArray b) (b_FSMLim b) (b_MemArray b') (b_FSMLim b') \<and>
     b_zeroAddr b \<le> b_zeroAddr b' \<and> b_dest b \<notin> dom (sm_find (b_MemArray b')) \<and>
     binding_row r \<in> dom (sm_find (b_MemArray b')) \<and>
     computes (b_MemArray b') (b_operation b) (b_src1 b) (b_src2 b) (binding_row r) \<and>
     copy_time_ok (b_FSMLim b) (b_src1 b) (b_src2 b) r"

lemma readyD:
  assumes "ready b"
  shows "store_ok (b_zeroAddr b) (b_MemArray b) (b_FSMLim b)" "array_inv (b_MemArray b)"
    "connected (b_MemArray b)" "b_dest b \<notin> dom (sm_find (b_MemArray b))"
    "dom (sm_find (FSM2 (b_FSMLim b))) = dom (sm_find (b_MemArray b))"
    "b_src1 b \<in> dom (sm_find (b_MemArray b))" "b_src2 b \<in> dom (sm_find (b_MemArray b))"
  using assms rows.fresh[of "b_dest b" "b_MemArray b"]
  by (auto simp: ready_def binder_inv_def store_ok_def)

text \<open>An operand's row of the operation gets the other operand as an input.\<close>

lemma connect_operand_bound:
  assumes "ready b" "context_kept b b1" "b_zeroAddr b1 = b_zeroAddr b" "b_FSMLim b1 = b_FSMLim b"
    and "array_inv (b_MemArray b1)" "connected (b_MemArray b1)" "array_extends (b_MemArray b) (b_MemArray b1)"
    "dom (sm_find (b_MemArray b1)) = dom (sm_find (b_MemArray b))"
    and "\<exists>r. sm_find (b_MemArray b1) row = Some r \<and> rowType r = b_operation b"
    and "row = b_src2 b \<and> src = b_src1 b \<or> row = b_src1 b \<and> src = b_src2 b"
    and "k = Plain \<or> k = Mux"
  shows "\<exists>r b'. connect_operand k row src b1 = Inr (r, b') \<and> r = k row \<and> operands_bound b r b' \<and>
    b_zeroAddr b' = b_zeroAddr b \<and> b_FSMLim b' = b_FSMLim b"
proof -
  note r = readyD[OF assms(1)]
  obtain rw where rw: "sm_find (b_MemArray b1) row = Some rw" "rowType rw = b_operation b"
    using assms(9) by blast
  have src: "src \<in> dom (sm_find (b_MemArray b1))" using assms(8,10) r(6,7) by auto
  obtain m' rw' where m': "addNewInputConnection row src ''OC'' (b_MemArray b1) = Inr m'"
    "array_inv m'" "array_extends (b_MemArray b1) m'" "dom (sm_find m') = dom (sm_find (b_MemArray b1))"
    "connected m'" "sm_find m' row = Some rw'" "rowType rw' = rowType rw" "src \<in> set (inputConnections rw')"
    using connect_row[OF assms(5,6) rw(1) src] by blast
  let ?b = "b1\<lparr>b_MemArray := m'\<rparr>"
  have "computes m' (b_operation b) (b_src1 b) (b_src2 b) row"
    using m'(6-8) rw(2) assms(10) by (auto simp: computes_def)
  moreover have "context_kept b ?b"
  proof -
    obtain z m f where "b1 = b\<lparr>b_zeroAddr := z, b_MemArray := m, b_FSMLim := f\<rparr>"
      using assms(2) by (auto simp: context_kept_def)
    then have "?b = b\<lparr>b_zeroAddr := z, b_MemArray := m', b_FSMLim := f\<rparr>" by simp
    then show ?thesis by (auto simp: context_kept_def)
  qed
  moreover have "store_ok (b_zeroAddr b) m' (b_FSMLim b)"
    using store_ok_same_dom[OF r(1) m'(2,5)] m'(4) assms(8) by simp
  moreover have "store_grows (b_MemArray b) (b_FSMLim b) m' (b_FSMLim b)"
    using assms(7) m'(3) by (auto simp: store_grows_def intro: array_extends_trans)
  ultimately have "operands_bound b (k row) ?b"
    using assms(3,4,8,11) m'(4) r(4) rw(1)
    by (auto simp: operands_bound_def copy_time_ok_def)
  then show ?thesis using m'(1) assms(3,4) by (simp add: connect_operand_def)
qed

lemma copy_row_bound:
  assumes "ready b"
  shows "\<exists>r b'. bind_copy_row b = Inr (r, b') \<and> operands_bound b r b' \<and> (\<exists>t. r = Copy (b_zeroAddr b) t)"
proof -
  note r = readyD[OF assms]
  let ?z = "b_zeroAddr b" and ?m = "b_MemArray b" and ?f = "b_FSMLim b"
  have z: "0 \<le> ?z" "4 dvd ?z" "sm_inv ?m" and fresh: "?z \<notin> dom (sm_find ?m)"
    using r(1) rows.fresh[of ?z ?m] by (auto simp: store_ok_def)
  obtain t where t: "later_time ?f (b_src1 b) (b_src2 b) = Inr t"
    using later_time_Inr[of "b_src1 b" ?f "b_src2 b"] r(5-7) by auto
  let ?row = "\<lparr>rowType = b_operation b, rowLength = b_par b, inputConnections = [b_src1 b],
        inputConnectionsType = [''OC''], additionalLogic = b_specifications b\<rparr>"
  let ?m1 = "addNewLiMRow ?z (b_operation b) (b_specifications b) (b_par b) (b_src1 b) ''OC'' ?m"
  have m1: "?m1 = sm_insert ?z ?row ?m" by (simp add: addNewLiMRow_def)
  let ?f1 = "addNewInstruction t ?z ?f"
  have wf: "row_wf ?row" "set (inputConnections ?row) \<subseteq> {no_input, ?z} \<union> dom (sm_find ?m)"
    using r(6) by (simp_all add: row_wf_def)
  have name: "row_name (ptr_incr ?z) ?z" "?z \<le> ptr_incr ?z" "4 dvd ptr_incr ?z"
    using z row_name_new[of ?z] by (simp_all add: ptr_incr_def)
  have added: "store_ok (ptr_incr ?z) ?m1 ?f1" "store_grows ?m ?f ?m1 ?f1" "sm_find ?m1 ?z = Some ?row"
    using store_ok_add[OF r(1) name fresh wf, of t] unfolding m1 by blast+
  have dom1: "dom (sm_find ?m1) = insert ?z (dom (sm_find ?m))"
    using sm.dom_insert[OF z(3)] unfolding m1 by simp
  obtain m2 row2 where m2: "addNewInputConnection ?z (b_src2 b) ''OC'' ?m1 = Inr m2"
    "array_inv m2" "array_extends ?m1 m2" "dom (sm_find m2) = dom (sm_find ?m1)" "connected m2"
    "sm_find m2 ?z = Some row2" "rowType row2 = b_operation b" "b_src2 b \<in> set (inputConnections row2)"
    using connect_row[of ?m1 ?z ?row "b_src2 b" "''OC''"] added(1,3) dom1 r(7) by (auto simp: store_ok_def)
  have "b_src1 b \<in> set (inputConnections row2)"
    using array_extendsD[OF m2(3) added(3) m2(6)] by (auto simp: row_extends_def dest: set_mono_prefix)
  then have "computes m2 (b_operation b) (b_src1 b) (b_src2 b) ?z"
    using m2(6-8) by (auto simp: computes_def)
  moreover have "b_dest b \<noteq> ?z" using assms by (auto simp: ready_def row_name_def)
  moreover have "store_ok (ptr_incr ?z) m2 ?f1" using store_ok_same_dom[OF added(1) m2(2,5,4)] .
  moreover have "store_grows ?m ?f m2 ?f1"
    using added(2) m2(3) by (auto simp: store_grows_def intro: array_extends_trans)
  ultimately have "operands_bound b (Copy ?z t) (b\<lparr>b_zeroAddr := ptr_incr ?z, b_MemArray := m2, b_FSMLim := ?f1\<rparr>)"
    using name(2) r(4) m2(4) dom1 t context_keptI(2)[OF HOL.refl]
    by (simp add: operands_bound_def copy_time_ok_def)
  then show ?thesis using m2(1) t by (simp add: bind_copy_row_def getNewName_def Let_def)
qed

lemma has_free_input_Inr:
  assumes "p \<in> dom (sm_find m)"
  shows "\<exists>c. has_free_input m p op = Inr c \<and>
    (c = (\<exists>row. sm_find m p = Some row \<and> rowType row = op \<and> length (inputConnections row) < 3))"
  using assms by (auto simp: has_free_input_def isLiMRowOfThisType_def findRow_def)

lemma bind_operands_bound:
  assumes "ready b"
  shows "\<exists>r b'. bind_operands b = Inr (r, b') \<and> operands_bound b r b' \<and>
    (case r of Copy p t \<Rightarrow> True | _ \<Rightarrow> b_zeroAddr b' = b_zeroAddr b \<and> b_FSMLim b' = b_FSMLim b)"
proof -
  note r = readyD[OF assms]
  have self: "context_kept b b" by (rule context_keptI(1)[where m = "b_MemArray b"]) simp
  have refl: "array_extends (b_MemArray b) (b_MemArray b)" by simp
  obtain ok2 m2 where c2: "changeLiMRowType (b_src2 b) (b_operation b) (b_specifications b) (b_MemArray b) = Inr (ok2, m2)"
    "array_inv m2" "array_extends (b_MemArray b) m2" "dom (sm_find m2) = dom (sm_find (b_MemArray b))" "connected m2"
    "if ok2 then \<exists>row. sm_find m2 (b_src2 b) = Some row \<and> rowType row = b_operation b else m2 = b_MemArray b"
    using change_row[OF r(2,3,7)] by blast
  obtain ok1 m1 where c1: "changeLiMRowType (b_src1 b) (b_operation b) (b_specifications b) (b_MemArray b) = Inr (ok1, m1)"
    "array_inv m1" "array_extends (b_MemArray b) m1" "dom (sm_find m1) = dom (sm_find (b_MemArray b))" "connected m1"
    "if ok1 then \<exists>row. sm_find m1 (b_src1 b) = Some row \<and> rowType row = b_operation b else m1 = b_MemArray b"
    using change_row[OF r(2,3,6)] by blast
  obtain f2 where f2: "has_free_input (b_MemArray b) (b_src2 b) (b_operation b) = Inr f2"
    "f2 = (\<exists>row. sm_find (b_MemArray b) (b_src2 b) = Some row \<and> rowType row = b_operation b \<and> length (inputConnections row) < 3)"
    using has_free_input_Inr[OF r(7)] by blast
  obtain f1 where f1: "has_free_input (b_MemArray b) (b_src1 b) (b_operation b) = Inr f1"
    "f1 = (\<exists>row. sm_find (b_MemArray b) (b_src1 b) = Some row \<and> rowType row = b_operation b \<and> length (inputConnections row) < 3)"
    using has_free_input_Inr[OF r(6)] by blast
  consider "ok2" | "\<not> ok2" "ok1" | "\<not> ok2" "\<not> ok1" "f2" | "\<not> ok2" "\<not> ok1" "\<not> f2" "f1"
    | "\<not> ok2" "\<not> ok1" "\<not> f2" "\<not> f1" by blast
  then show ?thesis
  proof cases
    case 1
    have "\<exists>r b'. connect_operand Plain (b_src2 b) (b_src1 b) (b\<lparr>b_MemArray := m2\<rparr>) = Inr (r, b') \<and>
      r = Plain (b_src2 b) \<and> operands_bound b r b' \<and> b_zeroAddr b' = b_zeroAddr b \<and> b_FSMLim b' = b_FSMLim b"
      by (rule connect_operand_bound[OF assms context_keptI(1)[OF HOL.refl]]) (use 1 c2 in simp_all)
    then show ?thesis using 1 c2(1) by (auto simp: bind_operands_def)
  next
    case 2
    have "\<exists>r b'. connect_operand Plain (b_src1 b) (b_src2 b) (b\<lparr>b_MemArray := m1\<rparr>) = Inr (r, b') \<and>
      r = Plain (b_src1 b) \<and> operands_bound b r b' \<and> b_zeroAddr b' = b_zeroAddr b \<and> b_FSMLim b' = b_FSMLim b"
      by (rule connect_operand_bound[OF assms context_keptI(1)[OF HOL.refl]]) (use 2 c1 in simp_all)
    then show ?thesis using 2 c1(1) c2(1) by (auto simp: bind_operands_def)
  next
    case 3
    have "\<exists>r b'. connect_operand Mux (b_src2 b) (b_src1 b) b = Inr (r, b') \<and>
      r = Mux (b_src2 b) \<and> operands_bound b r b' \<and> b_zeroAddr b' = b_zeroAddr b \<and> b_FSMLim b' = b_FSMLim b"
      by (rule connect_operand_bound[OF assms self]) (use 3 f2 r refl in auto)
    then show ?thesis using 3 c1(1) c2(1) f2(1) by (auto simp: bind_operands_def)
  next
    case 4
    have "\<exists>r b'. connect_operand Mux (b_src1 b) (b_src2 b) b = Inr (r, b') \<and>
      r = Mux (b_src1 b) \<and> operands_bound b r b' \<and> b_zeroAddr b' = b_zeroAddr b \<and> b_FSMLim b' = b_FSMLim b"
      by (rule connect_operand_bound[OF assms self]) (use 4 f1 r refl in auto)
    then show ?thesis using 4 c1(1) c2(1) f1(1) f2(1) by (auto simp: bind_operands_def)
  next
    case 5
    then have "bind_operands b = bind_copy_row b"
      using c1(1) c2(1) f1(1) f2(1) by (simp add: bind_operands_def)
    then show ?thesis using copy_row_bound[OF assms] by fastforce
  qed
qed

section \<open>The result row\<close>

lemma store_ok_signal:
  "store_ok limit m f \<Longrightarrow> store_ok limit m (insertSelectionSignal ts p f)"
  by (simp add: store_ok_def insertSelectionSignal_def fsm_inv_def)

lemma store_grows_signal:
  "store_grows m f m' f' \<Longrightarrow> store_grows m f m' (insertSelectionSignal ts p f')"
  by (simp add: store_grows_def)

lemma last_dest_okE:
  assumes "last_dest_ok b" "sm_find (b_lastDestMap b) s = Some d"
  obtains op s1 s2 where "op \<noteq> ''load''" "stores_result (b_MemArray b) op s1 s2 d"
    "{s. sm_find (b_lastDestMap b) s = Some d} \<subseteq> {s1, s2}"
proof -
  have "d \<in> ran (sm_find (b_lastDestMap b))" using assms(2) by (rule ranI)
  then have "\<exists>op s1 s2. op \<noteq> ''load'' \<and> stores_result (b_MemArray b) op s1 s2 d \<and>
     {s. sm_find (b_lastDestMap b) s = Some d} \<subseteq> {s1, s2}"
    using assms(1) unfolding last_dest_ok_def by (elim conjE bspec)
  then show thesis by (elim exE conjE) (rule that)
qed

text \<open>Remembering a new result keeps the table of last destinations right.\<close>

lemma last_dest_remember:
  assumes "last_dest_ok b" "array_extends (b_MemArray b) (b_MemArray b')"
    "b_lastDestMap b' = sm_insert s2 d (sm_insert s1 d (b_lastDestMap b))"
    "stores_result (b_MemArray b') op s1 s2 d" "op \<noteq> ''load''" "d \<notin> dom (sm_find (b_MemArray b))"
  shows "last_dest_ok b'"
  unfolding last_dest_ok_def
proof (intro conjI ballI)
  let ?L = "b_lastDestMap b" and ?L' = "b_lastDestMap b'"
  have inv: "sm_inv ?L" using assms(1) by (simp add: last_dest_ok_def)
  then show "sm_inv ?L'" unfolding assms(3) by blast
  have find': "sm_find ?L' s = (if s \<in> {s1, s2} \<and> sm_find ?L s = None then Some d else sm_find ?L s)" for s
    using inv by (auto simp: assms(3) sm_find_insert)
  have new: "sm_find ?L s \<noteq> Some d" for s
  proof
    assume "sm_find ?L s = Some d"
    then obtain op' a c where "stores_result (b_MemArray b) op' a c d"
      by (rule last_dest_okE[OF assms(1)])
    then show False using stores_result_dom assms(6) by blast
  qed
  fix e assume e: "e \<in> ran (sm_find ?L')"
  show "\<exists>op s1 s2. op \<noteq> ''load'' \<and> stores_result (b_MemArray b') op s1 s2 e \<and>
      {s. sm_find ?L' s = Some e} \<subseteq> {s1, s2}"
  proof (cases "e = d")
    case True
    then have "{s. sm_find ?L' s = Some e} \<subseteq> {s1, s2}" using new by (auto simp: find' split: if_splits)
    then show ?thesis using assms(4,5) True by blast
  next
    case False
    then have same: "{s. sm_find ?L' s = Some e} = {s. sm_find ?L s = Some e}"
      by (auto simp: find' split: if_splits)
    obtain s where "sm_find ?L s = Some e" using e False by (auto simp: ran_def find' split: if_splits)
    then obtain op' a c where o: "op' \<noteq> ''load''" "stores_result (b_MemArray b) op' a c e"
      "{s. sm_find ?L s = Some e} \<subseteq> {a, c}"
      by (rule last_dest_okE[OF assms(1)])
    show ?thesis unfolding same
      by (intro exI[of _ op'] exI[of _ a] exI[of _ c] conjI o(1,3) stores_result_extends[OF assms(2) o(1,2)])
  qed
qed

definition result_delay :: "binding \<Rightarrow> int" where
  "result_delay r = (case r of Plain p \<Rightarrow> 1 | _ \<Rightarrow> 2)"

lemma add_result_ok:
  assumes "ready b" "operands_bound b r b1"
  shows "\<exists>b' t1 t2. add_result r b1 = Inr b' \<and> binder_inv b' \<and>
    store_grows (b_MemArray b) (b_FSMLim b) (b_MemArray b') (b_FSMLim b') \<and>
    b_zeroAddr b \<le> b_zeroAddr b' \<and> b_arrayNamesMap b' = b_arrayNamesMap b \<and> b_instr b' = b_instr b \<and> remembers b b' \<and>
    stores_result (b_MemArray b') (b_operation b) (b_src1 b) (b_src2 b) (b_dest b) \<and>
    sm_find (FSM2 (b_FSMLim b)) (b_src1 b) = Some t1 \<and> sm_find (FSM2 (b_FSMLim b)) (b_src2 b) = Some t2 \<and>
    sm_find (FSM2 (b_FSMLim b')) (b_dest b) = Some (max t1 t2 + result_delay r)"
proof -
  note r = readyD[OF assms(1)]
  note kept = context_kept_fields[of b b1]
  have ob: "context_kept b b1" "store_ok (b_zeroAddr b1) (b_MemArray b1) (b_FSMLim b1)"
    "store_grows (b_MemArray b) (b_FSMLim b) (b_MemArray b1) (b_FSMLim b1)"
    "b_zeroAddr b \<le> b_zeroAddr b1" "b_dest b \<notin> dom (sm_find (b_MemArray b1))"
    "binding_row r \<in> dom (sm_find (b_MemArray b1))"
    "computes (b_MemArray b1) (b_operation b) (b_src1 b) (b_src2 b) (binding_row r)"
    "copy_time_ok (b_FSMLim b) (b_src1 b) (b_src2 b) r"
    using assms(2) by (simp_all add: operands_bound_def)
  note kept = kept[OF ob(1)]
  have rd: "binder_inv b" "row_name (b_zeroAddr b) (b_dest b)" "b_operation b \<noteq> ''load''"
    using assms(1) by (simp_all add: ready_def)
  obtain t1 t2 where t: "sm_find (FSM2 (b_FSMLim b)) (b_src1 b) = Some t1"
    "sm_find (FSM2 (b_FSMLim b)) (b_src2 b) = Some t2"
    "later_time (b_FSMLim b) (b_src1 b) (b_src2 b) = Inr (max t1 t2 + 1)"
    using later_time_Inr[of "b_src1 b" "b_FSMLim b" "b_src2 b"] r(5-7) by auto
  have later1: "later_time (b_FSMLim b1) (b_src1 b) (b_src2 b) = Inr (max t1 t2 + 1)"
    using ob(3) t(1,2) by (auto simp: store_grows_def later_time_def fsm_getTime_def)
  let ?row = "\<lparr>rowType = ''load'', rowLength = b_par b, inputConnections = [binding_row r],
      inputConnectionsType = [''OLiM''], additionalLogic = []\<rparr>"
  let ?m = "addNewResultRow (b_dest b) (b_par b) (binding_row r) ''OLiM'' (b_MemArray b1)"
  let ?f = "addNewInstruction (max t1 t2 + result_delay r) (b_dest b) (b_FSMLim b1)"
  have m: "?m = sm_insert (b_dest b) ?row (b_MemArray b1)" by (simp add: addNewResultRow_def)
  have name: "row_name (b_zeroAddr b1) (b_dest b)" "4 dvd b_zeroAddr b1"
    using rd(2) ob(2,4) by (auto simp: store_ok_def intro: row_name_mono)
  have wf: "row_wf ?row" "set (inputConnections ?row) \<subseteq> {no_input, b_dest b} \<union> dom (sm_find (b_MemArray b1))"
    using ob(6) by (simp_all add: row_wf_def)
  have added: "store_ok (b_zeroAddr b1) ?m ?f" "store_grows (b_MemArray b1) (b_FSMLim b1) ?m ?f"
    "sm_find ?m (b_dest b) = Some ?row" "sm_find (FSM2 ?f) (b_dest b) = Some (max t1 t2 + result_delay r)"
    using store_ok_add[OF ob(2) name(1) order.refl name(2) ob(5) wf, of "max t1 t2 + result_delay r"]
    unfolding m by blast+
  have grows: "store_grows (b_MemArray b) (b_FSMLim b) ?m ?f" using store_grows_trans[OF ob(3) added(2)] .
  have stores: "stores_result ?m (b_operation b) (b_src1 b) (b_src2 b) (b_dest b)"
    using added(3) computes_extends[OF _ rd(3) ob(7), of ?m] added(2)
    by (auto simp: stores_result_def store_grows_def)
  have "\<exists>f. add_result r b1 = Inr (remember_dest (b1\<lparr>b_MemArray := ?m, b_FSMLim := f\<rparr>)) \<and>
      (f = ?f \<or> (\<exists>ts p. f = insertSelectionSignal ts p ?f))"
    using later1 ob(8) t(3)
    by (cases r) (auto simp: add_result_def Let_def kept result_delay_def copy_time_ok_def add.commute)
  then obtain f where f: "add_result r b1 = Inr (remember_dest (b1\<lparr>b_MemArray := ?m, b_FSMLim := f\<rparr>))"
    "f = ?f \<or> (\<exists>ts p. f = insertSelectionSignal ts p ?f)"
    by blast
  let ?b = "remember_dest (b1\<lparr>b_MemArray := ?m, b_FSMLim := f\<rparr>)"
  have fsm: "store_ok (b_zeroAddr b1) ?m f" "store_grows (b_MemArray b) (b_FSMLim b) ?m f"
    "FSM2 f = FSM2 ?f"
    using f(2) added(1) grows by (auto simp: store_ok_signal store_grows_signal)
  have "last_dest_ok ?b"
  proof (rule last_dest_remember)
    show "last_dest_ok b" using rd(1) by (simp add: binder_inv_def)
    show "stores_result (b_MemArray ?b) (b_operation b) (b_src1 b) (b_src2 b) (b_dest b)"
      using stores by (simp add: remember_dest_def)
  qed (use grows rd(3) r(4) in \<open>simp_all add: remember_dest_def kept store_grows_def\<close>)
  then have "binder_inv ?b"
    using fsm(1) rd(1) by (simp add: binder_inv_def remember_dest_def kept)
  then show ?thesis
    using f(1) fsm stores t(1,2) added(4) ob(4) by (simp add: remember_dest_def remembers_def kept)
qed

section \<open>\<open>performBinding\<close>\<close>

lemma performBinding_new_operands:
  assumes "ready b" "\<not> is_shift (b_operation b)" "common_dest b = None"
  shows "\<exists>b1 b' r t1 t2. bind_operands b = Inr (r, b1) \<and> performBinding b = Inr b' \<and> binder_inv b' \<and>
    store_grows (b_MemArray b) (b_FSMLim b) (b_MemArray b') (b_FSMLim b') \<and>
    b_zeroAddr b \<le> b_zeroAddr b' \<and> b_arrayNamesMap b' = b_arrayNamesMap b \<and> b_instr b' = b_instr b \<and> remembers b b' \<and>
    stores_result (b_MemArray b') (b_operation b) (b_src1 b) (b_src2 b) (b_dest b) \<and>
    sm_find (FSM2 (b_FSMLim b)) (b_src1 b) = Some t1 \<and> sm_find (FSM2 (b_FSMLim b)) (b_src2 b) = Some t2 \<and>
    sm_find (FSM2 (b_FSMLim b')) (b_dest b) = Some (max t1 t2 + result_delay r)"
proof -
  obtain r b1 where "bind_operands b = Inr (r, b1)" "operands_bound b r b1"
    using bind_operands_bound[OF assms(1)] by blast
  then show ?thesis
    using add_result_ok[OF assms(1), of r b1] assms(2,3) by (simp add: performBinding_def)
qed

lemma performBinding_new:
  assumes "ready b" "\<not> is_shift (b_operation b)" "common_dest b = None"
  shows "\<exists>b' r t1 t2. performBinding b = Inr b' \<and> binder_inv b' \<and>
    store_grows (b_MemArray b) (b_FSMLim b) (b_MemArray b') (b_FSMLim b') \<and>
    b_zeroAddr b \<le> b_zeroAddr b' \<and> b_arrayNamesMap b' = b_arrayNamesMap b \<and> b_instr b' = b_instr b \<and> remembers b b' \<and>
    stores_result (b_MemArray b') (b_operation b) (b_src1 b) (b_src2 b) (b_dest b) \<and>
    sm_find (FSM2 (b_FSMLim b)) (b_src1 b) = Some t1 \<and> sm_find (FSM2 (b_FSMLim b)) (b_src2 b) = Some t2 \<and>
    sm_find (FSM2 (b_FSMLim b')) (b_dest b) = Some (max t1 t2 + result_delay r)"
  using performBinding_new_operands[OF assms] by blast

text \<open>What a common destination of both operands stores.\<close>

lemma common_dest_storesE:
  assumes "binder_inv b" "common_dest b = Some d"
  obtains op s1 s2 row eff rest erow where "op \<noteq> ''load''" "stores_result (b_MemArray b) op s1 s2 d"
    "b_src1 b \<in> {s1, s2}" "b_src2 b \<in> {s1, s2}"
    "sm_find (b_MemArray b) d = Some row" "inputConnections row = eff # rest"
    "sm_find (b_MemArray b) eff = Some erow" "rowType erow = op"
proof -
  have d: "sm_find (b_lastDestMap b) (b_src1 b) = Some d" "sm_find (b_lastDestMap b) (b_src2 b) = Some d"
    using assms(2) by (auto simp: common_dest_def split: option.splits if_splits)
  have "last_dest_ok b" using assms(1) by (simp add: binder_inv_def)
  then obtain op s1 s2 where op: "op \<noteq> ''load''" "stores_result (b_MemArray b) op s1 s2 d"
    "{s. sm_find (b_lastDestMap b) s = Some d} \<subseteq> {s1, s2}"
    using d(1) by (rule last_dest_okE)
  have src: "b_src1 b \<in> {s1, s2}" "b_src2 b \<in> {s1, s2}"
    by (rule subsetD[OF op(3)], simp add: d)+
  obtain row eff rest erow where row: "sm_find (b_MemArray b) d = Some row" "inputConnections row = eff # rest"
    "sm_find (b_MemArray b) eff = Some erow" "rowType erow = op"
    using op(2) unfolding stores_result_def computes_def by (elim exE conjE) (rule that)
  show thesis by (rule that[OF op(1,2) src row])
qed

lemma performBinding_reuse:
  assumes "binder_inv b" "common_dest b = Some d"
  obtains op s1 s2 where "op \<noteq> ''load''" "stores_result (b_MemArray b) op s1 s2 d"
    "b_src1 b \<in> {s1, s2}" "b_src2 b \<in> {s1, s2}"
    "performBinding b = Inr (if op = b_operation b then adjustName (addNewItemInRefPos (b_destReg b) d b) else b)"
proof -
  obtain op s1 s2 row eff rest erow where c: "op \<noteq> ''load''" "stores_result (b_MemArray b) op s1 s2 d"
    "b_src1 b \<in> {s1, s2}" "b_src2 b \<in> {s1, s2}"
    "sm_find (b_MemArray b) d = Some row" "inputConnections row = eff # rest"
    "sm_find (b_MemArray b) eff = Some erow" "rowType erow = op"
    by (rule common_dest_storesE[OF assms])
  have "performBinding b = Inr (if op = b_operation b then adjustName (addNewItemInRefPos (b_destReg b) d b) else b)"
    using assms(2) c(5-8) by (simp add: performBinding_def reuse_dest_def findRow_def list_front_def)
  then show thesis by (rule that[OF c(1-4)])
qed

text \<open>The operation whose result a row stores: that of the row at the front of its inputs.\<close>

definition dest_operation :: "limArray \<Rightarrow> ptr \<Rightarrow> string option" where
  "dest_operation m d =
     (case sm_find m d of
        None \<Rightarrow> None
      | Some row \<Rightarrow> (case inputConnections row of [] \<Rightarrow> None | eff # _ \<Rightarrow> map_option rowType (sm_find m eff)))"

text \<open>A memory row that can become a LiM row.\<close>

definition free_memory_row :: "limArray \<Rightarrow> ptr \<Rightarrow> bool" where
  "free_memory_row m p \<longleftrightarrow>
     (case sm_find m p of
        None \<Rightarrow> False
      | Some row \<Rightarrow> rowType row = ''load'' \<and> ''input_line'' \<notin> set (additionalLogic row))"

lemma changeLiMRowType_free:
  "changeLiMRowType p op specs m = Inr (ok, m') \<Longrightarrow> ok = free_memory_row m p"
  by (auto simp: changeLiMRowType_def free_memory_row_def checkIfRowIsLiM_def findRow_def ebind_Inr_iff split: if_splits option.splits)

lemma connect_operand_binding: "connect_operand k row src b = Inr (r, b') \<Longrightarrow> r = k row"
  by (auto simp: connect_operand_def ebind_Inr_iff)

lemma bind_copy_row_binding: "bind_copy_row b = Inr (r, b') \<Longrightarrow> \<exists>p t. r = Copy p t"
  by (auto simp: bind_copy_row_def Let_def ebind_Inr_iff split: prod.splits)

lemma bind_operands_delay:
  assumes "bind_operands b = Inr (r, b')"
  shows "result_delay r =
    (if free_memory_row (b_MemArray b) (b_src2 b) \<or> free_memory_row (b_MemArray b) (b_src1 b) then 1 else 2)"
proof -
  obtain ok2 m2 where c2: "changeLiMRowType (b_src2 b) (b_operation b) (b_specifications b) (b_MemArray b) = Inr (ok2, m2)"
    using assms by (auto simp: bind_operands_def ebind_Inr_iff)
  note f2 = changeLiMRowType_free[OF c2]
  show ?thesis
  proof (cases ok2)
    case True
    then show ?thesis
      using assms f2 by (auto simp: bind_operands_def c2 result_delay_def dest!: connect_operand_binding)
  next
    case False
    obtain ok1 m1 where c1: "changeLiMRowType (b_src1 b) (b_operation b) (b_specifications b) (b_MemArray b) = Inr (ok1, m1)"
      using assms False by (auto simp: bind_operands_def c2 ebind_Inr_iff)
    note f1 = changeLiMRowType_free[OF c1]
    show ?thesis
      using assms False f1 f2
      by (auto simp: bind_operands_def c1 c2 ebind_Inr_iff result_delay_def
          dest!: connect_operand_binding bind_copy_row_binding split: if_splits)
  qed
qed

lemma row_name_decr: "row_name limit p \<Longrightarrow> 4 dvd limit \<Longrightarrow> p \<le> ptr_decr limit"
  by (auto simp: row_name_def ptr_decr_def elim!: dvdE)

text \<open>The state after a reuse: only names have changed, and the unused name is given back.\<close>

lemma binder_inv_reuse':
  assumes "binder_inv b" and dest: "row_name (b_zeroAddr b) (b_dest b)" "rows.names_below (b_dest b) (b_MemArray b)"
  shows "binder_inv (adjustName (addNewItemInRefPos k d b))"
proof -
  have ok: "store_ok (b_zeroAddr b) (b_MemArray b) (b_FSMLim b)"
    using assms by (simp add: binder_inv_def)
  have z: "b_dest b \<le> ptr_decr (b_zeroAddr b)" "4 dvd ptr_decr (b_zeroAddr b)" "0 \<le> ptr_decr (b_zeroAddr b)"
    using dest(1) ok row_name_decr[OF dest(1)] by (auto simp: row_name_def store_ok_def ptr_decr_def)
  then have "store_ok (ptr_decr (b_zeroAddr b)) (b_MemArray b) (b_FSMLim b)"
    using ok rows.names_below_mono[OF dest(2) z(1)] by (simp add: store_ok_def)
  then show ?thesis
    using assms by (auto simp: binder_inv_def adjustName_def addNewItemInRefPos_def last_dest_ok_def)
qed

lemma binder_inv_reuse: "ready b \<Longrightarrow> binder_inv (adjustName (addNewItemInRefPos k d b))"
  by (rule binder_inv_reuse') (simp_all add: ready_def)

lemma insert_before_last: "x \<notin> set l \<Longrightarrow> insert_before x y (l @ [x]) = l @ [y, x]"
  by (induction l) (auto simp: insert_before_def)

lemma ref_pos_last: "x \<notin> set l \<Longrightarrow> y \<noteq> x \<Longrightarrow> removeAll x (insert_before x y (l @ [x])) = l @ [y]"
  by (simp add: insert_before_last)

section \<open>Properties\<close>

text \<open>
  C9: in a state where both operands are rows and the name for the destination is fresh, the binding of an
  operation that is not a shift on two different rows never fails and keeps the invariant, and no row,
  time or connection is lost. The name it leaves at the end of the destination's list is that of a row that
  stores the output of a LiM row of the operation which is fed by both operands: a new row if the last
  destinations of the operands differ, and their common destination if it stores the result of this
  operation. (If it stores that of another operation, nothing is bound:
  \<open>performBinding_drops_other_operation\<close>.)
\<close>

theorem performBinding_correct:
  assumes "ready b" "\<not> is_shift (b_operation b)" "b_src1 b \<noteq> b_src2 b"
    and "sm_find (b_arrayNamesMap b) (b_destReg b) = Some (l @ [b_dest b])" "b_dest b \<notin> set l"
    and "\<forall>d. common_dest b = Some d \<longrightarrow> dest_operation (b_MemArray b) d = Some (b_operation b)"
  shows "\<exists>b' r. performBinding b = Inr b' \<and> binder_inv b' \<and>
    store_grows (b_MemArray b) (b_FSMLim b) (b_MemArray b') (b_FSMLim b') \<and>
    sm_find (b_arrayNamesMap b') (b_destReg b) = Some (l @ [r]) \<and>
    r = (case common_dest b of Some d \<Rightarrow> d | None \<Rightarrow> b_dest b) \<and>
    stores_result (b_MemArray b') (b_operation b) (b_src1 b) (b_src2 b) r"
proof (cases "common_dest b")
  case None
  then show ?thesis using performBinding_new[OF assms(1,2) None] assms(4) by fastforce
next
  case (Some d)
  have inv: "binder_inv b" using assms(1) by (simp add: ready_def)
  obtain op s1 s2 row eff rest erow where r: "op \<noteq> ''load''" "stores_result (b_MemArray b) op s1 s2 d"
    "b_src1 b \<in> {s1, s2}" "b_src2 b \<in> {s1, s2}" "sm_find (b_MemArray b) d = Some row" "inputConnections row = eff # rest"
    "sm_find (b_MemArray b) eff = Some erow" "rowType erow = op"
    by (rule common_dest_storesE[OF inv Some])
  let ?b = "adjustName (addNewItemInRefPos (b_destReg b) d b)"
  have op: "op = b_operation b" using r(5-8) assms(6) Some by (simp add: dest_operation_def)
  have "stores_result (b_MemArray b) (b_operation b) (b_src1 b) (b_src2 b) d"
    using r(2-4) assms(3) op stores_result_sym[of "b_MemArray b" op s1 s2 d] by auto
  moreover have "d \<noteq> b_dest b"
    using stores_result_dom[OF r(2)] readyD(4)[OF assms(1)] by auto
  then have "sm_find (b_arrayNamesMap ?b) (b_destReg b) = Some (l @ [d])"
    using assms(4,5) by (simp add: adjustName_def addNewItemInRefPos_def sm_find_modify ref_pos_last)
  moreover have "store_grows (b_MemArray b) (b_FSMLim b) (b_MemArray ?b) (b_FSMLim ?b)" "b_MemArray ?b = b_MemArray b"
    by (simp_all add: store_grows_def adjustName_def addNewItemInRefPos_def)
  moreover have "performBinding b = Inr ?b"
    using Some r(5-8) op by (simp add: performBinding_def reuse_dest_def findRow_def list_front_def)
  ultimately show ?thesis using binder_inv_reuse[OF assms(1)] Some by (intro exI[of _ ?b] exI[of _ d]) simp
qed

text \<open>
  C20: the time of a new result, for operations other than shifts on rows without a common last destination: it
  is written one step after the later one of its operands if one of them is a memory row that can become the LiM
  row, and two steps after it otherwise, when a multiplexer or a copy row is needed; the times of all other rows
  stay.
\<close>

theorem performBinding_time:
  assumes "ready b" "\<not> is_shift (b_operation b)" "common_dest b = None"
  shows "\<exists>b' t1 t2. performBinding b = Inr b' \<and>
    sm_find (FSM2 (b_FSMLim b)) (b_src1 b) = Some t1 \<and> sm_find (FSM2 (b_FSMLim b)) (b_src2 b) = Some t2 \<and>
    sm_find (FSM2 (b_FSMLim b')) (b_dest b) = Some (max t1 t2 +
      (if free_memory_row (b_MemArray b) (b_src2 b) \<or> free_memory_row (b_MemArray b) (b_src1 b) then 1 else 2)) \<and>
    (sm_find (FSM2 (b_FSMLim b)) \<subseteq>\<^sub>m sm_find (FSM2 (b_FSMLim b')))"
proof -
  obtain b1 b' r t1 t2 where b': "bind_operands b = Inr (r, b1)" "performBinding b = Inr b'"
    "store_grows (b_MemArray b) (b_FSMLim b) (b_MemArray b') (b_FSMLim b')"
    "sm_find (FSM2 (b_FSMLim b)) (b_src1 b) = Some t1" "sm_find (FSM2 (b_FSMLim b)) (b_src2 b) = Some t2"
    "sm_find (FSM2 (b_FSMLim b')) (b_dest b) = Some (max t1 t2 + result_delay r)"
    using performBinding_new_operands[OF assms] by metis
  moreover have "sm_find (FSM2 (b_FSMLim b)) \<subseteq>\<^sub>m sm_find (FSM2 (b_FSMLim b'))"
    using b'(3) by (auto simp: store_grows_def map_le_def)
  ultimately show ?thesis unfolding bind_operands_delay[OF b'(1)] by blast
qed

text \<open>
  C21: two rows that already have a common destination under one operation are not combined by any
  other operation: \<open>performBinding\<close> then changes nothing, and the destination's name stays without
  a row.
\<close>

theorem performBinding_drops_other_operation:
  assumes "ready b" "common_dest b = Some d"
    and "sm_find (b_MemArray b) d = Some row" "inputConnections row = eff # rest"
    and "sm_find (b_MemArray b) eff = Some erow" "rowType erow \<noteq> b_operation b"
  shows "performBinding b = Inr b \<and> sm_find (b_MemArray b) (b_dest b) = None"
proof
  show "performBinding b = Inr b"
    using assms(2-6) by (simp add: performBinding_def reuse_dest_def findRow_def list_front_def)
  show "sm_find (b_MemArray b) (b_dest b) = None" using readyD(4)[OF assms(1)] by auto
qed

text \<open>
  A state with two loaded rows, a name for the result, and an instruction on the two rows; and the
  state after the conjunction of the rows has been bound.
\<close>

definition blank_ci :: collectInfo where
  "blank_ci =
     \<lparr>PIT = [], LIT = empty_LIT, iteratorsAliasMap = [], aliasInfoMap = [], initValuesMap = [],
      validBBs = [], arraysInfoMap = [], loopIteratorMap = [], loopPreheaderList = [],
      loopHeaderList = [], loopLatchList = [], loopBodyList = [], combinedIteratorsMap = [],
      combinedIterators = []\<rparr>"

definition sample_b :: "string \<Rightarrow> ptr \<Rightarrow> ptr \<Rightarrow> lim_binder" where
  "sample_b op s1 s2 =
     \<lparr>b_par = 8, b_optTarget = ''None'', b_InfoCollection = blank_ci, b_IM = empty_IT,
      b_zeroAddr = 12, b_arrayNamesMap = [(100, [0]), (104, [4]), (108, [8])],
      b_src1 = s1, b_src2 = s2, b_dest = 8, b_addMap = [], b_lastDestMap = [],
      b_addrListSrc1 = [], b_addrListSrc2 = [],
      b_srcReg1PointerInfo = sample_pis rowMajor 1 1 0 0, b_srcReg2PointerInfo = sample_pis rowMajor 1 1 0 0,
      b_instr = binary_instruction op 108 singleVariable 100 singleVariable 104, b_constant = 0,
      b_MemArray = addNewRow 4 ''load'' 8 (addNewRow 0 ''load'' 8 []),
      b_FSMLim = addNewInstruction 0 4 (addNewInstruction 0 0 empty_fsm)\<rparr>"

lemmas sample_b_defs = sample_b_def addNewRow_def addNewInstruction_def empty_fsm_def binary_instruction_def

lemma sample_b_ready:
  assumes "op \<noteq> ''load''" "s1 \<in> {0, 4}" "s2 \<in> {0, 4}"
  shows "ready (sample_b op s1 s2)"
proof -
  have "array_inv (b_MemArray (sample_b op s1 s2))" "connected (b_MemArray (sample_b op s1 s2))"
    by (auto simp: array_inv_def connected_def row_wf_def sample_b_defs split: if_splits)
  then show ?thesis
    using assms
    by (auto simp: ready_def binder_inv_def store_ok_def last_dest_ok_def rows.names_below_def row_name_def
        fsm_inv_def sample_b_defs dom_def ran_def split: if_splits)
qed

lemmas performBinding_eval = performBinding_def common_dest_def bind_operands_def connect_operand_def
  changeLiMRowType_def findRow_def checkIfRowIsLiM_def addNewInputConnection_def add_result_def
  remember_dest_def later_time_def fsm_getTime_def sm_modify_def addNewResultRow_def is_shift_def
  reuse_dest_def adjustName_def addNewItemInRefPos_def insert_before_def

theorem performBinding_correct_witness:
  "\<exists>b'. performBinding (sample_b ''and'' 0 4) = Inr b' \<and>
    sm_find (b_arrayNamesMap b') 108 = Some [8] \<and> stores_result (b_MemArray b') ''and'' 0 4 8"
proof -
  have "common_dest (sample_b ''and'' 0 4) = None" by (simp add: common_dest_def sample_b_defs)
  then show ?thesis
    using performBinding_correct[OF sample_b_ready[of "''and''" 0 4], of "[]"]
    by (auto simp: is_shift_def sample_b_defs)
qed

theorem performBinding_time_witness:
  "\<exists>b'. performBinding (sample_b ''and'' 0 4) = Inr b' \<and> sm_find (FSM2 (b_FSMLim b')) 8 = Some 1"
  using performBinding_time[OF sample_b_ready[of "''and''" 0 4]]
  by (auto simp: is_shift_def common_dest_def free_memory_row_def sample_b_defs)

end
