(* ===== verification/Bind_Handlers.thy ===== *)
theory Bind_Handlers
  imports Binding_Invariant
begin

text \<open>
  \<open>Binding/LiMBinder\<close>, the handlers of loads and of fully parallel operations: the first allocates
  a row for each element of an operand, the second maps an operation on each pair of elements of
  its operands.
\<close>

section \<open>Loads\<close>

definition bind_load_row :: "lim_binder \<Rightarrow> lim_binder res" where
  "bind_load_row b0 =
     (case getNewName b0 of (d, b) \<Rightarrow>
      Inr (addNewItem (b_destReg b) d
        (b\<lparr>b_dest := d,
           b_MemArray := addNewRow d ''load'' (b_par b) (b_MemArray b),
           b_FSMLim := addNewInstruction (ti (b_instr b)) d (b_FSMLim b)\<rparr>)))"

definition handleLoadOperationBindingProcess :: "lim_binder \<Rightarrow> lim_binder res" where
  "handleLoadOperationBindingProcess b =
     ebind (if isArray (b_InfoCollection b) (b_destReg b)
            then getArraySize (b_InfoCollection b) (b_destReg b) else Inr 1) (\<lambda>numIter.
       for_loop 0 numIter 1 (\<lambda>i. bind_load_row) b)"

section \<open>Fully parallel operations\<close>

text \<open>
  The address list of one operand, its size, and what is remembered of its pointer. For the operand
  types without a branch the size stays uninitialised and is read.
\<close>

definition operand_list ::
  "operandType \<Rightarrow> ptr \<Rightarrow> ptr \<Rightarrow> addressList \<Rightarrow> pointerInfoStruct \<Rightarrow> lim_binder
   \<Rightarrow> (int \<times> addressList \<times> pointerInfoStruct \<times> lim_binder) res" where
  "operand_list srcType src srcPtr l info b =
     (case srcType of
        singleVariable \<Rightarrow> ebind (findInANM b src) (\<lambda>l. Inr (1, l, info, b))
      | arrayOperand \<Rightarrow>
          ebind (getPointerInfo (PIT (b_InfoCollection b)) srcPtr) (\<lambda>info.
          ebind (shapeAddressList l info) (\<lambda>l.
          ebind (iteration_counts (LIT (b_InfoCollection b))
                   (getIterationVector (LIT (b_InfoCollection b)) (loopIterator info))) (\<lambda>iterationList.
          ebind (expandAddressList l info iterationList) (\<lambda>l.
            Inr (int (length l), l, info, b)))))
      | fakeArray \<Rightarrow>
          ebind (getPointerInfo (PIT (b_InfoCollection b)) srcPtr) (\<lambda>info.
          ebind (findInANM b src) (\<lambda>l. Inr (int (length l), l, info, b)))
      | constantOperand \<Rightarrow> (case getNewName b of (_, b) \<Rightarrow> Inr (1, l, info, b))
      | _ \<Rightarrow> Inl (UB ''handleFPOperationBindingProcess reads the size of an operand uninitialised''))"

definition fp_step :: "int \<Rightarrow> int \<Rightarrow> int \<Rightarrow> ptr \<times> lim_binder \<Rightarrow> (ptr \<times> lim_binder) res" where
  "fp_step size1 size2 i = (\<lambda>(tmpDestAddr, b).
     ebind (list_at (b_addrListSrc1 b) (if size1 = 1 then 0 else i)) (\<lambda>s1.
     ebind (list_at (b_addrListSrc2 b) (if size2 = 1 then 0 else i)) (\<lambda>s2.
     ebind (performBinding
              ((addNewItem (b_destReg b) tmpDestAddr (b\<lparr>b_src1 := s1, b_src2 := s2\<rparr>))
                 \<lparr>b_dest := tmpDestAddr\<rparr>)) (\<lambda>b.
       Inr (getNewName b)))))"

definition handleFPOperationBindingProcess :: "lim_binder \<Rightarrow> lim_binder res" where
  "handleFPOperationBindingProcess b0 =
     (case getNewName b0 of (tmpDestAddr, b) \<Rightarrow>
      let I = b_instr b in
      ebind (findInANM b (sourceReg1 I)) (\<lambda>l1.
      ebind (findInANM b (sourceReg2 I)) (\<lambda>l2.
      ebind (operand_list (srcReg1Type I) (sourceReg1 I) (srcReg1Ptr I) l1 (b_srcReg1PointerInfo b) b)
        (\<lambda>(size1, l1, p1, b).
      ebind (operand_list (srcReg2Type I) (sourceReg2 I) (srcReg2Ptr I) l2 (b_srcReg2PointerInfo b) b)
        (\<lambda>(size2, l2, p2, b).
      let b = b\<lparr>b_addrListSrc1 := l1, b_addrListSrc2 := l2,
                b_srcReg1PointerInfo := p1, b_srcReg2PointerInfo := p2\<rparr> in
      ebind (for_loop 0 (if size1 \<ge> size2 then size1 else size2) 1 (fp_step size1 size2) (tmpDestAddr, b))
        (\<lambda>(_, b). Inr b))))))"

section \<open>The invariant\<close>

text \<open>A pending destination: the next result's name, which is no row's yet.\<close>

definition pending :: "ptr \<Rightarrow> lim_binder \<Rightarrow> bool" where
  "pending d b \<longleftrightarrow> binder_inv b \<and> row_name (b_zeroAddr b) d \<and> rows.names_below d (b_MemArray b)"

lemma binder_invD:
  assumes "binder_inv b"
  shows "store_ok (b_zeroAddr b) (b_MemArray b) (b_FSMLim b)" "last_dest_ok b"
    "sm_inv (b_arrayNamesMap b)" "sm_inv (b_addMap b)" "0 \<le> b_zeroAddr b" "4 dvd b_zeroAddr b"
    "rows.names_below (b_zeroAddr b) (b_MemArray b)" "array_inv (b_MemArray b)"
    "dom (sm_find (FSM2 (b_FSMLim b))) = dom (sm_find (b_MemArray b))"
  using assms by (auto simp: binder_inv_def store_ok_def)

lemma last_dest_ok_extends:
  assumes "last_dest_ok b" "array_extends (b_MemArray b) (b_MemArray b')" "b_lastDestMap b' = b_lastDestMap b"
  shows "last_dest_ok b'"
  unfolding last_dest_ok_def assms(3)
proof (intro conjI ballI)
  show "sm_inv (b_lastDestMap b)" using assms(1) by (simp add: last_dest_ok_def)
  fix d assume "d \<in> ran (sm_find (b_lastDestMap b))"
  then obtain s where s: "sm_find (b_lastDestMap b) s = Some d" by (auto simp: ran_def)
  obtain op s1 s2 where o: "op \<noteq> ''load''" "stores_result (b_MemArray b) op s1 s2 d"
    "{s. sm_find (b_lastDestMap b) s = Some d} \<subseteq> {s1, s2}"
    by (rule last_dest_okE[OF assms(1) s])
  show "\<exists>op s1 s2. op \<noteq> ''load'' \<and> stores_result (b_MemArray b') op s1 s2 d \<and>
      {s. sm_find (b_lastDestMap b) s = Some d} \<subseteq> {s1, s2}"
    by (intro exI[of _ op] exI[of _ s1] exI[of _ s2] conjI o(1,3) stores_result_extends[OF assms(2) o(1,2)])
qed

lemma sm_inv_addNewItem: "sm_inv (b_arrayNamesMap b) \<Longrightarrow> sm_inv (b_arrayNamesMap (addNewItem k p b))"
  by (auto simp: addNewItem_def)

lemma addNewItem_fields [simp]:
  "b_MemArray (addNewItem k p b) = b_MemArray b" "b_FSMLim (addNewItem k p b) = b_FSMLim b"
  "b_zeroAddr (addNewItem k p b) = b_zeroAddr b" "b_instr (addNewItem k p b) = b_instr b"
  "b_addMap (addNewItem k p b) = b_addMap b" "b_lastDestMap (addNewItem k p b) = b_lastDestMap b"
  "b_addrListSrc1 (addNewItem k p b) = b_addrListSrc1 b" "b_addrListSrc2 (addNewItem k p b) = b_addrListSrc2 b"
  "b_src1 (addNewItem k p b) = b_src1 b" "b_src2 (addNewItem k p b) = b_src2 b" "b_dest (addNewItem k p b) = b_dest b"
  "b_InfoCollection (addNewItem k p b) = b_InfoCollection b" "b_par (addNewItem k p b) = b_par b"
  "b_IM (addNewItem k p b) = b_IM b"
  by (simp_all add: addNewItem_def)

lemma addNewItem_find:
  "sm_inv (b_arrayNamesMap b) \<Longrightarrow>
   sm_find (b_arrayNamesMap (addNewItem k p b)) k' =
     (if k' = k then Some (case sm_find (b_arrayNamesMap b) k of None \<Rightarrow> [p] | Some l \<Rightarrow> l @ [p])
      else sm_find (b_arrayNamesMap b) k')"
  by (auto simp: addNewItem_def sm_find_insert sm_find_modify split: option.splits)

text \<open>The invariant looks at the store and the tables of names only.\<close>

lemma binder_inv_cong:
  assumes "binder_inv b" "b_zeroAddr b' = b_zeroAddr b" "b_MemArray b' = b_MemArray b"
    "b_FSMLim b' = b_FSMLim b" "b_lastDestMap b' = b_lastDestMap b" "b_addMap b' = b_addMap b"
    "sm_inv (b_arrayNamesMap b')"
  shows "binder_inv b'"
  using assms last_dest_ok_extends[of b b'] by (auto simp: binder_inv_def)

lemma pending_new: "binder_inv b \<Longrightarrow> getNewName b = (d, b') \<Longrightarrow> pending d b' \<and> b_instr b' = b_instr b"
proof -
  assume inv: "binder_inv b" and new: "getNewName b = (d, b')"
  note i = binder_invD[OF inv]
  have b': "d = b_zeroAddr b" "b' = b\<lparr>b_zeroAddr := ptr_incr (b_zeroAddr b)\<rparr>"
    using new by (auto simp: getNewName_def)
  have "store_ok (ptr_incr (b_zeroAddr b)) (b_MemArray b) (b_FSMLim b)"
    using i(1,6) by (intro store_ok_mono[OF i(1)]) (auto simp: ptr_incr_def)
  moreover have "last_dest_ok b'" using i(2) b' by (intro last_dest_ok_extends[OF i(2)]) simp_all
  ultimately show ?thesis
    using i b' row_name_new[OF i(5,6)] by (simp add: pending_def binder_inv_def)
qed

lemma pending_cong:
  assumes "pending d b" "b_zeroAddr b' = b_zeroAddr b" "b_MemArray b' = b_MemArray b"
    "b_FSMLim b' = b_FSMLim b" "b_lastDestMap b' = b_lastDestMap b" "b_addMap b' = b_addMap b"
    "sm_inv (b_arrayNamesMap b')"
  shows "pending d b'"
  using assms binder_inv_cong[of b b'] by (auto simp: pending_def)

text \<open>A pending name stays pending when further names are taken.\<close>

lemma pending_skip: "pending d b \<Longrightarrow> getNewName b = (e, b') \<Longrightarrow> pending d b' \<and> b_instr b' = b_instr b"
  using pending_new[of b e b'] row_name_incr
  by (auto simp: pending_def getNewName_def)

text \<open>Adding the row for a pending name.\<close>

lemma pending_add:
  assumes "pending d b" "row_wf row" "set (inputConnections row) \<subseteq> {no_input} \<union> dom (sm_find (b_MemArray b))"
    and "b' = b\<lparr>b_MemArray := sm_insert d row (b_MemArray b), b_FSMLim := addNewInstruction t d (b_FSMLim b)\<rparr>"
  shows "binder_inv b' \<and> store_grows (b_MemArray b) (b_FSMLim b) (b_MemArray b') (b_FSMLim b') \<and>
    sm_find (b_MemArray b') d = Some row \<and> sm_find (FSM2 (b_FSMLim b')) d = Some t"
proof -
  have p: "binder_inv b" "row_name (b_zeroAddr b) d" "d \<notin> dom (sm_find (b_MemArray b))"
    using assms(1) rows.fresh[of d "b_MemArray b"] by (auto simp: pending_def)
  note i = binder_invD[OF p(1)]
  have c: "set (inputConnections row) \<subseteq> {no_input, d} \<union> dom (sm_find (b_MemArray b))" using assms(3) by blast
  note add = store_ok_add[OF i(1) p(2) order.refl i(6) p(3) assms(2) c, of t]
  have "last_dest_ok b'"
    using add by (intro last_dest_ok_extends[OF i(2)]) (simp_all add: assms(4) store_grows_def)
  then show ?thesis using add i by (simp add: assms(4) binder_inv_def)
qed

lemma bind_load_row_inv:
  assumes "binder_inv b" "bind_load_row b = Inr b'"
  shows "binder_inv b' \<and> store_grows (b_MemArray b) (b_FSMLim b) (b_MemArray b') (b_FSMLim b') \<and>
    b_instr b' = b_instr b \<and> b_InfoCollection b' = b_InfoCollection b"
proof -
  obtain d b1 where new: "getNewName b = (d, b1)" by (cases "getNewName b")
  have b1: "b_MemArray b1 = b_MemArray b" "b_FSMLim b1 = b_FSMLim b" "b_instr b1 = b_instr b"
    "b_InfoCollection b1 = b_InfoCollection b"
    using new by (auto simp: getNewName_def)
  let ?row = "\<lparr>rowType = ''load'', rowLength = b_par b1, inputConnections = [no_input],
        inputConnectionsType = [''none''], additionalLogic = []\<rparr>"
  let ?bd = "b1\<lparr>b_dest := d\<rparr>"
  let ?b2 = "?bd\<lparr>b_MemArray := sm_insert d ?row (b_MemArray ?bd), b_FSMLim := addNewInstruction (ti (b_instr b1)) d (b_FSMLim ?bd)\<rparr>"
  have p: "pending d b1" using pending_new[OF assms(1) new] by simp
  have "pending d ?bd"
    using p by (intro pending_cong[OF p]) (simp_all add: pending_def binder_inv_def)
  then have b2: "binder_inv ?b2" "store_grows (b_MemArray b1) (b_FSMLim b1) (b_MemArray ?b2) (b_FSMLim ?b2)"
    using pending_add[of d ?bd ?row ?b2 "ti (b_instr b1)"] by (simp_all add: row_wf_def)
  have b': "b' = addNewItem (b_destReg b1) d ?b2"
    using assms(2) new by (simp add: bind_load_row_def addNewRow_def)
  have "binder_inv b'"
    using binder_invD(3)[OF b2(1)] b'
    by (intro binder_inv_cong[OF b2(1)]) (simp_all add: sm_inv_addNewItem)
  then show ?thesis using b2(2) b1 b' by simp
qed

lemma handleLoad_inv:
  assumes "binder_inv b" "handleLoadOperationBindingProcess b = Inr b'"
  shows "binder_inv b' \<and> store_grows (b_MemArray b) (b_FSMLim b) (b_MemArray b') (b_FSMLim b')"
proof -
  obtain n where run: "for_loop 0 n 1 (\<lambda>i. bind_load_row) b = Inr b'"
    using assms(2) by (auto simp: handleLoadOperationBindingProcess_def res_simps)
  show ?thesis
    using for_loop_invariant[OF run, where P = "\<lambda>u. binder_inv u \<and>
        store_grows (b_MemArray b) (b_FSMLim b) (b_MemArray u) (b_FSMLim u)"]
      assms(1) bind_load_row_inv store_grows_trans
    by (meson array_extends_refl store_grows_def)
qed

section \<open>\<open>performBinding\<close> in the handlers\<close>

lemma connect_operand_FSM: "connect_operand k row src b = Inr (r, b') \<Longrightarrow> b_FSMLim b' = b_FSMLim b \<and> r = k row"
  by (auto simp: connect_operand_def res_simps)

lemma bind_operands_reads:
  assumes "bind_operands b = Inr (r, b1)"
  shows "b_src2 b \<in> dom (sm_find (b_MemArray b)) \<and>
    ((\<exists>row t. r = Copy row t \<and> later_time (b_FSMLim b) (b_src1 b) (b_src2 b) = Inr t) \<or>
     (\<exists>k row. (k = Plain \<or> k = Mux) \<and> r = k row \<and> b_FSMLim b1 = b_FSMLim b))"
proof -
  have "b_src2 b \<in> dom (sm_find (b_MemArray b))"
    using assms by (auto simp: bind_operands_def changeLiMRowType_def res_simps)
  moreover have "(\<exists>row t. r = Copy row t \<and> later_time (b_FSMLim b) (b_src1 b) (b_src2 b) = Inr t) \<or>
     (\<exists>k row. (k = Plain \<or> k = Mux) \<and> r = k row \<and> b_FSMLim b1 = b_FSMLim b)"
    using assms
    by (auto simp: bind_operands_def bind_copy_row_def getNewName_def Let_def res_simps
        dest!: connect_operand_FSM split: if_splits)
  ultimately show ?thesis by blast
qed

lemma later_time_dom:
  "later_time f s1 s2 = Inr t \<Longrightarrow> s1 \<in> dom (sm_find (FSM2 f)) \<and> s2 \<in> dom (sm_find (FSM2 f))"
  by (auto simp: later_time_def res_simps)

text \<open>A binding that succeeds had rows for its operands.\<close>

lemma performBinding_operands:
  assumes "binder_inv b" "performBinding b = Inr b'" "common_dest b = None" "\<not> is_shift (b_operation b)"
  shows "b_src1 b \<in> dom (sm_find (b_MemArray b)) \<and> b_src2 b \<in> dom (sm_find (b_MemArray b))"
proof -
  obtain r b1 where o: "bind_operands b = Inr (r, b1)" "add_result r b1 = Inr b'"
    using assms(2-4) by (auto simp: performBinding_def res_simps)
  have src: "b_src1 b1 = b_src1 b" "b_src2 b1 = b_src2 b"
    using o(1) by (auto simp: bind_operands_def bind_copy_row_def connect_operand_def getNewName_def Let_def
        res_simps split: if_splits)
  note reads = bind_operands_reads[OF o(1)]
  then obtain t where "later_time (b_FSMLim b) (b_src1 b) (b_src2 b) = Inr t"
    using o(2) src by (auto simp: add_result_def Let_def res_simps)
  from later_time_dom[OF this] show ?thesis unfolding binder_invD(9)[OF assms(1)] .
qed

text \<open>
  The shift: the source row already has a time, so of all the times the loop inserts only the last
  one, that of the result, has an effect.
\<close>

lemma shift_times_effect:
  assumes "fsm_inv f" "sm_find (FSM2 f) shifted = Some t0" "0 \<le> k"
  shows "shift_times t k shifted result f = addNewInstruction (t + k + 1) result f"
proof -
  have "fold (\<lambda>i f. if i = t + k + 1 then addNewInstruction i result f else addNewInstruction i shifted f) l f = f"
    if "\<forall>i \<in> set l. i \<noteq> t + k + 1" for l
    using that by (induction l) (simp_all add: addNewInstruction_again[OF assms(1,2)])
  moreover have "[t + 1..t + k + 1] = [t + 1..t + k] @ [t + k + 1]"
    using assms(3) upto_rec2[of "t + 1" "t + k + 1"] by simp
  ultimately show ?thesis by (simp add: shift_times_def)
qed

lemma bind_shift_inv:
  assumes "pending (b_dest b) b" "bind_shift b = Inr b'"
  shows "binder_inv b' \<and> store_grows (b_MemArray b) (b_FSMLim b) (b_MemArray b') (b_FSMLim b') \<and>
    b_instr b' = b_instr b \<and>
    (\<exists>t. sm_find (FSM2 (b_FSMLim b)) (b_src1 b) = Some t \<and>
       sm_find (FSM2 (b_FSMLim b')) (b_dest b) = Some (t + int (floor_log2 (nat (b_constant b))) + 1))"
proof -
  have inv: "binder_inv b" using assms(1) by (simp add: pending_def)
  note i = binder_invD[OF inv]
  have ci: "connected (b_MemArray b)" using i(1) by (simp add: store_ok_def)
  obtain ok m t where s: "isLiMRowOfThisType (b_MemArray b) (b_src1 b) ''load'' = Inr True"
    "changeLiMRowType (b_src1 b) (b_operation b) [to_string (b_constant b)] (b_MemArray b) = Inr (ok, m)"
    "fsm_getTime (b_FSMLim b) (b_src1 b) = Inr t"
    "b' = b\<lparr>b_MemArray := addNewResultRow (b_dest b) (b_par b) (b_src1 b) ''OC'' m,
           b_FSMLim := shift_times t (int (floor_log2 (nat (b_constant b)))) (b_src1 b) (b_dest b) (b_FSMLim b)\<rparr>"
    using assms(2) by (auto simp: bind_shift_def getNewName_def Let_def res_simps split: if_splits)
  have src: "b_src1 b \<in> dom (sm_find (b_MemArray b))"
    using s(1) by (auto simp: isLiMRowOfThisType_def res_simps)
  have m: "array_inv m" "array_extends (b_MemArray b) m" "dom (sm_find m) = dom (sm_find (b_MemArray b))" "connected m"
    using change_row[OF i(8) ci src, of "b_operation b" "[to_string (b_constant b)]"] s(2) by auto
  have t: "sm_find (FSM2 (b_FSMLim b)) (b_src1 b) = Some t" using s(3) by (simp add: res_simps)
  let ?b = "b\<lparr>b_MemArray := m\<rparr>"
  have "binder_inv ?b"
  proof -
    have "last_dest_ok ?b" using m(2) by (intro last_dest_ok_extends[OF i(2)]) simp_all
    then show ?thesis using store_ok_same_dom[OF i(1) m(1,4,3)] i by (simp add: binder_inv_def)
  qed
  then have p: "pending (b_dest b) ?b"
    using assms(1) m(3) by (auto simp: pending_def rows.names_below_def dom_def set_eq_iff)
  let ?row = "\<lparr>rowType = ''load'', rowLength = b_par b, inputConnections = [b_src1 b],
      inputConnectionsType = [''OC''], additionalLogic = []\<rparr>"
  let ?T = "t + int (floor_log2 (nat (b_constant b))) + 1"
  let ?b' = "?b\<lparr>b_MemArray := sm_insert (b_dest b) ?row (b_MemArray ?b),
                b_FSMLim := addNewInstruction ?T (b_dest b) (b_FSMLim ?b)\<rparr>"
  have "shift_times t (int (floor_log2 (nat (b_constant b)))) (b_src1 b) (b_dest b) (b_FSMLim b) =
      addNewInstruction ?T (b_dest b) (b_FSMLim b)"
    by (rule shift_times_effect[OF store_ok_fsm(1)[OF i(1)] t]) simp
  then have b': "b' = ?b'" using s(4) by (simp add: addNewResultRow_def)
  have "set (inputConnections ?row) \<subseteq> {no_input} \<union> dom (sm_find (b_MemArray ?b))"
    using src m(3) by simp
  then have "binder_inv ?b' \<and> store_grows (b_MemArray ?b) (b_FSMLim ?b) (b_MemArray ?b') (b_FSMLim ?b') \<and>
    sm_find (FSM2 (b_FSMLim ?b')) (b_dest b) = Some ?T"
    using pending_add[OF p, of ?row ?b' ?T] by (simp add: row_wf_def)
  then show ?thesis
    using m(2) t b' by (auto simp: store_grows_def intro: array_extends_trans)
qed

lemma performBinding_inv:
  assumes "pending (b_dest b) b" "b_operation b \<noteq> ''load''" "performBinding b = Inr b'"
  shows "binder_inv b' \<and> store_grows (b_MemArray b) (b_FSMLim b) (b_MemArray b') (b_FSMLim b') \<and>
    b_instr b' = b_instr b"
proof -
  have inv: "binder_inv b" using assms(1) by (simp add: pending_def)
  have refl: "store_grows (b_MemArray b) (b_FSMLim b) (b_MemArray b) (b_FSMLim b)"
    by (simp add: store_grows_def)
  consider (reuse) d where "common_dest b = Some d" | (shift) "common_dest b = None" "is_shift (b_operation b)"
    | (new) "common_dest b = None" "\<not> is_shift (b_operation b)" by (cases "common_dest b") blast+
  then show ?thesis
  proof cases
    case reuse
    obtain op s1 s2 where "performBinding b =
        Inr (if op = b_operation b then adjustName (addNewItemInRefPos (b_destReg b) d b) else b)"
      by (rule performBinding_reuse[OF inv reuse])
    then have "b' = b \<or> b' = adjustName (addNewItemInRefPos (b_destReg b) d b)"
      using assms(3) by (simp split: if_splits)
    moreover have "binder_inv (adjustName (addNewItemInRefPos (b_destReg b) d b))"
    proof (rule binder_inv_reuse')
    qed (use assms(1) in \<open>simp_all add: pending_def\<close>)
    ultimately show ?thesis using inv refl by (auto simp: adjustName_def addNewItemInRefPos_def)
  next
    case shift
    then show ?thesis using bind_shift_inv[OF assms(1), of b'] assms(3) by (simp add: performBinding_def)
  next
    case new
    have "ready b"
      using assms(1,2) performBinding_operands[OF inv assms(3) new] by (simp add: ready_def pending_def)
    then show ?thesis using performBinding_new[OF _ new(2,1)] assms(3) by fastforce
  qed
qed

section \<open>The handler of fully parallel operations\<close>

lemma operand_list_state:
  "operand_list ty src p l info b = Inr (n, l', info', b') \<Longrightarrow> b' = b \<or> (\<exists>e. getNewName b = (e, b'))"
  by (cases ty) (auto simp: operand_list_def getNewName_def res_simps)

lemma operand_list_pending:
  assumes "operand_list ty src p l info b = Inr (n, l', info', b')" "pending d b"
  shows "pending d b' \<and> b_instr b' = b_instr b \<and> b_MemArray b' = b_MemArray b \<and> b_FSMLim b' = b_FSMLim b \<and>
    b_lastDestMap b' = b_lastDestMap b \<and> b_arrayNamesMap b' = b_arrayNamesMap b"
  using operand_list_state[OF assms(1)] pending_skip[OF assms(2)] assms(2) by (auto simp: getNewName_def)

definition fp_state :: "ptr \<Rightarrow> ptr \<Rightarrow> ptr \<Rightarrow> lim_binder \<Rightarrow> lim_binder" where
  "fp_state d s1 s2 b = (addNewItem (b_destReg b) d (b\<lparr>b_src1 := s1, b_src2 := s2\<rparr>))\<lparr>b_dest := d\<rparr>"

lemma fp_state_pending:
  assumes "pending d b"
  shows "pending (b_dest (fp_state d s1 s2 b)) (fp_state d s1 s2 b)"
proof -
  have "sm_inv (b_arrayNamesMap b)" using assms by (simp add: pending_def binder_inv_def)
  then have "sm_inv (b_arrayNamesMap (b\<lparr>b_src1 := s1, b_src2 := s2\<rparr>))" by simp
  then have "sm_inv (b_arrayNamesMap (fp_state d s1 s2 b))"
    unfolding fp_state_def by (simp add: sm_inv_addNewItem del: addNewItem_fields)
  then have "pending d (fp_state d s1 s2 b)"
    by (intro pending_cong[OF assms]) (simp_all add: fp_state_def)
  then show ?thesis by (simp add: fp_state_def)
qed

lemma fp_state_fields [simp]:
  "b_MemArray (fp_state d s1 s2 b) = b_MemArray b" "b_FSMLim (fp_state d s1 s2 b) = b_FSMLim b"
  "b_instr (fp_state d s1 s2 b) = b_instr b" "b_lastDestMap (fp_state d s1 s2 b) = b_lastDestMap b"
  "b_src1 (fp_state d s1 s2 b) = s1" "b_src2 (fp_state d s1 s2 b) = s2" "b_dest (fp_state d s1 s2 b) = d"
  "b_addrListSrc1 (fp_state d s1 s2 b) = b_addrListSrc1 b" "b_addrListSrc2 (fp_state d s1 s2 b) = b_addrListSrc2 b"
  by (simp_all add: fp_state_def)

lemma fp_step_run:
  "fp_step size1 size2 i (d, b) =
     ebind (list_at (b_addrListSrc1 b) (if size1 = 1 then 0 else i)) (\<lambda>s1.
     ebind (list_at (b_addrListSrc2 b) (if size2 = 1 then 0 else i)) (\<lambda>s2.
     ebind (performBinding (fp_state d s1 s2 b)) (\<lambda>b. Inr (getNewName b))))"
  by (simp add: fp_step_def fp_state_def)

lemma fp_step_inv:
  assumes "pending d b" "b_operation b \<noteq> ''load''" "fp_step size1 size2 i (d, b) = Inr (d', b')"
  shows "pending d' b' \<and> store_grows (b_MemArray b) (b_FSMLim b) (b_MemArray b') (b_FSMLim b') \<and> b_instr b' = b_instr b"
proof -
  obtain s1 s2 u where u: "performBinding (fp_state d s1 s2 b) = Inr u" "getNewName u = (d', b')"
    using assms(3) by (auto simp: fp_step_run res_simps)
  have "binder_inv u" "store_grows (b_MemArray b) (b_FSMLim b) (b_MemArray u) (b_FSMLim u)" "b_instr u = b_instr b"
    using performBinding_inv[OF fp_state_pending[OF assms(1)] _ u(1)] assms(2) by auto
  then show ?thesis using pending_new[of u d' b'] u(2) by (auto simp: getNewName_def)
qed

lemma handleFP_inv:
  assumes "binder_inv b" "b_operation b \<noteq> ''load''" "handleFPOperationBindingProcess b = Inr b'"
  shows "binder_inv b' \<and> store_grows (b_MemArray b) (b_FSMLim b) (b_MemArray b') (b_FSMLim b')"
proof -
  obtain d b1 where new: "getNewName b = (d, b1)" by (cases "getNewName b")
  obtain m1 m2 n1 l1 p1 b2 n2 l2 p2 b3 e where run:
    "operand_list (srcReg1Type (b_instr b1)) (sourceReg1 (b_instr b1)) (srcReg1Ptr (b_instr b1)) m1
        (b_srcReg1PointerInfo b1) b1 = Inr (n1, l1, p1, b2)"
    "operand_list (srcReg2Type (b_instr b1)) (sourceReg2 (b_instr b1)) (srcReg2Ptr (b_instr b1)) m2
        (b_srcReg2PointerInfo b2) b2 = Inr (n2, l2, p2, b3)"
    "for_loop 0 (if n1 \<ge> n2 then n1 else n2) 1 (fp_step n1 n2)
       (d, b3\<lparr>b_addrListSrc1 := l1, b_addrListSrc2 := l2, b_srcReg1PointerInfo := p1, b_srcReg2PointerInfo := p2\<rparr>)
      = Inr (e, b')"
    using assms(3) new by (auto simp: handleFPOperationBindingProcess_def Let_def res_simps)
  let ?b = "b3\<lparr>b_addrListSrc1 := l1, b_addrListSrc2 := l2, b_srcReg1PointerInfo := p1, b_srcReg2PointerInfo := p2\<rparr>"
  have p1: "pending d b1" "b_instr b1 = b_instr b" "b_MemArray b1 = b_MemArray b" "b_FSMLim b1 = b_FSMLim b"
    using pending_new[OF assms(1) new] new by (auto simp: getNewName_def)
  have p3: "pending d b3" "b_instr b3 = b_instr b" "b_MemArray b3 = b_MemArray b" "b_FSMLim b3 = b_FSMLim b"
    using operand_list_pending[OF run(1) p1(1)] operand_list_pending[OF run(2)] p1 by auto
  have p: "pending d ?b" using p3(1) by (intro pending_cong[OF p3(1)]) (simp_all add: pending_def binder_inv_def)
  define P where "P u \<longleftrightarrow> pending (fst u) (snd u) \<and> b_instr (snd u) = b_instr b \<and>
      store_grows (b_MemArray b) (b_FSMLim b) (b_MemArray (snd u)) (b_FSMLim (snd u))" for u :: "ptr \<times> lim_binder"
  have step: "P v" if "P u" "fp_step n1 n2 i u = Inr v" for i u v
    using fp_step_inv[of "fst u" "snd u" n1 n2 i "fst v" "snd v"] that assms(2) store_grows_trans
    by (auto simp: P_def)
  have "P (d, ?b)" using p p3 by (simp add: P_def store_grows_def)
  then have "P (e, b')" using for_loop_invariant[where P = P, OF run(3)] step by blast
  then show ?thesis by (simp add: P_def pending_def)
qed

section \<open>Element by element\<close>

definition names_of :: "lim_binder \<Rightarrow> ptr \<Rightarrow> ptr list" where
  "names_of b k = (case sm_find (b_arrayNamesMap b) k of None \<Rightarrow> [] | Some l \<Rightarrow> l)"

text \<open>The state of the loop after \<open>k\<close> elements.\<close>

definition fp_progress ::
  "lim_binder \<Rightarrow> ptr list \<Rightarrow> ptr list \<Rightarrow> nat \<Rightarrow> ptr \<times> lim_binder \<Rightarrow> bool" where
  "fp_progress b l1 l2 k = (\<lambda>(d, u).
     pending d u \<and> b_instr u = b_instr b \<and> b_addrListSrc1 u = l1 \<and> b_addrListSrc2 u = l2 \<and>
     store_grows (b_MemArray b) (b_FSMLim b) (b_MemArray u) (b_FSMLim u) \<and>
     dom (sm_find (b_lastDestMap u)) \<subseteq> dom (sm_find (b_lastDestMap b)) \<union> set (take k l1) \<union> set (take k l2) \<and>
     (\<exists>rs. length rs = k \<and> names_of u (b_destReg b) = names_of b (b_destReg b) @ rs \<and>
        (\<forall>i < k. stores_result (b_MemArray u) (b_operation b) (l1 ! i) (l2 ! i) (rs ! i))))"

lemma fp_progress_step:
  assumes "fp_progress b l1 l2 k (d, u)" "k < length l1" "length l1 = length l2"
    and "b_operation b \<noteq> ''load''" "\<not> is_shift (b_operation b)"
    and "set l1 \<union> set l2 \<subseteq> dom (sm_find (b_MemArray b))" "distinct l2" "set l1 \<inter> set l2 = {}"
    and "set l2 \<inter> dom (sm_find (b_lastDestMap b)) = {}"
  shows "\<exists>v. fp_step (int (length l1)) (int (length l2)) (int k) (d, u) = Inr v \<and> fp_progress b l1 l2 (Suc k) v"
proof -
  let ?s = "fp_state d (l1 ! k) (l2 ! k) u"
  obtain rs where g: "pending d u" "b_instr u = b_instr b" "b_addrListSrc1 u = l1" "b_addrListSrc2 u = l2"
    "store_grows (b_MemArray b) (b_FSMLim b) (b_MemArray u) (b_FSMLim u)"
    "dom (sm_find (b_lastDestMap u)) \<subseteq> dom (sm_find (b_lastDestMap b)) \<union> set (take k l1) \<union> set (take k l2)"
    "length rs = k" "names_of u (b_destReg b) = names_of b (b_destReg b) @ rs"
    "\<forall>i < k. stores_result (b_MemArray u) (b_operation b) (l1 ! i) (l2 ! i) (rs ! i)"
    using assms(1) unfolding fp_progress_def by auto
  have mem: "l1 ! k \<in> set l1" "l2 ! k \<in> set l2" using assms(2,3) by auto
  have rows: "l1 ! k \<in> dom (sm_find (b_MemArray u))" "l2 ! k \<in> dom (sm_find (b_MemArray u))"
    using mem assms(6) array_extends_dom[of "b_MemArray b" "b_MemArray u"] g(5)
    unfolding store_grows_def by blast+
  have "l2 ! k \<notin> set (take k l2)"
    using assms(2,3,7) by (metis distinct_take id_take_nth_drop not_distinct_conv_prefix take_Suc_conv_app_nth distinct_append disjoint_insert(1) list.simps(15))
  moreover have "l2 ! k \<notin> set (take k l1)" using mem assms(8) in_set_takeD by fastforce
  ultimately have "sm_find (b_lastDestMap u) (l2 ! k) = None"
    using g(6) mem(2) assms(9) by auto
  then have none: "common_dest ?s = None" by (auto simp: common_dest_def split: option.split)
  have "pending d ?s" using fp_state_pending[OF g(1), of "l1 ! k" "l2 ! k"] by simp
  then have ready: "ready ?s" using rows g(2) assms(4) by (simp add: ready_def pending_def)
  obtain b' where b': "performBinding ?s = Inr b'" "binder_inv b'"
    "store_grows (b_MemArray u) (b_FSMLim u) (b_MemArray b') (b_FSMLim b')"
    "b_arrayNamesMap b' = b_arrayNamesMap ?s" "b_instr b' = b_instr u" "remembers ?s b'"
    "stores_result (b_MemArray b') (b_operation b) (l1 ! k) (l2 ! k) d"
    using performBinding_new[OF ready _ none] assms(5) g(2) by auto
  obtain d' v where v: "getNewName b' = (d', v)" by (cases "getNewName b'")
  have vf: "pending d' v" "b_MemArray v = b_MemArray b'" "b_FSMLim v = b_FSMLim b'" "b_instr v = b_instr u"
    "b_arrayNamesMap v = b_arrayNamesMap b'" "b_lastDestMap v = b_lastDestMap b'"
    "b_addrListSrc1 v = b_addrListSrc1 b'" "b_addrListSrc2 v = b_addrListSrc2 b'"
    using pending_new[OF b'(2) v] v b'(5) by (auto simp: getNewName_def)
  have step: "fp_step (int (length l1)) (int (length l2)) (int k) (d, u) = Inr (d', v)"
    using b'(1) v assms(2,3) g(3,4) by (auto simp: fp_step_run list_at_nth list_at_def)
  have anm: "sm_inv (b_arrayNamesMap u)" using g(1) by (simp add: pending_def binder_inv_def)
  have names: "names_of v (b_destReg b) = names_of b (b_destReg b) @ rs @ [d]"
    using g(2,8) anm
    by (auto simp: names_of_def vf(5) b'(4) fp_state_def addNewItem_find split: option.splits)
  have stores: "stores_result (b_MemArray v) (b_operation b) (l1 ! i) (l2 ! i) ((rs @ [d]) ! i)" if "i < Suc k" for i
  proof (cases "i = k")
    case True
    then show ?thesis using b'(7) vf(2) g(7) by (simp add: nth_append)
  next
    case False
    then have "stores_result (b_MemArray u) (b_operation b) (l1 ! i) (l2 ! i) (rs ! i)" using that g(9) by simp
    then show ?thesis
      using stores_result_extends[OF _ assms(4)] b'(3) that False g(7) vf(2)
      by (auto simp: store_grows_def nth_append)
  qed
  have "sm_inv (b_lastDestMap u)" using g(1) by (simp add: pending_def binder_inv_def last_dest_ok_def)
  then have keys: "dom (sm_find (b_lastDestMap v)) \<subseteq> dom (sm_find (b_lastDestMap b)) \<union> set (take (Suc k) l1) \<union> set (take (Suc k) l2)"
    using b'(6) g(6) assms(2,3) unfolding vf(6) remembers_def
    by (auto simp: sm.dom_insert take_Suc_conv_app_nth)
  have "store_grows (b_MemArray b) (b_FSMLim b) (b_MemArray v) (b_FSMLim v)"
    using store_grows_trans[OF g(5) b'(3)] vf(2,3) by simp
  then have "fp_progress b l1 l2 (Suc k) (d', v)"
    unfolding fp_progress_def
    using vf(1,4,7,8) g(2-4,7) b'(6) names stores keys
    by (auto simp: remembers_def intro!: exI[of _ "rs @ [d]"])
  then show ?thesis using step by blast
qed

lemma fp_progress_run:
  assumes "fp_progress b l1 l2 0 s" "k \<le> length l1" "length l1 = length l2"
    and "b_operation b \<noteq> ''load''" "\<not> is_shift (b_operation b)"
    and "set l1 \<union> set l2 \<subseteq> dom (sm_find (b_MemArray b))" "distinct l2" "set l1 \<inter> set l2 = {}"
    and "set l2 \<inter> dom (sm_find (b_lastDestMap b)) = {}"
  shows "\<exists>v. efold (fp_step (int (length l1)) (int (length l2))) (map int [0..<k]) s = Inr v \<and>
    fp_progress b l1 l2 k v"
  using assms(2)
proof (induction k)
  case 0
  then show ?case using assms(1) by simp
next
  case (Suc k)
  then obtain d u where u: "efold (fp_step (int (length l1)) (int (length l2))) (map int [0..<k]) s = Inr (d, u)"
    "fp_progress b l1 l2 k (d, u)"
    by fastforce
  obtain v where "fp_step (int (length l1)) (int (length l2)) (int k) (d, u) = Inr v" "fp_progress b l1 l2 (Suc k) v"
    using fp_progress_step[OF u(2) _ assms(3-9)] Suc.prems by auto
  then show ?case using u(1) by simp
qed

section \<open>Properties\<close>

text \<open>
  C12: a parallel operation, no shift, on two operands of the same number of elements, whose rows exist and of
  which the second ones are distinct, different from the first ones and not used as an operand before (otherwise
  an operation may be dropped, \<open>performBinding_drops_other_operation\<close>), always succeeds: it keeps
  the invariant, loses no row, and appends to the names of the destination one row for each element, which
  stores the output of a LiM row of the operation fed by the two elements.
\<close>

theorem handleFP_elementwise:
  assumes "binder_inv b" "b_operation b \<noteq> ''load''" "\<not> is_shift (b_operation b)"
    and "getNewName b = (d, b1)"
    and "findInANM b (sourceReg1 (b_instr b)) = Inr m1" "findInANM b (sourceReg2 (b_instr b)) = Inr m2"
    and "operand_list (srcReg1Type (b_instr b)) (sourceReg1 (b_instr b)) (srcReg1Ptr (b_instr b)) m1
          (b_srcReg1PointerInfo b) b1 = Inr (int (length l1), l1, p1, b2)"
    and "operand_list (srcReg2Type (b_instr b)) (sourceReg2 (b_instr b)) (srcReg2Ptr (b_instr b)) m2
          (b_srcReg2PointerInfo b) b2 = Inr (int (length l2), l2, p2, b3)"
    and "length l1 = length l2" "set l1 \<union> set l2 \<subseteq> dom (sm_find (b_MemArray b))"
    and "distinct l2" "set l1 \<inter> set l2 = {}" "set l2 \<inter> dom (sm_find (b_lastDestMap b)) = {}"
  shows "\<exists>b' rs. handleFPOperationBindingProcess b = Inr b' \<and> binder_inv b' \<and>
    store_grows (b_MemArray b) (b_FSMLim b) (b_MemArray b') (b_FSMLim b') \<and>
    length rs = length l1 \<and> names_of b' (b_destReg b) = names_of b (b_destReg b) @ rs \<and>
    (\<forall>i < length l1. stores_result (b_MemArray b') (b_operation b) (l1 ! i) (l2 ! i) (rs ! i))"
proof -
  have b1: "pending d b1" "b1 = b\<lparr>b_zeroAddr := ptr_incr (b_zeroAddr b)\<rparr>"
    using pending_new[OF assms(1,4)] assms(4) by (auto simp: getNewName_def)
  note f2 = operand_list_pending[OF assms(7) b1(1)]
  note f3 = operand_list_pending[OF assms(8)]
  have info: "b_srcReg2PointerInfo b2 = b_srcReg2PointerInfo b"
    using operand_list_state[OF assms(7)] b1(2) by (auto simp: getNewName_def)
  have p3: "pending d b3" "b_instr b3 = b_instr b" "b_MemArray b3 = b_MemArray b" "b_FSMLim b3 = b_FSMLim b"
    "b_lastDestMap b3 = b_lastDestMap b" "b_arrayNamesMap b3 = b_arrayNamesMap b"
    using f2 f3 b1(2) by auto
  let ?b = "b3\<lparr>b_addrListSrc1 := l1, b_addrListSrc2 := l2, b_srcReg1PointerInfo := p1, b_srcReg2PointerInfo := p2\<rparr>"
  have p: "pending d ?b" using p3(1) by (intro pending_cong[OF p3(1)]) (simp_all add: pending_def binder_inv_def)
  have start: "fp_progress b l1 l2 0 (d, ?b)"
    using p p3 by (simp add: fp_progress_def store_grows_def names_of_def)
  obtain e b' where run: "efold (fp_step (int (length l1)) (int (length l2))) (map int [0..<length l1]) (d, ?b) = Inr (e, b')"
    "fp_progress b l1 l2 (length l1) (e, b')"
    using fp_progress_run[OF start order.refl assms(9,2,3,10-13)] by fastforce
  have "handleFPOperationBindingProcess b = Inr b'"
    using assms(4-9) run(1) b1(2) info
    by (simp add: handleFPOperationBindingProcess_def findInANM_def Let_def for_loop_upt)
  then show ?thesis
    using run(2) by (auto simp: fp_progress_def pending_def)
qed

text \<open>
  Two arrays of two elements each, loaded in rows 0, 4 and 8, 12, and an addition of the arrays
  (whose rows are listed already, as for a temporary array).
\<close>

definition sample_fp :: lim_binder where
  "sample_fp =
     (sample_b ''add'' 0 0)\<lparr>b_zeroAddr := 16, b_arrayNamesMap := [(100, [0, 4]), (104, [8, 12])],
      b_InfoCollection := blank_ci\<lparr>PIT := [(0, sample_pis rowMajor 1 2 0 0)]\<rparr>,
      b_instr := binary_instruction ''add'' 108 fakeArray 100 fakeArray 104,
      b_MemArray := addNewRow 12 ''load'' 8 (addNewRow 8 ''load'' 8 (addNewRow 4 ''load'' 8 (addNewRow 0 ''load'' 8 []))),
      b_FSMLim := addNewInstruction 0 12 (addNewInstruction 0 8 (addNewInstruction 0 4 (addNewInstruction 0 0 empty_fsm)))\<rparr>"

lemma sample_fp_inv: "binder_inv sample_fp"
proof -
  have "array_inv (b_MemArray sample_fp)" "connected (b_MemArray sample_fp)"
    by (auto simp: array_inv_def connected_def row_wf_def sample_fp_def addNewRow_def split: if_splits)
  then show ?thesis
    by (auto simp: binder_inv_def store_ok_def last_dest_ok_def rows.names_below_def row_name_def
        fsm_inv_def sample_fp_def sample_b_defs dom_def ran_def split: if_splits)
qed

theorem handleFP_elementwise_witness:
  "\<exists>b' rs. handleFPOperationBindingProcess sample_fp = Inr b' \<and> length rs = 2 \<and> names_of b' 108 = rs \<and>
    stores_result (b_MemArray b') ''add'' 0 8 (rs ! 0) \<and> stores_result (b_MemArray b') ''add'' 4 12 (rs ! 1)"
proof -
  let ?b1 = "snd (getNewName sample_fp)"
  have "\<exists>b' rs. handleFPOperationBindingProcess sample_fp = Inr b' \<and> binder_inv b' \<and>
    store_grows (b_MemArray sample_fp) (b_FSMLim sample_fp) (b_MemArray b') (b_FSMLim b') \<and>
    length rs = length [0, 4 :: int] \<and> names_of b' (b_destReg sample_fp) = names_of sample_fp (b_destReg sample_fp) @ rs \<and>
    (\<forall>i < length [0, 4 :: int]. stores_result (b_MemArray b') (b_operation sample_fp) ([0, 4] ! i) ([8, 12] ! i) (rs ! i))"
    by (rule handleFP_elementwise[OF sample_fp_inv, of "fst (getNewName sample_fp)" ?b1 "[0, 4]" "[8, 12]" "[0, 4]"
          "sample_pis rowMajor 1 2 0 0" ?b1 "[8, 12]" "sample_pis rowMajor 1 2 0 0" ?b1])
      (auto simp: sample_fp_def sample_b_defs is_shift_def findInANM_def operand_list_def getPointerInfo_def
        nullptr_def getNewName_def addNewRow_def)
  then show ?thesis
    by (fastforce simp: sample_fp_def sample_b_defs names_of_def)
qed

section \<open>Loads, row by row\<close>

definition load_rows :: "lim_binder \<Rightarrow> nat \<Rightarrow> ptr list" where
  "load_rows b n = map (\<lambda>i. b_zeroAddr b + 4 * int i) [0..<n]"

definition is_load_row :: "lim_binder \<Rightarrow> ptr \<Rightarrow> bool" where
  "is_load_row b p \<longleftrightarrow> (\<exists>row. sm_find (b_MemArray b) p = Some row \<and>
     rowType row = ''load'' \<and> inputConnections row = [no_input])"

lemma bind_load_row_effect:
  assumes "binder_inv b"
  shows "\<exists>b'. bind_load_row b = Inr b' \<and> binder_inv b' \<and> b_zeroAddr b' = b_zeroAddr b + 4 \<and>
    b_instr b' = b_instr b \<and> b_InfoCollection b' = b_InfoCollection b \<and>
    names_of b' (b_destReg b) = names_of b (b_destReg b) @ [b_zeroAddr b] \<and>
    is_load_row b' (b_zeroAddr b) \<and> sm_find (FSM2 (b_FSMLim b')) (b_zeroAddr b) = Some (ti (b_instr b)) \<and>
    (\<forall>p. p \<noteq> b_zeroAddr b \<longrightarrow> sm_find (b_MemArray b') p = sm_find (b_MemArray b) p \<and>
       sm_find (FSM2 (b_FSMLim b')) p = sm_find (FSM2 (b_FSMLim b)) p)"
proof -
  obtain b' where b': "bind_load_row b = Inr b'" by (auto simp: bind_load_row_def getNewName_def)
  note i = binder_invD[OF assms]
  have "b_zeroAddr b \<notin> dom (sm_find (b_MemArray b))" using rows.fresh[OF i(7)] by auto
  then have fresh: "sm_find (b_MemArray b) (b_zeroAddr b) = None" "sm_find (FSM2 (b_FSMLim b)) (b_zeroAddr b) = None"
    using i(9) by auto
  have inv: "sm_inv (b_MemArray b)" "sm_inv (FSM2 (b_FSMLim b))" using i(1) by (auto simp: store_ok_def fsm_inv_def)
  show ?thesis
    using b' bind_load_row_inv[OF assms b'] fresh inv i(3)
    by (auto simp: bind_load_row_def getNewName_def ptr_incr_def names_of_def addNewItem_find is_load_row_def
        addNewRow_def addNewInstruction_def sm_find_insert split: option.splits)
qed

definition load_progress :: "lim_binder \<Rightarrow> nat \<Rightarrow> lim_binder \<Rightarrow> bool" where
  "load_progress b k u \<longleftrightarrow> binder_inv u \<and> b_zeroAddr u = b_zeroAddr b + 4 * int k \<and> b_instr u = b_instr b \<and>
     names_of u (b_destReg b) = names_of b (b_destReg b) @ load_rows b k \<and>
     (\<forall>p \<in> set (load_rows b k). is_load_row u p \<and> sm_find (FSM2 (b_FSMLim u)) p = Some (ti (b_instr b))) \<and>
     (\<forall>p. p \<notin> set (load_rows b k) \<longrightarrow> sm_find (b_MemArray u) p = sm_find (b_MemArray b) p \<and>
        sm_find (FSM2 (b_FSMLim u)) p = sm_find (FSM2 (b_FSMLim b)) p)"

lemma load_rows_Suc: "load_rows b (Suc k) = load_rows b k @ [b_zeroAddr b + 4 * int k]"
  by (simp add: load_rows_def)

lemma load_progress_step:
  assumes "load_progress b k u"
  shows "\<exists>v. bind_load_row u = Inr v \<and> load_progress b (Suc k) v"
proof -
  have g: "binder_inv u" "b_zeroAddr u = b_zeroAddr b + 4 * int k" "b_instr u = b_instr b"
    using assms by (simp_all add: load_progress_def)
  obtain v where v: "bind_load_row u = Inr v" "binder_inv v" "b_zeroAddr v = b_zeroAddr u + 4" "b_instr v = b_instr u"
    "names_of v (b_destReg u) = names_of u (b_destReg u) @ [b_zeroAddr u]"
    "is_load_row v (b_zeroAddr u)" "sm_find (FSM2 (b_FSMLim v)) (b_zeroAddr u) = Some (ti (b_instr u))"
    "\<forall>p. p \<noteq> b_zeroAddr u \<longrightarrow> sm_find (b_MemArray v) p = sm_find (b_MemArray u) p \<and>
       sm_find (FSM2 (b_FSMLim v)) p = sm_find (FSM2 (b_FSMLim u)) p"
    using bind_load_row_effect[OF g(1)] by metis
  have new: "b_zeroAddr u \<notin> set (load_rows b k)" using g(2) by (auto simp: load_rows_def)
  have old: "is_load_row v p = is_load_row u p \<and> sm_find (FSM2 (b_FSMLim v)) p = sm_find (FSM2 (b_FSMLim u)) p"
    if p: "p \<in> set (load_rows b k)" for p
  proof -
    have "p \<noteq> b_zeroAddr u" using p new by blast
    then show ?thesis using v(8) by (simp add: is_load_row_def)
  qed
  have "load_progress b (Suc k) v"
    using assms v old new
    by (auto simp: load_progress_def load_rows_Suc)
  then show ?thesis using v(1) by blast
qed

lemma load_progress_run:
  assumes "binder_inv b"
  shows "\<exists>v. efold (\<lambda>i. bind_load_row) (map int [0..<k]) b = Inr v \<and> load_progress b k v"
proof (induction k)
  case 0
  then show ?case using assms by (simp add: load_progress_def load_rows_def)
next
  case (Suc k)
  then show ?case using load_progress_step by fastforce
qed

text \<open>
  C13: every element of a loaded operand gets a row of its own: the handler of the load of an array
  of \<open>n\<close> elements (of a variable, for \<open>n\<close> = 1) succeeds, the new names are those of \<open>n\<close> new rows,
  which have no memory input and are written at the load's start time, and no other row or time
  changes.
\<close>

theorem handleLoad_fresh_rows:
  assumes "binder_inv b"
    and "if isArray (b_InfoCollection b) (b_destReg b)
         then getArraySize (b_InfoCollection b) (b_destReg b) = Inr (int n) else n = 1"
  shows "\<exists>b'. handleLoadOperationBindingProcess b = Inr b' \<and> binder_inv b' \<and>
    names_of b' (b_destReg b) = names_of b (b_destReg b) @ load_rows b n \<and>
    distinct (load_rows b n) \<and> set (load_rows b n) \<inter> dom (sm_find (b_MemArray b)) = {} \<and>
    (\<forall>p \<in> set (load_rows b n). is_load_row b' p \<and> sm_find (FSM2 (b_FSMLim b')) p = Some (ti (b_instr b))) \<and>
    (\<forall>p. p \<notin> set (load_rows b n) \<longrightarrow> sm_find (b_MemArray b') p = sm_find (b_MemArray b) p \<and>
       sm_find (FSM2 (b_FSMLim b')) p = sm_find (FSM2 (b_FSMLim b)) p)"
proof -
  obtain v where v: "efold (\<lambda>i. bind_load_row) (map int [0..<n]) b = Inr v" "load_progress b n v"
    using load_progress_run[OF assms(1)] by blast
  have "handleLoadOperationBindingProcess b = Inr v"
    using assms(2) v(1)
    by (auto simp: handleLoadOperationBindingProcess_def for_loop_upt split: if_splits)
  moreover have "distinct (load_rows b n)" by (simp add: load_rows_def distinct_map inj_on_def)
  moreover have "set (load_rows b n) \<inter> dom (sm_find (b_MemArray b)) = {}"
    using binder_invD(7)[OF assms(1)] by (force simp: load_rows_def rows.names_below_def row_name_def)
  ultimately show ?thesis using v(2) unfolding load_progress_def by blast
qed

theorem handleLoad_fresh_rows_witness:
  "\<exists>b'. handleLoadOperationBindingProcess
       (sample_fp\<lparr>b_InfoCollection := blank_ci\<lparr>arraysInfoMap := [(108, [2, 3])]\<rparr>\<rparr>) = Inr b' \<and>
     names_of b' 108 = [16, 20, 24, 28, 32, 36]"
proof -
  let ?b = "sample_fp\<lparr>b_InfoCollection := blank_ci\<lparr>arraysInfoMap := [(108, [2, 3])]\<rparr>\<rparr>"
  have inv: "binder_inv ?b"
    using binder_invD(3)[OF sample_fp_inv] by (intro binder_inv_cong[OF sample_fp_inv]) simp_all
  have "load_rows ?b 6 = [16, 20, 24, 28, 32, 36]"
    by (simp add: load_rows_def sample_fp_def upt_rec)
  moreover have "names_of ?b 108 = []" "b_destReg ?b = 108"
    by (simp_all add: names_of_def sample_fp_def sample_b_defs)
  ultimately show ?thesis
    using handleLoad_fresh_rows[OF inv, of 6]
    by (auto simp: isArray_def getArraySize_def list_front_def list_back_def sample_fp_def sample_b_defs)
qed

text \<open>
  A shift of a loaded row by a constant writes the result \<open>floor(log2(constant)) + 1\<close> steps after
  the row itself, and that is all that it changes in the times: the steps in which the row is to be
  shifted are dropped, because the row has a time already.
\<close>

theorem shift_drops_intermediate_times:
  assumes "pending (b_dest b) b" "bind_shift b = Inr b'"
  shows "\<exists>t. sm_find (FSM2 (b_FSMLim b)) (b_src1 b) = Some t \<and>
    sm_find (FSM2 (b_FSMLim b')) =
      (sm_find (FSM2 (b_FSMLim b)))(b_dest b \<mapsto> t + int (floor_log2 (nat (b_constant b))) + 1)"
proof -
  have inv: "binder_inv b" and fresh: "b_dest b \<notin> dom (sm_find (FSM2 (b_FSMLim b)))"
    using assms(1) rows.fresh[of "b_dest b" "b_MemArray b"] binder_invD(9)[of b] by (auto simp: pending_def)
  obtain t m where s: "fsm_getTime (b_FSMLim b) (b_src1 b) = Inr t"
    "b_FSMLim b' = shift_times t (int (floor_log2 (nat (b_constant b)))) (b_src1 b) (b_dest b) (b_FSMLim b)"
    using assms(2) by (auto simp: bind_shift_def getNewName_def Let_def res_simps split: if_splits)
  have t: "sm_find (FSM2 (b_FSMLim b)) (b_src1 b) = Some t" using s(1) by (simp add: res_simps)
  have f: "fsm_inv (b_FSMLim b)" using store_ok_fsm(1)[OF binder_invD(1)[OF inv]] .
  have "b_FSMLim b' = addNewInstruction (t + int (floor_log2 (nat (b_constant b))) + 1) (b_dest b) (b_FSMLim b)"
    unfolding s(2) by (rule shift_times_effect[OF f t]) simp
  then show ?thesis
    using t f fresh by (auto simp: addNewInstruction_def fsm_inv_def sm_find_insert fun_eq_iff)
qed

definition sample_shift :: lim_binder where
  "sample_shift = (sample_b ''shl'' 0 4)\<lparr>b_constant := 8\<rparr>"

lemma sample_shift_pending: "pending (b_dest sample_shift) sample_shift"
proof -
  have r: "ready (sample_b ''shl'' 0 4)" by (rule sample_b_ready) simp_all
  then have "pending 8 (sample_b ''shl'' 0 4)" by (simp add: ready_def pending_def sample_b_def)
  then have "pending 8 sample_shift"
    by (rule pending_cong) (simp_all add: sample_shift_def sample_b_def)
  then show ?thesis by (simp add: sample_shift_def sample_b_def)
qed

theorem shift_drops_intermediate_times_witness:
  "\<exists>b'. bind_shift sample_shift = Inr b' \<and> sm_find (FSM2 (b_FSMLim b')) 8 = Some 4"
proof -
  have "\<exists>b'. bind_shift sample_shift = Inr b'"
    by (auto simp: bind_shift_def sample_shift_def sample_b_defs isLiMRowOfThisType_def findRow_def
        changeLiMRowType_def checkIfRowIsLiM_def fsm_getTime_def Let_def)
  then obtain b' where b': "bind_shift sample_shift = Inr b'" ..
  have "floor_log2 8 = 3" by (simp add: floor_log2.simps)
  then show ?thesis
    using shift_drops_intermediate_times[OF sample_shift_pending b'] b'
    by (auto simp: sample_shift_def sample_b_defs)
qed

text \<open>After the conjunction of rows 0 and 4 has been bound, their disjunction is dropped.\<close>

theorem performBinding_drops_other_operation_witness:
  "\<exists>b. binder_inv b \<and> common_dest b = Some 8 \<and> b_operation b = ''or'' \<and> performBinding b = Inr b \<and>
     sm_find (b_MemArray b) (b_dest b) = None"
proof -
  let ?a = "sample_b ''and'' 0 4"
  have a: "ready ?a" by (rule sample_b_ready) simp_all
  have a': "\<not> is_shift (b_operation ?a)" "common_dest ?a = None"
    by (simp_all add: is_shift_def common_dest_def sample_b_defs)
  obtain b' where b': "binder_inv b'" "store_grows (b_MemArray ?a) (b_FSMLim ?a) (b_MemArray b') (b_FSMLim b')"
    "remembers ?a b'" "stores_result (b_MemArray b') (b_operation ?a) (b_src1 ?a) (b_src2 ?a) (b_dest ?a)"
    using performBinding_new[OF a a'] by blast
  obtain d b1 where new: "getNewName b' = (d, b1)" by (cases "getNewName b'")
  have p: "pending d b1" using pending_new[OF b'(1) new] by simp
  let ?b = "b1\<lparr>b_dest := d, b_src1 := 0, b_src2 := 4, b_instr := binary_instruction ''or'' 112 singleVariable 100 singleVariable 104\<rparr>"
  have "pending d ?b" using p by (intro pending_cong[OF p]) (simp_all add: pending_def binder_inv_def)
  moreover have same: "b_MemArray ?b = b_MemArray b'" "b_lastDestMap ?b = b_lastDestMap b'"
    using new by (auto simp: getNewName_def)
  moreover have "{0, 4} \<subseteq> dom (sm_find (b_MemArray b'))"
    using array_extends_dom[of "b_MemArray ?a" "b_MemArray b'"] b'(2) by (auto simp: store_grows_def sample_b_defs)
  ultimately have ready: "ready ?b" by (simp add: ready_def pending_def binary_instruction_def)
  have common: "common_dest ?b = Some 8"
    using b'(3) unfolding common_dest_def same by (simp add: remembers_def sample_b_defs)
  obtain row eff rest erow where rows: "sm_find (b_MemArray ?b) 8 = Some row" "inputConnections row = eff # rest"
    "sm_find (b_MemArray ?b) eff = Some erow" "rowType erow = ''and''"
    using b'(4) unfolding same by (auto simp: stores_result_def computes_def sample_b_defs)
  have op: "b_operation ?b = ''or''" by (simp add: binary_instruction_def)
  have "performBinding ?b = Inr ?b \<and> sm_find (b_MemArray ?b) (b_dest ?b) = None"
    by (rule performBinding_drops_other_operation[OF ready common rows(1-3)]) (simp add: rows(4) binary_instruction_def)
  then show ?thesis using ready common op unfolding ready_def by blast
qed

end
