(* ===== verification/Bind_Accumulation.thy ===== *)
theory Bind_Accumulation
  imports Bind_Handlers "HOL-Library.Signed_Division" "HOL-Library.Multiset"
begin

text \<open>
  \<open>Binding/LiMBinder\<close>, the accumulations: \<open>performAccBinding\<close> reduces a list of rows to one row
  by rounds of pairwise operations, after reusing results that are in \<open>addMap\<close> already when the
  target is \<open>Accumulation\<close>; \<open>handleAccumulationBindingProcess\<close> builds the lists.

  Iterators of the working list that are moved past its end but not dereferenced are taken as
  harmless; \<open>front()\<close> of an empty list is undefined behaviour.
\<close>

section \<open>Lists\<close>

fun ceil_log2 :: "nat \<Rightarrow> nat" where
  "ceil_log2 n = (if n \<le> 1 then 0 else Suc (ceil_log2 ((n + 1) div 2)))"

declare ceil_log2.simps [simp del]

text \<open>\<open>std::list::merge\<close>: an element of the second list goes before the first larger one.\<close>

fun std_merge :: "ptr list \<Rightarrow> ptr list \<Rightarrow> ptr list" where
  "std_merge [] ys = ys"
| "std_merge xs [] = xs"
| "std_merge (x # xs) (y # ys) = (if y < x then y # std_merge (x # xs) ys else x # std_merge xs (y # ys))"

text \<open>
  Load rows and add rows in turn. At the head of each iteration of the loop \<open>tryLoad\<close> is true and
  \<open>tryAdd\<close> false.
\<close>

fun alternate :: "ptr list \<Rightarrow> ptr list \<Rightarrow> ptr list" where
  "alternate [] [] = []"
| "alternate (l # ls) [] = l # alternate ls []"
| "alternate [] (a # as) = a # alternate [] as"
| "alternate (l # ls) (a # as) = l # a # alternate ls as"

text \<open>\<open>push_back(*it); erase(it)\<close> at each even position.\<close>

definition move_to_back :: "nat \<Rightarrow> ptr list \<Rightarrow> ptr list" where
  "move_to_back i l = take i l @ drop (Suc i) l @ [l ! i]"

definition reorganize :: "nat \<Rightarrow> ptr list \<Rightarrow> ptr list" where
  "reorganize n l = fold (\<lambda>i l. if i mod 2 = 0 then move_to_back i l else l) [0..<n] l"

section \<open>Reuse of results\<close>

fun find_partner :: "(ptr, ptr list) smap \<Rightarrow> ptr \<Rightarrow> ptr list \<Rightarrow> (ptr \<times> ptr) option res" where
  "find_partner m x [] = Inr None"
| "find_partner m x (y # ys) =
     ebind (searchForResult m x y) (\<lambda>r.
       if r \<noteq> nullptr then Inr (Some (r, y)) else find_partner m x ys)"

text \<open>
  One round over the accumulation list: the loop state is the position, the list, the results for
  the next round, the rows that remain for this time, and whether something was reused.
\<close>

function reduce_round ::
  "(ptr, ptr list) smap \<Rightarrow> nat \<Rightarrow> ptr list \<Rightarrow> ptr list \<Rightarrow> ptr list \<Rightarrow> bool
   \<Rightarrow> (ptr list \<times> ptr list \<times> bool) res" where
  "reduce_round m k cur nextList remainList red =
     (if k < length cur then
        ebind (find_partner m (cur ! k) (drop (Suc k) cur)) (\<lambda>r.
          case r of
            Some (res, y) \<Rightarrow> reduce_round m (Suc k) (removeAll y cur) (nextList @ [res]) remainList True
          | None \<Rightarrow> reduce_round m (Suc k) cur nextList (remainList @ [cur ! k]) red)
      else Inr (nextList, remainList, red))"
  by pat_completeness auto
termination
proof (relation "measure (\<lambda>(m, k, cur, _). length cur - k)")
  fix m k and cur :: "ptr list" and nextList remainList red r p res y
  assume "k < length cur"
  moreover have "length (removeAll y cur) \<le> length cur" by (simp add: removeAll_filter_not_eq)
  ultimately have "length (removeAll y cur) - Suc k < length cur - k" by linarith
  then show "((m, Suc k, removeAll y cur, nextList @ [res], remainList, True),
      (m, k, cur, nextList, remainList, red)) \<in> measure (\<lambda>(m, k, cur, _). length cur - k)"
    by simp
qed auto

declare reduce_round.simps [simp del]

type_synonym accumulationListTime = "(int, ptr list) smap"

function reduce_loop ::
  "(ptr, ptr list) smap \<Rightarrow> nat \<Rightarrow> nat \<Rightarrow> ptr list \<Rightarrow> accumulationListTime \<Rightarrow> bool
   \<Rightarrow> (nat \<times> ptr list \<times> accumulationListTime \<times> bool) res" where
  "reduce_loop m timeLimit time cur alt red =
     (if red \<and> time < timeLimit then
        ebind (reduce_round m 0 cur [] [] False) (\<lambda>(nextList, remainList, red).
          reduce_loop m timeLimit (Suc time) nextList (sm_insert (int time) remainList alt) red)
      else Inr (time, cur, alt, red))"
  by pat_completeness auto
termination
  by (relation "measure (\<lambda>(m, timeLimit, time, _). timeLimit - time)") auto

declare reduce_loop.simps [simp del]

definition acc_list_time :: "lim_binder \<Rightarrow> ptr list \<Rightarrow> nat \<Rightarrow> accumulationListTime res" where
  "acc_list_time b accumulationList steps =
     ebind (reduce_loop (b_addMap b) (if b_optTarget b = ''Accumulation'' then steps else 0)
              0 accumulationList [] True) (\<lambda>(time, cur, alt, red).
       let alt = (if red then sm_insert (int time) cur alt else alt);
           (alt, time) = (if time = 0 then (sm_insert 0 accumulationList alt, 1) else (alt, time));
           alt = fold (\<lambda>i. sm_insert (int i) []) [time..<steps] alt
       in ebind (or_fail (UB ''accumulationListTime has no entry for time 0'') (sm_find alt 0)) (\<lambda>l0.
          Inr (if length l0 = length accumulationList
               then sm_modify 0 (reorganize (length accumulationList)) alt else alt)))"

section \<open>One pair\<close>

definition acc_result :: "ptr \<Rightarrow> ptr \<Rightarrow> ptr \<Rightarrow> lim_binder \<Rightarrow> (ptr \<times> lim_binder) res" where
  "acc_result eff x1 x2 b0 =
     (case getNewName b0 of (tmpName, b) \<Rightarrow>
      ebind (later_time (b_FSMLim b) x1 x2) (\<lambda>t.
        Inr (tmpName, b\<lparr>b_addMap := sm_insert tmpName [x1, x2] (b_addMap b),
                       b_MemArray := addNewResultRow tmpName (b_par b) eff ''OLiM'' (b_MemArray b),
                       b_FSMLim := addNewInstruction t tmpName (b_FSMLim b)\<rparr>)))"

definition acc_copy :: "ptr \<Rightarrow> ptr \<Rightarrow> lim_binder \<Rightarrow> (ptr \<times> lim_binder) res" where
  "acc_copy x1 x2 b0 =
     (case getNewName b0 of (copyRow, b) \<Rightarrow>
      ebind (addNewInputConnection copyRow x2 ''OC''
               (addNewLiMRow copyRow (b_operation b) (b_specifications b) (b_par b) x1 ''OC'' (b_MemArray b))) (\<lambda>m.
      ebind (later_time (b_FSMLim b) x1 x2) (\<lambda>tCopy.
        case getNewName (b\<lparr>b_MemArray := m, b_FSMLim := addNewInstruction tCopy copyRow (b_FSMLim b)\<rparr>) of (tmpName, b) \<Rightarrow>
        Inr (tmpName, b\<lparr>b_MemArray := addNewResultRow tmpName (b_par b) copyRow ''OLiM'' (b_MemArray b),
                       b_FSMLim := addNewInstruction (tCopy + 1) tmpName (b_FSMLim b)\<rparr>))))"

definition acc_pair :: "ptr \<Rightarrow> ptr \<Rightarrow> lim_binder \<Rightarrow> (ptr \<times> lim_binder) res" where
  "acc_pair x1 x2 b =
     ebind (changeLiMRowType x2 (b_operation b) (b_specifications b) (b_MemArray b)) (\<lambda>(ok2, m).
     if ok2 then
       ebind (addNewInputConnection x2 x1 ''OC'' m) (\<lambda>m. acc_result x2 x1 x2 (b\<lparr>b_MemArray := m\<rparr>)) else
     ebind (changeLiMRowType x1 (b_operation b) (b_specifications b) (b_MemArray b)) (\<lambda>(ok1, m).
     if ok1 then
       ebind (addNewInputConnection x1 x2 ''OC'' m) (\<lambda>m. acc_result x1 x1 x2 (b\<lparr>b_MemArray := m\<rparr>))
     else acc_copy x1 x2 b))"

fun acc_pairs :: "ptr list \<Rightarrow> lim_binder \<Rightarrow> (ptr list \<times> lim_binder) res" where
  "acc_pairs (x1 # x2 # xs) b =
     ebind (acc_pair x1 x2 b) (\<lambda>(t, b). ebind (acc_pairs xs b) (\<lambda>(ts, b). Inr (t # ts, b)))"
| "acc_pairs xs b = Inr (xs, b)"

section \<open>The rounds\<close>

fun split_rows :: "limArray \<Rightarrow> ptr list \<Rightarrow> (ptr list \<times> ptr list) res" where
  "split_rows m [] = Inr ([], [])"
| "split_rows m (x # xs) =
     ebind (isLiMRowOfThisType m x ''add'') (\<lambda>isAdd.
     ebind (split_rows m xs) (\<lambda>(addRows, loadRows).
       Inr (if isAdd then (x # addRows, loadRows) else (addRows, x # loadRows))))"

definition acc_round ::
  "accumulationListTime \<Rightarrow> nat \<Rightarrow> nat \<Rightarrow> ptr list \<times> lim_binder \<Rightarrow> (ptr list \<times> lim_binder) res" where
  "acc_round alt steps i = (\<lambda>(cur, b).
     ebind (or_fail (UB ''accumulationListTime read at its end'') (sm_find alt (int i))) (\<lambda>l.
     ebind (split_rows (b_MemArray b) (std_merge cur l)) (\<lambda>(addRows, loadRows).
     ebind (acc_pairs (alternate loadRows addRows) b) (\<lambda>(cur, b).
       if i + 1 = steps
       then ebind (list_front cur) (\<lambda>r. Inr (cur, addNewItem (b_destReg b) r b))
       else Inr (cur, b)))))"

definition performAccBinding :: "ptr list \<Rightarrow> lim_binder \<Rightarrow> lim_binder res" where
  "performAccBinding accumulationList b =
     (if accumulationList = [] then Inl (UB ''ceil(log2(0)) has no int value'')
      else let steps = ceil_log2 (length accumulationList) in
        ebind (acc_list_time b accumulationList steps) (\<lambda>alt.
        ebind (efold (acc_round alt steps) [0..<steps] ([], b)) (\<lambda>(cur, b).
          if steps = 0 then ebind (list_front cur) (\<lambda>r. Inr (addNewItem (b_destReg b) r b))
          else Inr b)))"

section \<open>The handler\<close>

definition acc_subset :: "addressList \<Rightarrow> int \<Rightarrow> int \<Rightarrow> int \<Rightarrow> (ptr list \<times> int) res" where
  "acc_subset l cols i skipElements =
     (if cols = 0 then Inl (UB ''division by arrayCols = 0'')
      else let n = (if i sdiv cols = 0 then i + 1 else (i sdiv cols + 1) * (i smod cols + 1)) in
        ebind (getSubset l i n skipElements) (\<lambda>tmp. Inr (tmp, skipElements + n)))"

definition acc_operands :: "lim_binder \<Rightarrow> lim_binder res" where
  "acc_operands b =
     (let I = b_instr b; ci = b_InfoCollection b in
      ebind (iteration_counts (LIT ci) (getIterationVector (LIT ci) (loopIterator (b_srcReg1PointerInfo b)))) (\<lambda>its1.
      ebind (iteration_counts (LIT ci) (getIterationVector (LIT ci) (loopIterator (b_srcReg2PointerInfo b)))) (\<lambda>its2.
      ebind (case srcReg1Type I of
          singleVariable \<Rightarrow> ebind (findInANM b (sourceReg1 I)) (\<lambda>l. Inr (b\<lparr>b_addrListSrc1 := l\<rparr>))
        | fakeArray \<Rightarrow> ebind (findInANM b (sourceReg1 I)) (\<lambda>l. Inr (b\<lparr>b_addrListSrc1 := l\<rparr>))
        | arrayOperand \<Rightarrow>
            ebind (getPointerInfo (PIT ci) (srcReg1Ptr I)) (\<lambda>info.
            ebind (findInANM b (sourceReg1 I)) (\<lambda>l.
            ebind (shapeAddressList l info) (\<lambda>l.
              Inr (b\<lparr>b_srcReg1PointerInfo := info, b_addrListSrc1 := l\<rparr>))))
        | _ \<Rightarrow> Inr b) (\<lambda>b.
      case srcReg2Type I of
          arrayOperand \<Rightarrow>
            ebind (getPointerInfo (PIT ci) (srcReg2Ptr I)) (\<lambda>info.
            ebind (shapeAddressList (b_addrListSrc2 b) info) (\<lambda>l.
            ebind (expandAddressList l info its2) (\<lambda>l.
              Inr (b\<lparr>b_srcReg2PointerInfo := info, b_addrListSrc2 := l\<rparr>))))
        | fakeArray \<Rightarrow> ebind (findInANM b (sourceReg2 I)) (\<lambda>l. Inr (b\<lparr>b_addrListSrc2 := l\<rparr>))
        | _ \<Rightarrow> Inr b))))"

definition acc_variable_step :: "int \<Rightarrow> int \<Rightarrow> int \<times> lim_binder \<Rightarrow> (int \<times> lim_binder) res" where
  "acc_variable_step cols i = (\<lambda>(skipElements, b).
     ebind (acc_subset (b_addrListSrc1 b) cols i skipElements) (\<lambda>(tmpAccList, skipElements).
     ebind (list_at (b_addrListSrc1 b) i) (\<lambda>a.
     ebind (performAccBinding (tmpAccList @ [a]) b) (\<lambda>b. Inr (skipElements, b)))))"

definition acc_variable_bound :: "lim_binder \<Rightarrow> lim_binder res" where
  "acc_variable_bound b0 =
     ebind (for_loop 0 (numberOfSubsetsElements (b_srcReg2PointerInfo b0)) 1
        (acc_variable_step (arrayCols (b_srcReg2PointerInfo b0))) (0, b0)) (\<lambda>(_, b). Inr b)"

text \<open>In the other branch the list is never cleared: the elements pile up.\<close>

definition acc_constant_step :: "int \<Rightarrow> ptr list \<times> lim_binder \<Rightarrow> (ptr list \<times> lim_binder) res" where
  "acc_constant_step i = (\<lambda>(tmpAccList, b).
     ebind (list_at (b_addrListSrc1 b) i) (\<lambda>a.
     ebind (performAccBinding (tmpAccList @ [a]) b) (\<lambda>b. Inr (tmpAccList @ [a], b))))"

definition acc_constant_bound :: "lim_binder \<Rightarrow> lim_binder res" where
  "acc_constant_bound b0 =
     ebind (for_loop 0 (numberOfSubsets (b_srcReg2PointerInfo b0)) 1 acc_constant_step ([], b0))
       (\<lambda>(_, b). Inr b)"

definition handleAccumulationBindingProcess :: "lim_binder \<Rightarrow> lim_binder res" where
  "handleAccumulationBindingProcess b0 =
     ebind (acc_operands b0) (\<lambda>b.
     ebind (list_front (iterators (firstIdxInfo (b_srcReg1PointerInfo b)))) (\<lambda>it.
     ebind (getLoopInfo (LIT (b_InfoCollection b)) it) (\<lambda>info.
       if \<not> isFinalValueConstant info then acc_variable_bound b else acc_constant_bound b)))"

end
