(* ===== verification/Accumulation_Proofs.thy ===== *)
theory Accumulation_Proofs
  imports Bind_Accumulation
begin

text \<open>
  What the accumulation computes: a balanced reduction of the rows of the list to one row, in which
  every row of the list occurs once; and where it reads the front of an empty list.
\<close>

section \<open>Lists\<close>

lemma mset_alternate: "mset (alternate ls as) = mset ls + mset as"
  by (induction ls as rule: alternate.induct) auto

lemma mset_std_merge: "mset (std_merge xs ys) = mset xs + mset ys"
  by (induction xs ys rule: std_merge.induct) auto

lemma mset_move_to_back: "i < length l \<Longrightarrow> mset (move_to_back i l) = mset l"
proof -
  assume "i < length l"
  then have "l = take i l @ [l ! i] @ drop (Suc i) l" by (simp add: id_take_nth_drop)
  then have "mset l = mset (take i l) + ({#l ! i#} + mset (drop (Suc i) l))" by (metis mset_append mset_single_iff)
  then show ?thesis by (simp add: move_to_back_def)
qed

lemma mset_reorganize: "mset (reorganize (length l) l) = mset l"
proof -
  have "mset (fold (\<lambda>i l. if i mod 2 = 0 then move_to_back i l else l) is l) = mset l"
    if "\<forall>i \<in> set is. i < length l" for "is" :: "nat list" and l :: "ptr list"
    using that
  proof (induction "is" arbitrary: l)
    case (Cons i "is")
    have "mset (move_to_back i l) = mset l" using Cons.prems by (simp add: mset_move_to_back)
    moreover from this have "length (move_to_back i l) = length l" by (metis size_mset)
    ultimately show ?case using Cons by simp
  qed simp
  then show ?thesis by (simp add: reorganize_def)
qed

lemma ceil_log2_halve: "2 \<le> n \<Longrightarrow> ceil_log2 n = Suc (ceil_log2 ((n + 1) div 2))"
  by (subst ceil_log2.simps) simp

lemma ceil_log2_bounds: "1 \<le> n \<Longrightarrow> n \<le> 2 ^ ceil_log2 n \<and> (ceil_log2 n = 0 \<or> 2 ^ (ceil_log2 n - 1) < n)"
proof (induction n rule: ceil_log2.induct)
  case (1 n)
  show ?case
  proof (cases "n \<le> 1")
    case True
    then show ?thesis by (subst ceil_log2.simps) (simp add: ceil_log2.simps[of n])
  next
    case False
    define c where "c = ceil_log2 ((n + 1) div 2)"
    have n: "ceil_log2 n = Suc c" using False by (simp add: ceil_log2_halve c_def)
    have ih: "(n + 1) div 2 \<le> 2 ^ c" "c = 0 \<or> 2 ^ (c - 1) < (n + 1) div 2"
      using "1" False unfolding c_def by auto
    have "n \<le> 2 * 2 ^ c" using ih(1) by linarith
    moreover have "2 ^ c < n"
    proof (cases c)
      case 0
      then show ?thesis using False by simp
    next
      case (Suc c')
      then have "2 ^ c' < (n + 1) div 2" using ih(2) by simp
      then show ?thesis using Suc by simp
    qed
    ultimately show ?thesis using n by simp
  qed
qed

text \<open>A permutation of the images is the image of a permutation.\<close>

lemma mset_map_permute: "mset ys = mset (map f xs) \<Longrightarrow> \<exists>xs'. mset xs' = mset xs \<and> map f xs' = ys"
proof (induction ys arbitrary: xs)
  case (Cons y ys)
  then have "y \<in> set (map f xs)" by (metis list.set_intros(1) mset_eq_setD)
  then obtain x where x: "x \<in> set xs" "f x = y" by auto
  have "mset ys = mset (map f (remove1 x xs))"
    using Cons.prems[symmetric] x by (simp add: image_mset_Diff)
  then obtain xs' where "mset xs' = mset (remove1 x xs)" "map f xs' = ys" using Cons.IH by blast
  then show ?case using x by (intro exI[of _ "x # xs'"]) simp
qed simp

section \<open>What a row sums up\<close>

inductive sums :: "limArray \<Rightarrow> string \<Rightarrow> ptr \<Rightarrow> ptr multiset \<Rightarrow> bool" for m :: limArray and op :: string where
  leaf: "p \<in> dom (sm_find m) \<Longrightarrow> sums m op p {#p#}"
| node: "stores_result m op p q r \<Longrightarrow> sums m op p A \<Longrightarrow> sums m op q B \<Longrightarrow> sums m op r (A + B)"

inductive_cases sums_single: "sums m op p {#q#}"

lemma sums_dom: "sums m op p A \<Longrightarrow> p \<in> dom (sm_find m)"
  by (induction rule: sums.induct) (auto dest: stores_result_dom)

lemma sums_extends:
  assumes "sums m op p A" "array_extends m m'" "op \<noteq> ''load''"
  shows "sums m' op p A"
  using assms(1)
proof (induction rule: sums.induct)
  case (leaf p)
  then show ?case using array_extends_dom[OF assms(2)] by (intro sums.leaf) blast
next
  case (node p q r A B)
  then show ?case using stores_result_extends[OF assms(2,3)] by (intro sums.node) blast+
qed

text \<open>A list of rows, with what each of them sums up; \<open>S\<close> is the total.\<close>

definition summed :: "limArray \<Rightarrow> string \<Rightarrow> ptr list \<Rightarrow> ptr multiset \<Rightarrow> bool" where
  "summed m op l S \<longleftrightarrow> (\<exists>P. map fst P = l \<and> (\<forall>(p, A) \<in> set P. sums m op p A) \<and> sum_list (map snd P) = S)"

lemma summed_leaves: "set l \<subseteq> dom (sm_find m) \<Longrightarrow> summed m op l (mset l)"
proof (induction l)
  case (Cons p l)
  then obtain P where "map fst P = l" "\<forall>(p, A) \<in> set P. sums m op p A" "sum_list (map snd P) = mset l"
    by (auto simp: summed_def)
  then show ?case
    unfolding summed_def using Cons.prems sums.leaf[of p m op]
    by (intro exI[of _ "(p, {#p#}) # P"]) auto
qed (auto simp: summed_def)

lemma summed_permute:
  assumes "summed m op l S" "mset l' = mset l"
  shows "summed m op l' S"
proof -
  obtain P where P: "map fst P = l" "\<forall>(p, A) \<in> set P. sums m op p A" "sum_list (map snd P) = S"
    using assms(1) by (auto simp: summed_def)
  obtain P' where P': "mset P' = mset P" "map fst P' = l'"
    using mset_map_permute[of l' fst P] assms(2) P(1) by auto
  have "sum_list (map snd P') = sum_list (map snd P)"
    using P'(1) by (metis mset_map sum_mset_sum_list)
  moreover have "set P' = set P" using P'(1) by (rule mset_eq_setD)
  ultimately show ?thesis unfolding summed_def using P P'(2) by (intro exI[of _ P']) simp
qed

lemma summed_extends:
  "summed m op l S \<Longrightarrow> array_extends m m' \<Longrightarrow> op \<noteq> ''load'' \<Longrightarrow> summed m' op l S"
  unfolding summed_def by (fastforce dest: sums_extends)

lemma summed_dom: "summed m op l S \<Longrightarrow> set l \<subseteq> dom (sm_find m)"
  unfolding summed_def by (force dest: sums_dom)

lemma summed_Cons_iff:
  "summed m op (p # l) S = (\<exists>A B. sums m op p A \<and> summed m op l B \<and> S = A + B)"
proof
  assume "summed m op (p # l) S"
  then obtain P where P: "map fst P = p # l" "\<forall>(p, A) \<in> set P. sums m op p A" "sum_list (map snd P) = S"
    unfolding summed_def by (elim exE conjE) (rule that)
  obtain pa Q where PQ: "P = pa # Q" "fst pa = p" "map fst Q = l" using P(1) by (cases P) auto
  have "summed m op l (sum_list (map snd Q))" using P(2) PQ(1,3) by (auto simp: summed_def)
  moreover have "sums m op p (snd pa)" using P(2) PQ(1,2) by (cases pa) auto
  ultimately show "\<exists>A B. sums m op p A \<and> summed m op l B \<and> S = A + B" using P(3) PQ(1) by auto
next
  assume "\<exists>A B. sums m op p A \<and> summed m op l B \<and> S = A + B"
  then obtain A B P where "sums m op p A" "S = A + B" "map fst P = l" "\<forall>(p, A) \<in> set P. sums m op p A"
    "sum_list (map snd P) = B"
    by (auto simp: summed_def)
  then show "summed m op (p # l) S" unfolding summed_def by (intro exI[of _ "(p, A) # P"]) auto
qed

lemma summed_Nil_iff [simp]: "summed m op [] S \<longleftrightarrow> S = {#}"
  by (auto simp: summed_def)

section \<open>One pair\<close>

definition acc_kept :: "lim_binder \<Rightarrow> lim_binder \<Rightarrow> bool" where
  "acc_kept b b' \<longleftrightarrow> binder_inv b' \<and> store_grows (b_MemArray b) (b_FSMLim b) (b_MemArray b') (b_FSMLim b') \<and>
     b_instr b' = b_instr b \<and> b_arrayNamesMap b' = b_arrayNamesMap b"

lemma acc_kept_trans: "acc_kept a b \<Longrightarrow> acc_kept b c \<Longrightarrow> acc_kept a c"
  by (auto simp: acc_kept_def intro: store_grows_trans)

lemma binder_inv_array:
  assumes "binder_inv b" "array_inv m" "array_extends (b_MemArray b) m"
    "dom (sm_find m) = dom (sm_find (b_MemArray b))" "connected m"
  shows "binder_inv (b\<lparr>b_MemArray := m\<rparr>)"
proof -
  note i = binder_invD[OF assms(1)]
  have "last_dest_ok (b\<lparr>b_MemArray := m\<rparr>)" using assms(3) by (intro last_dest_ok_extends[OF i(2)]) simp_all
  then show ?thesis using store_ok_same_dom[OF i(1) assms(2,5,4)] i by (simp add: binder_inv_def)
qed

text \<open>A new row that stores the output of \<open>eff\<close>, under the next name.\<close>

lemma store_row_ok:
  assumes "binder_inv b" "getNewName b = (tmp, b1)" "eff \<in> dom (sm_find (b_MemArray b))"
    and "computes (b_MemArray b) op x1 x2 eff" "op \<noteq> ''load''" "sm_inv am"
    and "b' = b1\<lparr>b_addMap := am, b_MemArray := addNewResultRow tmp (b_par b1) eff ''OLiM'' (b_MemArray b1),
                 b_FSMLim := addNewInstruction t tmp (b_FSMLim b1)\<rparr>"
  shows "acc_kept b b' \<and> stores_result (b_MemArray b') op x1 x2 tmp"
proof -
  have b1: "b_MemArray b1 = b_MemArray b" "b_FSMLim b1 = b_FSMLim b" "b_instr b1 = b_instr b"
    "b_arrayNamesMap b1 = b_arrayNamesMap b" "b_lastDestMap b1 = b_lastDestMap b"
    using assms(2) by (auto simp: getNewName_def)
  let ?b = "b1\<lparr>b_addMap := am\<rparr>"
  let ?row = "\<lparr>rowType = ''load'', rowLength = b_par b1, inputConnections = [eff],
      inputConnectionsType = [''OLiM''], additionalLogic = []\<rparr>"
  have "pending tmp b1" using pending_new[OF assms(1,2)] by simp
  then have p: "pending tmp ?b"
    using assms(6) last_dest_ok_extends[of b1 ?b] by (auto simp: pending_def binder_inv_def)
  have row: "row_wf ?row" "set (inputConnections ?row) \<subseteq> {no_input} \<union> dom (sm_find (b_MemArray ?b))"
    using assms(3) b1 by (simp_all add: row_wf_def)
  have b': "b' = ?b\<lparr>b_MemArray := sm_insert tmp ?row (b_MemArray ?b), b_FSMLim := addNewInstruction t tmp (b_FSMLim ?b)\<rparr>"
    using assms(7) by (simp add: addNewResultRow_def)
  note add = pending_add[OF p row b']
  have "stores_result (b_MemArray b') op x1 x2 tmp"
    using add computes_extends[OF _ assms(5,4), of "b_MemArray b'"] b1
    by (auto simp: stores_result_def store_grows_def)
  then show ?thesis using add b1 b' by (simp add: acc_kept_def)
qed

lemma acc_result_ok:
  assumes "binder_inv b" "eff \<in> dom (sm_find (b_MemArray b))" "computes (b_MemArray b) op x1 x2 eff" "op \<noteq> ''load''"
    and "x1 \<in> dom (sm_find (b_MemArray b))" "x2 \<in> dom (sm_find (b_MemArray b))"
  shows "\<exists>t b'. acc_result eff x1 x2 b = Inr (t, b') \<and> acc_kept b b' \<and> stores_result (b_MemArray b') op x1 x2 t"
proof -
  obtain tmp b1 where new: "getNewName b = (tmp, b1)" by (cases "getNewName b")
  have b1: "b_FSMLim b1 = b_FSMLim b" "b_addMap b1 = b_addMap b" using new by (auto simp: getNewName_def)
  note i = binder_invD[OF assms(1)]
  obtain t where t: "later_time (b_FSMLim b1) x1 x2 = Inr t"
    using later_time_Inr[of x1 "b_FSMLim b" x2] assms(5,6) i(9) b1 by auto
  have am: "sm_inv (sm_insert tmp [x1, x2] (b_addMap b1))" using i(4) b1 by auto
  show ?thesis
    using store_row_ok[OF assms(1) new assms(2,3,4) am HOL.refl, of t] new t
    by (simp add: acc_result_def)
qed

lemma acc_copy_ok:
  assumes "binder_inv b" "b_operation b \<noteq> ''load''"
    and "x1 \<in> dom (sm_find (b_MemArray b))" "x2 \<in> dom (sm_find (b_MemArray b))"
  shows "\<exists>t b'. acc_copy x1 x2 b = Inr (t, b') \<and> acc_kept b b' \<and> stores_result (b_MemArray b') (b_operation b) x1 x2 t"
proof -
  obtain c b1 where new: "getNewName b = (c, b1)" by (cases "getNewName b")
  have b1: "b_MemArray b1 = b_MemArray b" "b_FSMLim b1 = b_FSMLim b" "b_instr b1 = b_instr b" "b_par b1 = b_par b"
    "b_arrayNamesMap b1 = b_arrayNamesMap b" using new by (auto simp: getNewName_def)
  note i = binder_invD[OF assms(1)]
  obtain t where t: "later_time (b_FSMLim b1) x1 x2 = Inr t"
    using later_time_Inr[of x1 "b_FSMLim b" x2] assms(3,4) i(9) b1 by auto
  let ?row = "\<lparr>rowType = b_operation b, rowLength = b_par b, inputConnections = [x1],
        inputConnectionsType = [''OC''], additionalLogic = b_specifications b\<rparr>"
  let ?b2 = "b1\<lparr>b_MemArray := sm_insert c ?row (b_MemArray b1), b_FSMLim := addNewInstruction t c (b_FSMLim b1)\<rparr>"
  have p: "pending c b1" using pending_new[OF assms(1) new] by simp
  have b2: "binder_inv ?b2" "store_grows (b_MemArray b1) (b_FSMLim b1) (b_MemArray ?b2) (b_FSMLim ?b2)"
    "sm_find (b_MemArray ?b2) c = Some ?row"
    using pending_add[OF p, of ?row ?b2 t] assms(3) b1 by (simp_all add: row_wf_def)
  have inv2: "array_inv (b_MemArray ?b2)" "connected (b_MemArray ?b2)"
    using binder_invD(1)[OF b2(1)] by (auto simp: store_ok_def)
  have x2: "x2 \<in> dom (sm_find (b_MemArray ?b2))"
    using array_extends_dom[of "b_MemArray b1" "b_MemArray ?b2"] b2(2) assms(4) b1
    unfolding store_grows_def by auto
  obtain m row' where m: "addNewInputConnection c x2 ''OC'' (b_MemArray ?b2) = Inr m" "array_inv m"
    "array_extends (b_MemArray ?b2) m" "dom (sm_find m) = dom (sm_find (b_MemArray ?b2))" "connected m"
    "sm_find m c = Some row'" "rowType row' = rowType ?row" "x2 \<in> set (inputConnections row')"
    using connect_row[OF inv2 b2(3) x2] by blast
  have "x1 \<in> set (inputConnections row')"
    using array_extendsD[OF m(3) b2(3) m(6)] by (auto simp: row_extends_def dest: set_mono_prefix)
  then have comp: "computes m (b_operation b) x1 x2 c" using m(6-8) by (auto simp: computes_def)
  let ?b3 = "?b2\<lparr>b_MemArray := m\<rparr>"
  have b3: "binder_inv ?b3" by (rule binder_inv_array[OF b2(1) m(2-5)])
  have kept3: "acc_kept b ?b3"
    using b3 b2(2) m(3) b1 by (auto simp: acc_kept_def store_grows_def intro: array_extends_trans)
  obtain tmp b4 where new4: "getNewName ?b3 = (tmp, b4)" by (cases "getNewName ?b3")
  have c: "c \<in> dom (sm_find (b_MemArray ?b3))" using m(6) by auto
  have am: "sm_inv (b_addMap b4)" using binder_invD(4)[OF b3] new4 by (auto simp: getNewName_def)
  let ?b' = "b4\<lparr>b_MemArray := addNewResultRow tmp (b_par b4) c ''OLiM'' (b_MemArray b4),
                b_FSMLim := addNewInstruction (t + 1) tmp (b_FSMLim b4)\<rparr>"
  have b': "?b' = b4\<lparr>b_addMap := b_addMap b4, b_MemArray := addNewResultRow tmp (b_par b4) c ''OLiM'' (b_MemArray b4),
                b_FSMLim := addNewInstruction (t + 1) tmp (b_FSMLim b4)\<rparr>" by simp
  have "acc_kept ?b3 ?b' \<and> stores_result (b_MemArray ?b') (b_operation b) x1 x2 tmp"
    using store_row_ok[OF b3 new4 c _ assms(2) am b'] comp by simp
  moreover have "b1\<lparr>b_MemArray := m, b_FSMLim := addNewInstruction t c (b_FSMLim b1)\<rparr> = ?b3"
    by (rule lim_binder.equality) simp_all
  then have "getNewName (b1\<lparr>b_MemArray := m, b_FSMLim := addNewInstruction t c (b_FSMLim b1)\<rparr>) = (tmp, b4)"
    using new4 by (rule ssubst)
  then have "acc_copy x1 x2 b = Inr (tmp, ?b')"
    using new t m(1) b1(1,3,4) by (simp add: acc_copy_def addNewLiMRow_def)
  ultimately show ?thesis using acc_kept_trans[OF kept3] by blast
qed

lemma acc_pair_ok:
  assumes "binder_inv b" "b_operation b \<noteq> ''load''"
    and "x1 \<in> dom (sm_find (b_MemArray b))" "x2 \<in> dom (sm_find (b_MemArray b))"
  shows "\<exists>t b'. acc_pair x1 x2 b = Inr (t, b') \<and> acc_kept b b' \<and> stores_result (b_MemArray b') (b_operation b) x1 x2 t"
proof -
  have ci: "array_inv (b_MemArray b)" "connected (b_MemArray b)"
    using binder_invD(1)[OF assms(1)] by (auto simp: store_ok_def)
  have connected_pair: "\<exists>t b' m'. addNewInputConnection row src ''OC'' m = Inr m' \<and>
      acc_result row x1 x2 (b\<lparr>b_MemArray := m'\<rparr>) = Inr (t, b') \<and> acc_kept b b' \<and>
      stores_result (b_MemArray b') (b_operation b) x1 x2 t"
    if m: "array_inv m" "array_extends (b_MemArray b) m" "dom (sm_find m) = dom (sm_find (b_MemArray b))" "connected m"
      "\<exists>r. sm_find m row = Some r \<and> rowType r = b_operation b"
      "row = x2 \<and> src = x1 \<or> row = x1 \<and> src = x2" for m row src
  proof -
    obtain r where r: "sm_find m row = Some r" "rowType r = b_operation b" using m(5) by blast
    have src: "src \<in> dom (sm_find m)" using m(3,6) assms(3,4) by auto
    obtain m' r' where m': "addNewInputConnection row src ''OC'' m = Inr m'" "array_inv m'" "array_extends m m'"
      "dom (sm_find m') = dom (sm_find m)" "connected m'" "sm_find m' row = Some r'" "rowType r' = rowType r"
      "src \<in> set (inputConnections r')"
      using connect_row[OF m(1,4) r(1) src] by blast
    have comp: "computes m' (b_operation b) x1 x2 row" using m'(6-8) r(2) m(6) by (auto simp: computes_def)
    let ?b = "b\<lparr>b_MemArray := m'\<rparr>"
    have inv: "binder_inv ?b"
      using m'(4) m(3) by (intro binder_inv_array[OF assms(1) m'(2) array_extends_trans[OF m(2) m'(3)] _ m'(5)]) simp
    have kept: "acc_kept b ?b"
      using inv array_extends_trans[OF m(2) m'(3)] by (simp add: acc_kept_def store_grows_def)
    have dom: "row \<in> dom (sm_find (b_MemArray ?b))" "x1 \<in> dom (sm_find (b_MemArray ?b))" "x2 \<in> dom (sm_find (b_MemArray ?b))"
      using m'(4,6) m(3) assms(3,4) by auto
    show ?thesis
      using acc_result_ok[OF inv dom(1) _ assms(2) dom(2,3)] comp m'(1) acc_kept_trans[OF kept] by fastforce
  qed
  obtain ok2 m2 where c2: "changeLiMRowType x2 (b_operation b) (b_specifications b) (b_MemArray b) = Inr (ok2, m2)"
    "array_inv m2" "array_extends (b_MemArray b) m2" "dom (sm_find m2) = dom (sm_find (b_MemArray b))" "connected m2"
    "if ok2 then \<exists>row. sm_find m2 x2 = Some row \<and> rowType row = b_operation b else m2 = b_MemArray b"
    using change_row[OF ci assms(4)] by blast
  obtain ok1 m1 where c1: "changeLiMRowType x1 (b_operation b) (b_specifications b) (b_MemArray b) = Inr (ok1, m1)"
    "array_inv m1" "array_extends (b_MemArray b) m1" "dom (sm_find m1) = dom (sm_find (b_MemArray b))" "connected m1"
    "if ok1 then \<exists>row. sm_find m1 x1 = Some row \<and> rowType row = b_operation b else m1 = b_MemArray b"
    using change_row[OF ci assms(3)] by blast
  consider "ok2" | "\<not> ok2" "ok1" | "\<not> ok2" "\<not> ok1" by blast
  then show ?thesis
  proof cases
    case 1
    then show ?thesis
      using connected_pair[OF c2(2-5), of x2 x1] c2(1,6) by (fastforce simp: acc_pair_def)
  next
    case 2
    then show ?thesis
      using connected_pair[OF c1(2-5), of x1 x2] c1(1,6) c2(1) by (fastforce simp: acc_pair_def)
  next
    case 3
    then show ?thesis using acc_copy_ok[OF assms] c1(1) c2(1) by (simp add: acc_pair_def)
  qed
qed

section \<open>Rounds\<close>

lemma acc_kept_refl: "binder_inv b \<Longrightarrow> acc_kept b b"
  by (simp add: acc_kept_def store_grows_def)

lemma acc_kept_dom: "acc_kept b b' \<Longrightarrow> dom (sm_find (b_MemArray b)) \<subseteq> dom (sm_find (b_MemArray b'))"
  using array_extends_dom by (auto simp: acc_kept_def store_grows_def)

lemma acc_kept_extends: "acc_kept b b' \<Longrightarrow> array_extends (b_MemArray b) (b_MemArray b')"
  by (simp add: acc_kept_def store_grows_def)

text \<open>A pass over the list halves it (rounding up) and keeps the total.\<close>

lemma acc_pairs_ok:
  assumes "binder_inv b" "b_operation b \<noteq> ''load''" "summed (b_MemArray b) (b_operation b) l S"
  shows "\<exists>l' b'. acc_pairs l b = Inr (l', b') \<and> acc_kept b b' \<and>
    summed (b_MemArray b') (b_operation b) l' S \<and> length l' = (length l + 1) div 2"
  using assms
proof (induction l b arbitrary: S rule: acc_pairs.induct)
  case (1 x1 x2 xs b)
  obtain A1 A2 B where s: "sums (b_MemArray b) (b_operation b) x1 A1" "sums (b_MemArray b) (b_operation b) x2 A2"
    "summed (b_MemArray b) (b_operation b) xs B" "S = A1 + (A2 + B)"
    using "1.prems"(3) unfolding summed_Cons_iff by blast
  obtain t b1 where p: "acc_pair x1 x2 b = Inr (t, b1)" "acc_kept b b1"
    "stores_result (b_MemArray b1) (b_operation b) x1 x2 t"
    using acc_pair_ok[OF "1.prems"(1,2) sums_dom[OF s(1)] sums_dom[OF s(2)]] by blast
  note ext = acc_kept_extends[OF p(2)]
  have b1: "binder_inv b1" "b_instr b1 = b_instr b" using p(2) by (simp_all add: acc_kept_def)
  have sum1: "summed (b_MemArray b1) (b_operation b1) xs B"
    using summed_extends[OF s(3) ext "1.prems"(2)] b1(2) by simp
  obtain l' b' where r: "acc_pairs xs b1 = Inr (l', b')" "acc_kept b1 b'"
    "summed (b_MemArray b') (b_operation b1) l' B" "length l' = (length xs + 1) div 2"
    using "1.IH"[OF p(1) HOL.refl b1(1) _ sum1] "1.prems"(2) b1(2) by auto
  have "sums (b_MemArray b1) (b_operation b) t (A1 + A2)"
    by (rule sums.node[OF p(3)]) (use sums_extends[OF s(1) ext] sums_extends[OF s(2) ext] "1.prems"(2) in blast)+
  then have "sums (b_MemArray b') (b_operation b) t (A1 + A2)"
    using sums_extends acc_kept_extends[OF r(2)] "1.prems"(2) by blast
  then have "summed (b_MemArray b') (b_operation b) (t # l') S"
    unfolding summed_Cons_iff using r(3) s(4) b1(2)
    by (intro exI[of _ "A1 + A2"] exI[of _ B]) (simp add: add.assoc)
  then show ?case using p(1) r(1,4) acc_kept_trans[OF p(2) r(2)] by simp
qed (auto simp: acc_kept_refl)

lemma split_rows_ok:
  "set l \<subseteq> dom (sm_find m) \<Longrightarrow> \<exists>as ls. split_rows m l = Inr (as, ls) \<and> mset as + mset ls = mset l"
proof (induction l)
  case (Cons x l)
  then obtain as ls where "split_rows m l = Inr (as, ls)" "mset as + mset ls = mset l" by auto
  moreover obtain row where "sm_find m x = Some row" using Cons.prems by auto
  ultimately show ?case by (auto simp: isLiMRowOfThisType_def findRow_def)
qed simp

text \<open>One round, in which the rows \<open>l\<close> of this time join the list.\<close>

lemma acc_round_ok:
  assumes "binder_inv b" "b_operation b \<noteq> ''load''" "sm_find alt (int i) = Some l"
    and "summed (b_MemArray b) (b_operation b) (cur @ l) S"
    and "i + 1 = steps \<longrightarrow> cur @ l \<noteq> []"
  shows "\<exists>cur' b' b''. acc_round alt steps i (cur, b) = Inr (cur', b'') \<and> acc_kept b b' \<and>
    (if i + 1 = steps then b'' = addNewItem (b_destReg b) (hd cur') b' else b'' = b') \<and>
    summed (b_MemArray b') (b_operation b) cur' S \<and> length cur' = (length cur + length l + 1) div 2"
proof -
  let ?w = "std_merge cur l"
  have w: "summed (b_MemArray b) (b_operation b) ?w S"
    by (rule summed_permute[OF assms(4)]) (simp add: mset_std_merge)
  obtain as ls where sp: "split_rows (b_MemArray b) ?w = Inr (as, ls)" "mset as + mset ls = mset ?w"
    using split_rows_ok[OF summed_dom[OF w]] by blast
  have m: "mset (alternate ls as) = mset ?w" using sp(2) by (simp add: mset_alternate add.commute)
  have alt: "summed (b_MemArray b) (b_operation b) (alternate ls as) S" by (rule summed_permute[OF w m])
  have "length (alternate ls as) = length cur + length l"
    using arg_cong[OF m, of size] arg_cong[OF mset_std_merge[of cur l], of size] by simp
  then obtain cur' b' where p: "acc_pairs (alternate ls as) b = Inr (cur', b')" "acc_kept b b'"
    "summed (b_MemArray b') (b_operation b) cur' S" "length cur' = (length cur + length l + 1) div 2"
    using acc_pairs_ok[OF assms(1,2) alt] by auto
  have "b_destReg b' = b_destReg b" using p(2) by (simp add: acc_kept_def)
  moreover have "cur' \<noteq> []" if "i + 1 = steps"
  proof
    assume "cur' = []"
    then have "(length cur + length l + 1) div 2 = 0" using p(4) by simp
    moreover have "0 < length cur + length l" using assms(5) that by (cases cur; cases l) simp_all
    ultimately show False by linarith
  qed
  ultimately show ?thesis
    using assms(3) sp(1) p
    by (cases cur') (auto simp: acc_round_def list_front_def)
qed

text \<open>No result of two rows of the list is known.\<close>

fun unknown_pairs :: "(ptr, ptr list) smap \<Rightarrow> ptr list \<Rightarrow> bool" where
  "unknown_pairs m [] = True"
| "unknown_pairs m (x # xs) = (list_all (\<lambda>y. searchForResult m x y = Inr nullptr) xs \<and> unknown_pairs m xs)"

lemma find_partner_unknown: "list_all (\<lambda>y. searchForResult m x y = Inr nullptr) ys \<Longrightarrow> find_partner m x ys = Inr None"
  by (induction ys) simp_all

lemma reduce_round_unknown:
  "unknown_pairs m (drop k cur) \<Longrightarrow> reduce_round m k cur [] rem False = Inr ([], rem @ drop k cur, False)"
proof (induction "length cur - k" arbitrary: k rem)
  case 0
  then show ?case by (simp add: reduce_round.simps)
next
  case (Suc n)
  then have k: "k < length cur" by simp
  then have drop: "drop k cur = cur ! k # drop (Suc k) cur" by (simp add: Cons_nth_drop_Suc)
  have u: "list_all (\<lambda>y. searchForResult m (cur ! k) y = Inr nullptr) (drop (Suc k) cur)" "unknown_pairs m (drop (Suc k) cur)"
    using Suc.prems unfolding drop by simp_all
  have "reduce_round m (Suc k) cur [] (rem @ [cur ! k]) False = Inr ([], (rem @ [cur ! k]) @ drop (Suc k) cur, False)"
    by (rule Suc.hyps(1)) (use Suc.hyps(2) u(2) in simp_all)
  then show ?case using k find_partner_unknown[OF u(1)] drop by (simp add: reduce_round.simps[of m k])
qed

text \<open>Without reuse all the rows come in at time 0.\<close>

lemma acc_list_time_no_reuse:
  assumes "b_optTarget b = ''Accumulation'' \<longrightarrow> unknown_pairs (b_addMap b) xs" "0 < steps"
  shows "\<exists>alt. acc_list_time b xs steps = Inr alt \<and>
    (\<exists>l0. sm_find alt 0 = Some l0 \<and> mset l0 = mset xs) \<and>
    (\<forall>i. 0 < i \<longrightarrow> i < steps \<longrightarrow> sm_find alt (int i) = Some [])"
proof -
  define alt where "alt = fold (\<lambda>i. sm_insert (int i) []) [1..<steps] (sm_insert 0 xs [])"
  have "sm_inv (sm_insert 0 xs ([] :: accumulationListTime))" by simp
  then have gen: "sm_inv (fold (\<lambda>i. sm_insert (int i) []) is m) \<and>
      sm_find (fold (\<lambda>i. sm_insert (int i) []) is m) k =
        (case sm_find m k of Some l \<Rightarrow> Some l | None \<Rightarrow> if k \<in> int ` set is then Some [] else None)"
    if "sm_inv m" for "is" k and m :: accumulationListTime
    using that
    by (induction "is" arbitrary: m) (auto simp: sm_find_insert split: option.splits)
  have inv: "sm_inv alt" and find: "sm_find alt k =
      (if k = 0 then Some xs else if k \<in> int ` {1..<steps} then Some [] else None)" for k
    using gen[of "sm_insert 0 xs []" "[1..<steps]" k] by (auto simp: alt_def)
  let ?alt = "sm_modify 0 (reorganize (length xs)) alt"
  have "acc_list_time b xs steps = Inr ?alt"
  proof (cases "b_optTarget b = ''Accumulation''")
    case True
    then have "reduce_round (b_addMap b) 0 xs [] [] False = Inr ([], xs, False)"
      using reduce_round_unknown[of "b_addMap b" 0 xs "[]"] assms(1) by simp
    then have "reduce_loop (b_addMap b) steps 0 xs [] True = Inr (1, [], [(0, xs)], False)"
      using assms(2) by (simp add: reduce_loop.simps)
    then show ?thesis using True find[of 0] by (simp add: acc_list_time_def Let_def alt_def)
  next
    case False
    then show ?thesis using find[of 0] by (simp add: acc_list_time_def reduce_loop.simps Let_def alt_def)
  qed
  moreover have "sm_find ?alt 0 = Some (reorganize (length xs) xs)" using find[of 0] by (simp add: sm_find_modify)
  moreover have "sm_find ?alt (int i) = Some []" if "0 < i" "i < steps" for i
    using find[of "int i"] that by (simp add: sm_find_modify)
  ultimately show ?thesis using mset_reorganize[of xs] by blast
qed

definition rounds_progress :: "lim_binder \<Rightarrow> nat \<Rightarrow> ptr multiset \<Rightarrow> nat \<Rightarrow> ptr list \<times> lim_binder \<Rightarrow> bool" where
  "rounds_progress b steps S k = (\<lambda>(cur, u). \<exists>b'. acc_kept b b' \<and>
     summed (b_MemArray b') (b_operation b) cur S \<and> cur \<noteq> [] \<and> ceil_log2 (length cur) + k = steps \<and>
     u = (if k = steps then addNewItem (b_destReg b) (hd cur) b' else b'))"

lemma rounds_step:
  assumes "rounds_progress b steps S k (cur, u)" "0 < k" "k < steps" "b_operation b \<noteq> ''load''"
    and "sm_find alt (int k) = Some []"
  shows "\<exists>v. acc_round alt steps k (cur, u) = Inr v \<and> rounds_progress b steps S (Suc k) v"
proof -
  have g: "acc_kept b u" "summed (b_MemArray u) (b_operation b) cur S" "cur \<noteq> []" "ceil_log2 (length cur) + k = steps"
    using assms(1,3) by (auto simp: rounds_progress_def)
  have u: "binder_inv u" "b_instr u = b_instr b" using g(1) by (simp_all add: acc_kept_def)
  obtain cur' b' b'' where r: "acc_round alt steps k (cur, u) = Inr (cur', b'')" "acc_kept u b'"
    "if k + 1 = steps then b'' = addNewItem (b_destReg u) (hd cur') b' else b'' = b'"
    "summed (b_MemArray b') (b_operation u) cur' S" "length cur' = (length cur + length [] + 1) div 2"
    using acc_round_ok[OF u(1) _ assms(5), of cur S steps] g(2,3) assms(4) u(2) by auto
  have "2 \<le> length cur"
  proof (rule ccontr)
    assume "\<not> 2 \<le> length cur"
    then have "ceil_log2 (length cur) = 0" by (subst ceil_log2.simps) simp
    then show False using g(4) assms(3) by simp
  qed
  then have "ceil_log2 (length cur') + Suc k = steps" "cur' \<noteq> []"
    using g(4) ceil_log2_halve[of "length cur"] r(5) by auto
  then have "rounds_progress b steps S (Suc k) (cur', b'')"
    using r(2-4) acc_kept_trans[OF g(1) r(2)] u(2)
    by (auto simp: rounds_progress_def intro!: exI[of _ b'])
  then show ?thesis using r(1) by blast
qed

section \<open>Properties\<close>

text \<open>
  C11: the accumulation of two or more rows that exist never fails as long as no result is reused: the
  target is not \<open>Accumulation\<close>, or no result of two rows of the list is known. It keeps the invariant,
  loses no row, and appends to the names of the destination one row that sums up every row of the list
  exactly once. The accumulation of one row fails (\<open>performAccBinding_single\<close>), and so may one that reuses
  a known result (\<open>performAccBinding_reuse_of_pair\<close>).
\<close>

theorem performAccBinding_sums:
  assumes "binder_inv b" "b_operation b \<noteq> ''load''"
    and "b_optTarget b = ''Accumulation'' \<longrightarrow> unknown_pairs (b_addMap b) xs"
    and "2 \<le> length xs" "set xs \<subseteq> dom (sm_find (b_MemArray b))"
  shows "\<exists>b' r. performAccBinding xs b = Inr b' \<and> binder_inv b' \<and>
    store_grows (b_MemArray b) (b_FSMLim b) (b_MemArray b') (b_FSMLim b') \<and>
    names_of b' (b_destReg b) = names_of b (b_destReg b) @ [r] \<and>
    sums (b_MemArray b') (b_operation b) r (mset xs)"
proof -
  let ?steps = "ceil_log2 (length xs)"
  have steps: "0 < ?steps" "?steps = Suc (ceil_log2 ((length xs + 1) div 2))"
    using ceil_log2_halve[OF assms(4)] by simp_all
  obtain alt l0 where alt: "acc_list_time b xs ?steps = Inr alt" "sm_find alt 0 = Some l0" "mset l0 = mset xs"
    "\<forall>i. 0 < i \<longrightarrow> i < ?steps \<longrightarrow> sm_find alt (int i) = Some []"
    using acc_list_time_no_reuse[OF assms(3) steps(1)] by blast
  have l0: "summed (b_MemArray b) (b_operation b) ([] @ l0) (mset xs)"
    using summed_permute[OF summed_leaves[OF assms(5)] alt(3)] by simp
  have len: "length l0 = length xs" using alt(3) by (metis size_mset)
  have ne: "0 + 1 = ?steps \<longrightarrow> [] @ l0 \<noteq> []" using len assms(4) by auto
  have alt0: "sm_find alt (int 0) = Some l0" using alt(2) by simp
  have run: "\<exists>v. efold (acc_round alt ?steps) [0..<Suc k] ([], b) = Inr v \<and> rounds_progress b ?steps (mset xs) (Suc k) v"
    if "k < ?steps" for k
    using that
  proof (induction k)
    case 0
    obtain cur' b' b'' where r: "acc_round alt ?steps 0 ([], b) = Inr (cur', b'')" "acc_kept b b'"
      "if 0 + 1 = ?steps then b'' = addNewItem (b_destReg b) (hd cur') b' else b'' = b'"
      "summed (b_MemArray b') (b_operation b) cur' (mset xs)" "length cur' = (length ([] :: ptr list) + length l0 + 1) div 2"
      using acc_round_ok[OF assms(1,2) _ l0, of alt 0 ?steps] alt0 ne by blast
    then have "rounds_progress b ?steps (mset xs) 1 (cur', b'')"
      using steps len assms(4) by (auto simp: rounds_progress_def intro!: exI[of _ b'])
    then show ?case using r(1) by simp
  next
    case (Suc k)
    then obtain cur u where u: "efold (acc_round alt ?steps) [0..<Suc k] ([], b) = Inr (cur, u)"
      "rounds_progress b ?steps (mset xs) (Suc k) (cur, u)" by fastforce
    obtain v where "acc_round alt ?steps (Suc k) (cur, u) = Inr v" "rounds_progress b ?steps (mset xs) (Suc (Suc k)) v"
      using rounds_step[OF u(2) zero_less_Suc Suc.prems assms(2)] alt(4) Suc.prems by blast
    moreover have "[0..<Suc (Suc k)] = [0..<Suc k] @ [Suc k]" by simp
    ultimately show ?case using u(1) by (simp del: upt_Suc)
  qed
  obtain cur u where u: "efold (acc_round alt ?steps) [0..<?steps] ([], b) = Inr (cur, u)"
    "rounds_progress b ?steps (mset xs) ?steps (cur, u)"
    using run[of "?steps - 1"] steps(1) by auto
  obtain b' where b': "acc_kept b b'" "summed (b_MemArray b') (b_operation b) cur (mset xs)" "cur \<noteq> []"
    "ceil_log2 (length cur) = 0" "u = addNewItem (b_destReg b) (hd cur) b'"
    using u(2) by (auto simp: rounds_progress_def)
  have "length cur = 1"
  proof (rule ccontr)
    assume "length cur \<noteq> 1"
    then have "2 \<le> length cur" using b'(3) by (cases cur) (auto simp: Suc_le_eq)
    then show False using b'(4) ceil_log2_halve by fastforce
  qed
  then obtain r where r: "cur = [r]" by (cases cur) auto
  have sum: "sums (b_MemArray b') (b_operation b) r (mset xs)"
    using b'(2) unfolding r summed_Cons_iff by auto
  have inv: "binder_inv b'" "b_arrayNamesMap b' = b_arrayNamesMap b" using b'(1) by (simp_all add: acc_kept_def)
  have "binder_inv u"
    using binder_invD(3)[OF inv(1)] b'(5) by (intro binder_inv_cong[OF inv(1)]) (simp_all add: sm_inv_addNewItem)
  moreover have "names_of u (b_destReg b) = names_of b (b_destReg b) @ [r]"
    using b'(5) r inv binder_invD(3)[OF inv(1)] by (auto simp: names_of_def addNewItem_find split: option.splits)
  moreover have "performAccBinding xs b = Inr u"
    using assms(4) alt(1) u(1) steps(1) by (auto simp: performAccBinding_def Let_def)
  ultimately show ?thesis using b'(1,5) sum by (auto simp: acc_kept_def)
qed

text \<open>The accumulation of a single row has no round, and reads the front of an empty list.\<close>

lemma performAccBinding_single:
  "performAccBinding [x] b = Inl (UB ''front() of an empty list'')"
proof -
  have "\<exists>alt. acc_list_time b [x] 0 = Inr alt"
    by (simp add: acc_list_time_def reduce_loop.simps Let_def)
  then show ?thesis by (auto simp: performAccBinding_def Let_def ceil_log2.simps list_front_def)
qed

text \<open>
  With the target \<open>Accumulation\<close>, the accumulation of two rows whose result is known already
  reads the front of an empty list instead of reusing the result: the reduced list is stored under
  a time at which no round looks.
\<close>

theorem performAccBinding_reuse_of_pair:
  assumes "b_optTarget b = ''Accumulation''" "searchForResult (b_addMap b) x y = Inr r" "r \<noteq> nullptr" "x \<noteq> y"
  shows "performAccBinding [x, y] b = Inl (UB ''front() of an empty list'')"
proof -
  have log: "ceil_log2 (Suc (Suc 0)) = Suc 0" by (simp add: ceil_log2.simps)
  have round: "reduce_round (b_addMap b) 0 [x, y] [] [] False = Inr ([r], [], True)"
    using assms(2-4) by (simp add: reduce_round.simps)
  have "acc_list_time b [x, y] 1 = Inr [(0, []), (1, [r])]"
    using assms(1) round by (simp add: acc_list_time_def reduce_loop.simps Let_def)
  then show ?thesis
    by (simp add: performAccBinding_def Let_def log acc_round_def list_front_def)
qed


text \<open>
  An accumulation in a loop with a constant bound that has at least one subset never succeeds:
  its first list has a single row, and the front of an empty list is read.
\<close>

theorem acc_constant_bound_fails:
  assumes "0 < numberOfSubsets (b_srcReg2PointerInfo b)" "b_addrListSrc1 b = a # l"
  shows "acc_constant_bound b = Inl (UB ''front() of an empty list'')"
proof -
  obtain n where "nat (numberOfSubsets (b_srcReg2PointerInfo b)) = Suc n"
    using assms(1) by (cases "nat (numberOfSubsets (b_srcReg2PointerInfo b))") auto
  then have n: "numberOfSubsets (b_srcReg2PointerInfo b) = int (Suc n)" by linarith
  have upt: "[0..<Suc n] = 0 # [Suc 0..<Suc n]" by (simp add: upt_conv_Cons)
  show ?thesis
    unfolding acc_constant_bound_def n for_loop_upt nat_int upt
    using assms(2) by (simp add: acc_constant_step_def list_at_def performAccBinding_single)
qed

section \<open>Witnesses\<close>

theorem performAccBinding_sums_witness:
  "\<exists>b' r. performAccBinding [0, 4, 8, 12] (sample_fp\<lparr>b_optTarget := ''Accumulation''\<rparr>) = Inr b' \<and> names_of b' 108 = [r] \<and>
    sums (b_MemArray b') ''add'' r {#0, 4, 8, 12#}"
proof -
  let ?b = "sample_fp\<lparr>b_optTarget := ''Accumulation''\<rparr>"
  have inv: "binder_inv ?b" by (rule binder_inv_cong[OF sample_fp_inv]) (use sample_fp_inv in \<open>simp_all add: binder_inv_def\<close>)
  have "\<exists>b' r. performAccBinding [0, 4, 8, 12] ?b = Inr b' \<and> binder_inv b' \<and>
    store_grows (b_MemArray ?b) (b_FSMLim ?b) (b_MemArray b') (b_FSMLim b') \<and>
    names_of b' (b_destReg ?b) = names_of ?b (b_destReg ?b) @ [r] \<and>
    sums (b_MemArray b') (b_operation ?b) r (mset [0, 4, 8, 12])"
    by (rule performAccBinding_sums[OF inv])
      (auto simp: sample_fp_def sample_b_defs addNewRow_def)
  then show ?thesis by (fastforce simp: sample_fp_def sample_b_defs names_of_def)
qed

theorem performAccBinding_reuse_of_pair_witness:
  "performAccBinding [0, 4] (sample_fp\<lparr>b_optTarget := ''Accumulation'', b_addMap := [(8, [0, 4])]\<rparr>)
     = Inl (UB ''front() of an empty list'')"
  by (rule performAccBinding_reuse_of_pair[where r = 8])
    (simp_all add: list_front_def list_back_def nullptr_def)

theorem acc_constant_bound_fails_witness:
  "acc_constant_bound (sample_fp\<lparr>b_addrListSrc1 := [0, 4]\<rparr>) = Inl (UB ''front() of an empty list'')"
  by (rule acc_constant_bound_fails[of _ 0 "[4]"]) (simp_all add: sample_fp_def sample_b_defs sample_pis_def)

end
