(* ===== verification/LiM_Bind.thy ===== *)
theory LiM_Bind
  imports Accumulation_Proofs
begin

text \<open>
  \<open>Binding/LiMBinder\<close>, the constructor: it binds the instructions in the order of the instruction
  table, prints the memory array, inverts the time table and prints the state machine. The theorems
  are about whole runs, for any instruction table.
\<close>

section \<open>The constructor\<close>

text \<open>The second component of the entry of the order vector is not looked at.\<close>

definition bind_instruction :: "ptr \<times> string \<Rightarrow> lim_binder \<Rightarrow> lim_binder res" where
  "bind_instruction entry b0 =
     ebind (or_fail (UB ''the constructor reads the end of instructionMap'')
              (sm_find (instructionMap (b_IM b0)) (fst entry))) (\<lambda>data.
       let b = b0\<lparr>b_instr := data\<lparr>destinationReg := fst entry\<rparr>\<rparr> in
       if operation data = ''load'' then handleLoadOperationBindingProcess b
       else if is_lim_operation (operation data) then
         (if ''accumulation'' \<in> set (specifications data)
          then handleAccumulationBindingProcess b
          else handleFPOperationBindingProcess b)
       else Inr b)"

definition bind_instructions :: "(ptr \<times> string) list \<Rightarrow> lim_binder \<Rightarrow> lim_binder res" where
  "bind_instructions = efold bind_instruction"

text \<open>
  The state in which the constructor starts. The members it does not initialise have the values
  they have in \<open>raw\<close>.
\<close>

definition binder_start ::
  "lim_binder \<Rightarrow> instructionTable \<Rightarrow> collectInfo \<Rightarrow> int \<Rightarrow> string \<Rightarrow> lim_binder" where
  "binder_start raw instructions info par target =
     raw\<lparr>b_par := par, b_optTarget := target, b_InfoCollection := info, b_IM := instructions,
         b_zeroAddr := nullptr, b_arrayNamesMap := [], b_addMap := [], b_lastDestMap := [],
         b_addrListSrc1 := [], b_addrListSrc2 := [], b_MemArray := [], b_FSMLim := empty_fsm\<rparr>"

record bindingOutput =
  out_binder :: lim_binder
  out_report :: limReport
  out_active :: "(int \<times> int) list"
  out_time :: int

definition LiMBinder ::
  "lim_binder \<Rightarrow> instructionTable \<Rightarrow> collectInfo \<Rightarrow> int \<Rightarrow> string \<Rightarrow> bindingOutput res" where
  "LiMBinder raw instructions info par target =
     ebind (bind_instructions (instructionOrderVector instructions)
              (binder_start raw instructions info par target)) (\<lambda>b.
     let b' = b\<lparr>b_FSMLim := transform (b_FSMLim b)\<rparr> in
     ebind (printFSMToFile (b_FSMLim b')) (\<lambda>(active, total).
       Inr \<lparr>out_binder = b', out_report = report_of par (b_MemArray b), out_active = active, out_time = total\<rparr>))"

section \<open>Accumulations keep the invariant\<close>

lemma acc_pair_times:
  assumes "acc_pair x1 x2 b = Inr r"
  shows "\<exists>t. later_time (b_FSMLim b) x1 x2 = Inr t"
  using assms
  by (auto simp: acc_pair_def acc_result_def acc_copy_def getNewName_def res_simps split: if_splits prod.splits)

lemma acc_pair_inv:
  assumes "binder_inv b" "b_operation b \<noteq> ''load''" "acc_pair x1 x2 b = Inr (t, b')"
  shows "acc_kept b b'"
proof -
  obtain t' where "later_time (b_FSMLim b) x1 x2 = Inr t'" using acc_pair_times[OF assms(3)] by blast
  from later_time_dom[OF this] have "x1 \<in> dom (sm_find (b_MemArray b))" "x2 \<in> dom (sm_find (b_MemArray b))"
    by (simp_all add: binder_invD(9)[OF assms(1)])
  from acc_pair_ok[OF assms(1,2) this] show ?thesis using assms(3) by auto
qed

lemma acc_pairs_inv:
  "binder_inv b \<Longrightarrow> b_operation b \<noteq> ''load'' \<Longrightarrow> acc_pairs l b = Inr (l', b') \<Longrightarrow> acc_kept b b'"
proof (induction l b arbitrary: l' rule: acc_pairs.induct)
  case (1 x1 x2 xs b)
  obtain t b1 ts where p: "acc_pair x1 x2 b = Inr (t, b1)" "acc_pairs xs b1 = Inr (ts, b')"
    using "1.prems"(3) by (auto simp: res_simps)
  have k: "acc_kept b b1" by (rule acc_pair_inv[OF "1.prems"(1,2) p(1)])
  then have "acc_kept b1 b'" using "1.IH"[OF p(1) HOL.refl _ _ p(2)] "1.prems"(2) by (simp add: acc_kept_def)
  then show ?case by (rule acc_kept_trans[OF k])
qed (auto simp: acc_kept_refl)

definition bound_more :: "lim_binder \<Rightarrow> lim_binder \<Rightarrow> bool" where
  "bound_more b b' \<longleftrightarrow> binder_inv b' \<and> store_grows (b_MemArray b) (b_FSMLim b) (b_MemArray b') (b_FSMLim b') \<and>
     b_instr b' = b_instr b"

lemma bound_more_trans: "bound_more a b \<Longrightarrow> bound_more b c \<Longrightarrow> bound_more a c"
  by (auto simp: bound_more_def intro: store_grows_trans)

lemma bound_more_refl: "binder_inv b \<Longrightarrow> bound_more b b"
  by (simp add: bound_more_def store_grows_def)

lemma bound_more_kept: "acc_kept b b' \<Longrightarrow> bound_more b b'"
  by (simp add: bound_more_def acc_kept_def)

lemma bound_more_addNewItem: "bound_more b b' \<Longrightarrow> bound_more b (addNewItem k p b')"
  using binder_inv_cong[of b' "addNewItem k p b'"] sm_inv_addNewItem[of b' k p]
  by (simp add: bound_more_def binder_inv_def)

lemma acc_round_inv:
  assumes "binder_inv b" "b_operation b \<noteq> ''load''" "acc_round alt steps i (cur, b) = Inr (cur', b')"
  shows "bound_more b b'"
proof -
  obtain l u where "acc_pairs l b = Inr (cur', u)" "b' = u \<or> (\<exists>k p. b' = addNewItem k p u)"
    using assms(3) by (fastforce simp: acc_round_def res_simps split: if_splits)
  then show ?thesis
    using bound_more_kept[OF acc_pairs_inv[OF assms(1,2)]] bound_more_addNewItem by blast
qed

lemma performAccBinding_inv:
  assumes "binder_inv b" "b_operation b \<noteq> ''load''" "performAccBinding xs b = Inr b'"
  shows "bound_more b b'"
proof -
  obtain alt cur u where u: "efold (acc_round alt (ceil_log2 (length xs))) [0..<ceil_log2 (length xs)] ([], b) = Inr (cur, u)"
    "b' = u \<or> (\<exists>k p. b' = addNewItem k p u)"
    using assms(3) by (fastforce simp: performAccBinding_def Let_def res_simps split: if_splits)
  have step: "bound_more b (snd v')" if "bound_more b (snd v)" "acc_round alt s i v = Inr v'" for v v' s i
    using acc_round_inv[of "snd v" alt s i "fst v" "fst v'" "snd v'"] that assms(2) bound_more_trans
    by (auto simp: bound_more_def)
  have "bound_more b (snd (cur, u))"
    by (rule efold_invariant[OF u(1)]) (use bound_more_refl[OF assms(1)] step in auto)
  then show ?thesis using u(2) bound_more_addNewItem by auto
qed

lemma acc_operands_inv:
  assumes "binder_inv b" "acc_operands b = Inr b'"
  shows "bound_more b b'"
proof -
  obtain its2 u where u:
    "(case srcReg1Type (b_instr b) of
          singleVariable \<Rightarrow> ebind (findInANM b (sourceReg1 (b_instr b))) (\<lambda>l. Inr (b\<lparr>b_addrListSrc1 := l\<rparr>))
        | fakeArray \<Rightarrow> ebind (findInANM b (sourceReg1 (b_instr b))) (\<lambda>l. Inr (b\<lparr>b_addrListSrc1 := l\<rparr>))
        | arrayOperand \<Rightarrow>
            ebind (getPointerInfo (PIT (b_InfoCollection b)) (srcReg1Ptr (b_instr b))) (\<lambda>info.
            ebind (findInANM b (sourceReg1 (b_instr b))) (\<lambda>l.
            ebind (shapeAddressList l info) (\<lambda>l.
              Inr (b\<lparr>b_srcReg1PointerInfo := info, b_addrListSrc1 := l\<rparr>))))
        | _ \<Rightarrow> Inr b) = Inr u"
    "(case srcReg2Type (b_instr b) of
          arrayOperand \<Rightarrow>
            ebind (getPointerInfo (PIT (b_InfoCollection b)) (srcReg2Ptr (b_instr b))) (\<lambda>info.
            ebind (shapeAddressList (b_addrListSrc2 u) info) (\<lambda>l.
            ebind (expandAddressList l info its2) (\<lambda>l.
              Inr (u\<lparr>b_srcReg2PointerInfo := info, b_addrListSrc2 := l\<rparr>))))
        | fakeArray \<Rightarrow> ebind (findInANM u (sourceReg2 (b_instr b))) (\<lambda>l. Inr (u\<lparr>b_addrListSrc2 := l\<rparr>))
        | _ \<Rightarrow> Inr u) = Inr b'"
    using assms(2) unfolding acc_operands_def Let_def ebind_Inr_iff by (elim exE conjE) (rule that)
  have same: "P b \<Longrightarrow> (\<And>u i l. P u \<Longrightarrow> P (u\<lparr>b_addrListSrc1 := l\<rparr>)) \<Longrightarrow> (\<And>u i l. P u \<Longrightarrow> P (u\<lparr>b_addrListSrc2 := l\<rparr>)) \<Longrightarrow>
      (\<And>u i. P u \<Longrightarrow> P (u\<lparr>b_srcReg1PointerInfo := i\<rparr>)) \<Longrightarrow> (\<And>u i. P u \<Longrightarrow> P (u\<lparr>b_srcReg2PointerInfo := i\<rparr>)) \<Longrightarrow> P b'" for P
  proof -
    assume P: "P b" "\<And>u i l. P u \<Longrightarrow> P (u\<lparr>b_addrListSrc1 := l\<rparr>)" "\<And>u i l. P u \<Longrightarrow> P (u\<lparr>b_addrListSrc2 := l\<rparr>)"
      "\<And>u i. P u \<Longrightarrow> P (u\<lparr>b_srcReg1PointerInfo := i\<rparr>)" "\<And>u i. P u \<Longrightarrow> P (u\<lparr>b_srcReg2PointerInfo := i\<rparr>)"
    have "P u" using u(1) P by (cases "srcReg1Type (b_instr b)") (auto simp: res_simps)
    then show "P b'" using u(2) P by (cases "srcReg2Type (b_instr b)") (auto simp: res_simps)
  qed
  have "bound_more b u" if "bound_more b v" "b_zeroAddr u = b_zeroAddr v" "b_MemArray u = b_MemArray v"
    "b_FSMLim u = b_FSMLim v" "b_lastDestMap u = b_lastDestMap v" "b_addMap u = b_addMap v"
    "b_arrayNamesMap u = b_arrayNamesMap v" "b_instr u = b_instr v" for u v
    using that binder_inv_cong[of v u] by (simp add: bound_more_def binder_inv_def)
  note cong = this
  show ?thesis by (rule same[where P = "bound_more b"], rule bound_more_refl[OF assms(1)]) (erule cong; simp)+
qed

lemma acc_loops_inv:
  assumes "binder_inv b" "b_operation b \<noteq> ''load''" "acc_variable_bound b = Inr b' \<or> acc_constant_bound b = Inr b'"
  shows "bound_more b b'"
proof -
  have step: "bound_more b u'" if "bound_more b u" "performAccBinding xs u = Inr u'" for u u' xs
    using that performAccBinding_inv[of u xs u'] assms(2) bound_more_trans by (auto simp: bound_more_def)
  have variable_step: "bound_more b (snd v')" if "bound_more b (snd v)" "acc_variable_step c i v = Inr v'" for c i v v'
    using that step by (cases v) (auto simp: acc_variable_step_def res_simps)
  have constant_step: "bound_more b (snd v')" if "bound_more b (snd v)" "acc_constant_step i v = Inr v'" for i v v'
    using that step by (cases v) (auto simp: acc_constant_step_def res_simps)
  from assms(3) show ?thesis
  proof
    assume "acc_variable_bound b = Inr b'"
    then obtain s where r: "for_loop 0 (numberOfSubsetsElements (b_srcReg2PointerInfo b)) 1
        (acc_variable_step (arrayCols (b_srcReg2PointerInfo b))) (0, b) = Inr (s, b')"
      by (auto simp: acc_variable_bound_def res_simps)
    have "bound_more b (snd (s, b'))"
      by (rule for_loop_invariant[OF r, where P = "\<lambda>v. bound_more b (snd v)"])
        (use bound_more_refl[OF assms(1)] variable_step in auto)
    then show ?thesis by simp
  next
    assume "acc_constant_bound b = Inr b'"
    then obtain s where r: "for_loop 0 (numberOfSubsets (b_srcReg2PointerInfo b)) 1 acc_constant_step ([], b) = Inr (s, b')"
      by (auto simp: acc_constant_bound_def res_simps)
    have "bound_more b (snd (s, b'))"
      by (rule for_loop_invariant[OF r, where P = "\<lambda>v. bound_more b (snd v)"])
        (use bound_more_refl[OF assms(1)] constant_step in auto)
    then show ?thesis by simp
  qed
qed

lemma handleAcc_inv:
  assumes "binder_inv b" "b_operation b \<noteq> ''load''" "handleAccumulationBindingProcess b = Inr b'"
  shows "bound_more b b'"
proof -
  obtain u where u: "acc_operands b = Inr u" "acc_variable_bound u = Inr b' \<or> acc_constant_bound u = Inr b'"
    using assms(3) by (auto simp: handleAccumulationBindingProcess_def res_simps split: if_splits)
  have m: "bound_more b u" by (rule acc_operands_inv[OF assms(1) u(1)])
  then have "bound_more u b'" using acc_loops_inv[OF _ _ u(2)] assms(2) by (simp add: bound_more_def)
  then show ?thesis by (rule bound_more_trans[OF m])
qed

section \<open>Whole runs\<close>

lemma sm_length_dom: "sm_inv m \<Longrightarrow> length m = card (dom (sm_find m))"
  using distinct_card[OF sm.distinct_entries[of m]] sm.dom_lookup[of m] by simp

lemma binder_inv_start: "binder_inv (binder_start raw it ci par target)"
  by (auto simp: binder_inv_def binder_start_def store_ok_def last_dest_ok_def array_inv_def connected_def
      rows.names_below_def nullptr_def empty_fsm_def fsm_inv_def ran_def)

lemma bind_instruction_inv:
  assumes "binder_inv b" "bind_instruction e b = Inr b'"
  shows "binder_inv b' \<and> store_grows (b_MemArray b) (b_FSMLim b) (b_MemArray b') (b_FSMLim b')"
proof -
  obtain data where data: "sm_find (instructionMap (b_IM b)) (fst e) = Some data"
    using assms(2) by (auto simp: bind_instruction_def res_simps)
  let ?b = "b\<lparr>b_instr := data\<lparr>destinationReg := fst e\<rparr>\<rparr>"
  have inv: "binder_inv ?b"
    using assms(1) by (intro binder_inv_cong[OF assms(1)]) (simp_all add: binder_inv_def)
  have run: "bind_instruction e b =
      (if operation data = ''load'' then handleLoadOperationBindingProcess ?b
       else if is_lim_operation (operation data) then
         (if ''accumulation'' \<in> set (specifications data)
          then handleAccumulationBindingProcess ?b else handleFPOperationBindingProcess ?b)
       else Inr ?b)"
    unfolding bind_instruction_def data or_fail_def Let_def by (simp only: option.case ebind_simps)
  have res: "binder_inv b' \<and> store_grows (b_MemArray ?b) (b_FSMLim ?b) (b_MemArray b') (b_FSMLim b')"
  proof (cases "operation data = ''load''")
    case True
    then have "handleLoadOperationBindingProcess ?b = Inr b'" using run assms(2) by (simp only: if_True simp_thms)
    then show ?thesis by (rule handleLoad_inv[OF inv])
  next
    case False
    then have op: "b_operation ?b \<noteq> ''load''" by simp
    consider "bind_instruction e b = handleAccumulationBindingProcess ?b"
      | "bind_instruction e b = handleFPOperationBindingProcess ?b" | "bind_instruction e b = Inr ?b"
      unfolding run using False by (cases "is_lim_operation (operation data)";
          cases "''accumulation'' \<in> set (specifications data)") (simp_all only: if_True if_False simp_thms)
    then show ?thesis
    proof cases
      case 1
      then have "handleAccumulationBindingProcess ?b = Inr b'" using assms(2) by (simp only:)
      from handleAcc_inv[OF inv op this] show ?thesis unfolding bound_more_def by blast
    next
      case 2
      then have "handleFPOperationBindingProcess ?b = Inr b'" using assms(2) by (simp only:)
      then show ?thesis by (rule handleFP_inv[OF inv op])
    next
      case 3
      then have "b' = ?b" using assms(2) by (simp only: sum.inject)
      then show ?thesis using inv by (simp add: store_grows_def)
    qed
  qed
  then show ?thesis by simp
qed

lemma bind_instructions_inv:
  assumes "binder_inv b" "bind_instructions es b = Inr b'"
  shows "binder_inv b' \<and> store_grows (b_MemArray b) (b_FSMLim b) (b_MemArray b') (b_FSMLim b')"
proof -
  have "efold bind_instruction es b = Inr b'" using assms(2) by (simp add: bind_instructions_def)
  then show ?thesis
  proof (rule efold_invariant)
    show "binder_inv b \<and> store_grows (b_MemArray b) (b_FSMLim b) (b_MemArray b) (b_FSMLim b)"
      using assms(1) by (simp add: store_grows_def)
    show "binder_inv v \<and> store_grows (b_MemArray b) (b_FSMLim b) (b_MemArray v) (b_FSMLim v)"
      if "binder_inv u \<and> store_grows (b_MemArray b) (b_FSMLim b) (b_MemArray u) (b_FSMLim u)"
        "bind_instruction e u = Inr v" for e u v
      using that bind_instruction_inv[of u e v] store_grows_trans by blast
  qed
qed

section \<open>Properties\<close>

text \<open>
  C5: whatever the instructions are, a run of the binder that ends normally leaves a memory array
  whose rows are well-formed and have only rows of the array (or the marker for no input) as
  inputs, whose names are multiples of 4 below the next name; every row is listed at exactly one
  time of the state machine, and nothing else is; the numbers of active rows that are reported add
  up to the reported number of rows.
\<close>

theorem LiMBinder_output:
  assumes "LiMBinder raw instructions info par target = Inr out"
  shows "array_inv (b_MemArray (out_binder out)) \<and> connected (b_MemArray (out_binder out)) \<and>
    (\<forall>p. p \<in> dom (sm_find (b_MemArray (out_binder out))) \<longrightarrow> row_name (b_zeroAddr (out_binder out)) p) \<and>
    (\<forall>p. (p \<in> dom (sm_find (b_MemArray (out_binder out)))) =
       (\<exists>!t. \<exists>l. sm_find (FSM (b_FSMLim (out_binder out))) t = Some l \<and> p \<in> set l)) \<and>
    sum_list (map snd (out_active out)) = r_rows (out_report out)"
proof -
  obtain b total where b: "bind_instructions (instructionOrderVector instructions)
      (binder_start raw instructions info par target) = Inr b"
    "printFSMToFile (transform (b_FSMLim b)) = Inr (out_active out, total)"
    "out_binder out = b\<lparr>b_FSMLim := transform (b_FSMLim b)\<rparr>"
    "out_report out = report_of par (b_MemArray b)"
    using assms by (auto simp: LiMBinder_def Let_def res_simps)
  have inv: "store_ok (b_zeroAddr b) (b_MemArray b) (b_FSMLim b)"
    using bind_instructions_inv[OF binder_inv_start b(1)] by (simp add: binder_inv_def)
  then have f: "fsm_inv (b_FSMLim b)" "FSM (b_FSMLim b) = []" "sm_inv (FSM2 (b_FSMLim b))" "sm_inv (b_MemArray b)"
    "dom (sm_find (FSM2 (b_FSMLim b))) = dom (sm_find (b_MemArray b))"
    by (simp_all add: store_ok_def fsm_inv_def array_inv_def)
  have times: "(\<exists>l. sm_find (FSM (transform (b_FSMLim b))) t = Some l \<and> p \<in> set l) =
      (sm_find (FSM2 (b_FSMLim b)) p = Some t)" for p t
    using sm.entries_iff[OF f(3)] by (force simp: transform_FSM[OF f(1,2)] image_iff split: if_splits)
  have "sum_list (map snd (out_active out)) = active_rows (FSM (transform (b_FSMLim b)))"
    using b(2) by (auto simp: printFSMToFile_def active_rows_def comp_def case_prod_beta split: if_splits
        intro!: arg_cong[where f = sum_list] dest!: sym[of _ "out_active out"])
  also have "\<dots> = int (length (FSM2 (b_FSMLim b)))"
    using active_rows_transform[of "[]" "FSM2 (b_FSMLim b)"] f(2) by (simp add: transform_def)
  also have "length (FSM2 (b_FSMLim b)) = length (b_MemArray b)"
    using sm_length_dom[OF f(3)] sm_length_dom[OF f(4)] f(5) by simp
  finally have sum: "sum_list (map snd (out_active out)) = int (length (b_MemArray b))" .
  have rows: "r_rows (report_of par m) = int (length m)" for m :: limArray
  proof -
    have "r_rows (fold (count_row \<circ> snd) m r) = r_rows r" for m :: limArray and r :: limReport
      by (induction m arbitrary: r) (simp_all add: count_row_def Let_def)
    then show ?thesis by (simp add: report_of_def)
  qed
  show ?thesis
    using inv sum rows times f(5) unfolding b(3,4)
    by (auto simp: store_ok_def rows.names_below_def dom_def)
qed

end
