(* ===== verification/Straight_Line.thy ===== *)
theory Straight_Line
  imports LiM_Bind
begin

text \<open>
  Straight-line code on scalar variables: loads, and operations on two variables of which the
  second one has not been an operand before. For it the binder is shown to be a correct compiler,
  from the instruction table to the wiring of the rows.
\<close>

section \<open>The source programs\<close>

definition scalar_operation :: "instructionData \<Rightarrow> bool" where
  "scalar_operation d \<longleftrightarrow> is_lim_operation (operation d) \<and> operation d \<noteq> ''load'' \<and> \<not> is_shift (operation d) \<and>
     ''accumulation'' \<notin> set (specifications d) \<and> srcReg1Type d = singleVariable \<and> srcReg2Type d = singleVariable"

fun straight_line ::
  "collectInfo \<Rightarrow> instructionTable \<Rightarrow> ptr set \<Rightarrow> ptr set \<Rightarrow> (ptr \<times> string) list \<Rightarrow> bool" where
  "straight_line info it D U [] = True"
| "straight_line info it D U (e # es) =
     (case sm_find (instructionMap it) (fst e) of
        None \<Rightarrow> False
      | Some d \<Rightarrow> fst e \<notin> D \<and>
          (if operation d = ''load'' then \<not> isArray info (fst e) \<and> straight_line info it (insert (fst e) D) U es
           else scalar_operation d \<and> sourceReg1 d \<in> D \<and> sourceReg2 d \<in> D - U \<and> sourceReg1 d \<noteq> sourceReg2 d \<and>
             straight_line info it (insert (fst e) D) ({sourceReg1 d, sourceReg2 d} \<union> U) es))"

section \<open>One instruction\<close>

text \<open>The variables \<open>D\<close> have one row each, and only rows of variables in \<open>U\<close> have been operands.\<close>

definition scalar_state ::
  "collectInfo \<Rightarrow> instructionTable \<Rightarrow> ptr set \<Rightarrow> ptr set \<Rightarrow> (ptr \<Rightarrow> ptr) \<Rightarrow> lim_binder \<Rightarrow> bool" where
  "scalar_state info it D U R b \<longleftrightarrow> binder_inv b \<and> b_IM b = it \<and> b_InfoCollection b = info \<and> inj_on R D \<and> U \<subseteq> D \<and>
     (\<forall>v. sm_find (b_arrayNamesMap b) v = (if v \<in> D then Some [R v] else None)) \<and>
     R ` D \<subseteq> dom (sm_find (b_MemArray b)) \<and> dom (sm_find (b_lastDestMap b)) \<subseteq> R ` U"

lemma scalar_load_step:
  assumes "scalar_state info it D U R b" "v \<notin> D" "\<not> isArray info v" "b_destReg b = v"
  shows "\<exists>b' r. handleLoadOperationBindingProcess b = Inr b' \<and> scalar_state info it (insert v D) U (R(v := r)) b' \<and>
    store_grows (b_MemArray b) (b_FSMLim b) (b_MemArray b') (b_FSMLim b')"
proof -
  let ?r = "b_zeroAddr b"
  have s: "binder_inv b" "b_IM b = it" "b_InfoCollection b = info" "inj_on R D" "U \<subseteq> D"
    "\<And>v. sm_find (b_arrayNamesMap b) v = (if v \<in> D then Some [R v] else None)"
    "R ` D \<subseteq> dom (sm_find (b_MemArray b))" "dom (sm_find (b_lastDestMap b)) \<subseteq> R ` U"
    using assms(1) by (auto simp: scalar_state_def)
  obtain b' where b': "bind_load_row b = Inr b'" by (auto simp: bind_load_row_def getNewName_def)
  note inv = bind_load_row_inv[OF s(1) b'] and i = binder_invD[OF s(1)]
  have fresh: "?r \<notin> dom (sm_find (b_MemArray b))" using rows.fresh[OF i(7)] by auto
  have dom: "dom (sm_find (b_MemArray b')) = insert ?r (dom (sm_find (b_MemArray b)))"
    using b' i(8) by (auto simp: bind_load_row_def getNewName_def addNewRow_def array_inv_def sm_find_insert split: if_splits)
  have fields: "b_IM b' = b_IM b" "b_lastDestMap b' = b_lastDestMap b"
    "b_arrayNamesMap b' = b_arrayNamesMap (addNewItem v ?r b)"
    using b' assms(4) by (auto simp: bind_load_row_def getNewName_def addNewItem_def)
  have names: "sm_find (b_arrayNamesMap b') w = (if w \<in> insert v D then Some [(R(v := ?r)) w] else None)" for w
    using s(6) assms(2) by (auto simp: fields addNewItem_find[OF i(3)])
  have "?r \<notin> R ` D" using s(7) fresh by blast
  moreover have "(R(v := ?r)) ` D = R ` D" "(R(v := ?r)) ` U = R ` U"
    using assms(2) s(5) by (auto intro!: image_cong)
  ultimately have "scalar_state info it (insert v D) U (R(v := ?r)) b'"
    using inv s(2-5,7,8) names fields(1,2) dom assms(2)
    by (auto simp: scalar_state_def inj_on_fun_updI)
  moreover have "handleLoadOperationBindingProcess b = Inr b'"
    using b' assms(3,4) s(3) by (simp add: handleLoadOperationBindingProcess_def for_loop_upt)
  ultimately show ?thesis using inv by blast
qed

lemma handleFP_scalar:
  assumes "binder_inv b" "b_operation b \<noteq> ''load''" "\<not> is_shift (b_operation b)"
    and "srcReg1Type (b_instr b) = singleVariable" "srcReg2Type (b_instr b) = singleVariable"
    and "sm_find (b_arrayNamesMap b) (sourceReg1 (b_instr b)) = Some [r1]"
    and "sm_find (b_arrayNamesMap b) (sourceReg2 (b_instr b)) = Some [r2]"
    and "r1 \<in> dom (sm_find (b_MemArray b))" "r2 \<in> dom (sm_find (b_MemArray b))"
    and "r2 \<notin> dom (sm_find (b_lastDestMap b))"
  shows "\<exists>b' d t1 t2 t. handleFPOperationBindingProcess b = Inr b' \<and> binder_inv b' \<and>
    store_grows (b_MemArray b) (b_FSMLim b) (b_MemArray b') (b_FSMLim b') \<and>
    b_arrayNamesMap b' = b_arrayNamesMap (addNewItem (b_destReg b) d b) \<and> b_IM b' = b_IM b \<and>
    b_InfoCollection b' = b_InfoCollection b \<and> d \<notin> dom (sm_find (b_MemArray b)) \<and>
    dom (sm_find (b_lastDestMap b')) = {r1, r2} \<union> dom (sm_find (b_lastDestMap b)) \<and>
    stores_result (b_MemArray b') (b_operation b) r1 r2 d \<and>
    sm_find (FSM2 (b_FSMLim b)) r1 = Some t1 \<and> sm_find (FSM2 (b_FSMLim b)) r2 = Some t2 \<and>
    sm_find (FSM2 (b_FSMLim b')) d = Some t \<and> t1 < t \<and> t2 < t"
proof -
  obtain d b1 where new: "getNewName b = (d, b1)" by (cases "getNewName b")
  have b1: "pending d b1" "b1 = b\<lparr>b_zeroAddr := ptr_incr (b_zeroAddr b)\<rparr>" "d = b_zeroAddr b"
    using pending_new[OF assms(1) new] new by (auto simp: getNewName_def)
  let ?b = "b1\<lparr>b_addrListSrc1 := [r1], b_addrListSrc2 := [r2]\<rparr>"
  have p: "pending d ?b" using b1(1) by (intro pending_cong[OF b1(1)]) (simp_all add: pending_def binder_inv_def)
  let ?s = "fp_state d r1 r2 ?b"
  have "pending d ?s" using fp_state_pending[OF p, of r1 r2] by simp
  then have ready: "ready ?s" using assms(2,8,9) b1(2) by (simp add: ready_def pending_def)
  have none: "common_dest ?s = None" using assms(10) b1(2) by (auto simp: common_dest_def split: option.split)
  have shift: "\<not> is_shift (b_operation ?s)" using assms(3) b1(2) by simp
  obtain b2 r t1 t2 where b2: "performBinding ?s = Inr b2" "binder_inv b2"
    "store_grows (b_MemArray ?s) (b_FSMLim ?s) (b_MemArray b2) (b_FSMLim b2)"
    "b_arrayNamesMap b2 = b_arrayNamesMap ?s" "remembers ?s b2"
    "stores_result (b_MemArray b2) (b_operation ?s) (b_src1 ?s) (b_src2 ?s) (b_dest ?s)"
    "sm_find (FSM2 (b_FSMLim ?s)) (b_src1 ?s) = Some t1" "sm_find (FSM2 (b_FSMLim ?s)) (b_src2 ?s) = Some t2"
    "sm_find (FSM2 (b_FSMLim b2)) (b_dest ?s) = Some (max t1 t2 + result_delay r)"
    using performBinding_new[OF ready shift none] by blast
  obtain e b3 where b3: "getNewName b2 = (e, b3)" by (cases "getNewName b2")
  have f3: "b_MemArray b3 = b_MemArray b2" "b_FSMLim b3 = b_FSMLim b2" "b_lastDestMap b3 = b_lastDestMap b2"
    "b_arrayNamesMap b3 = b_arrayNamesMap b2" "b_IM b3 = b_IM b2" "b_InfoCollection b3 = b_InfoCollection b2"
    using b3 by (auto simp: getNewName_def)
  have run: "handleFPOperationBindingProcess b = Inr b3"
    using new b1(2) assms(4-7) b2(1) b3
    by (simp add: handleFPOperationBindingProcess_def Let_def findInANM_def operand_list_def for_loop_upt
        fp_step_run list_at_def)
  have "binder_inv b3" using pending_new[OF b2(2) b3] by (simp add: pending_def)
  moreover have "sm_inv (b_lastDestMap b)" using assms(1) by (simp add: binder_inv_def last_dest_ok_def)
  then have "dom (sm_find (b_lastDestMap b3)) = {r1, r2} \<union> dom (sm_find (b_lastDestMap b))"
    using b2(5) b1(2) by (auto simp: f3 remembers_def sm.dom_insert)
  moreover have "b_arrayNamesMap b3 = b_arrayNamesMap (addNewItem (b_destReg b) d b)"
    using b2(4) b1(2) by (simp add: f3 fp_state_def addNewItem_def)
  moreover have "b_IM b3 = b_IM b \<and> b_InfoCollection b3 = b_InfoCollection b"
    using b2(5) b1(2) by (simp add: f3 remembers_def fp_state_def)
  moreover have "d \<notin> dom (sm_find (b_MemArray b))"
    using rows.fresh[OF binder_invD(7)[OF assms(1)]] b1(3) by auto
  moreover have "0 < result_delay r" by (cases r) (simp_all add: result_delay_def)
  ultimately show ?thesis
    using run b2(3,6-9) b1(2) by (simp add: f3) (smt (verit))
qed

text \<open>What the binder promises for one instruction: its variable's row stores the result of its operands' rows, and later than they are written.\<close>

definition wired :: "instructionTable \<Rightarrow> (ptr \<Rightarrow> ptr) \<Rightarrow> lim_binder \<Rightarrow> ptr \<Rightarrow> bool" where
  "wired it R b v \<longleftrightarrow> (\<exists>d. sm_find (instructionMap it) v = Some d \<and>
     (operation d = ''load'' \<or>
        operation d \<noteq> ''load'' \<and>
        stores_result (b_MemArray b) (operation d) (R (sourceReg1 d)) (R (sourceReg2 d)) (R v) \<and>
        (\<exists>t1 t2 t. sm_find (FSM2 (b_FSMLim b)) (R (sourceReg1 d)) = Some t1 \<and>
           sm_find (FSM2 (b_FSMLim b)) (R (sourceReg2 d)) = Some t2 \<and>
           sm_find (FSM2 (b_FSMLim b)) (R v) = Some t \<and> t1 < t \<and> t2 < t)))"

lemma wired_grows:
  assumes "wired it R b v" "store_grows (b_MemArray b) (b_FSMLim b) (b_MemArray b') (b_FSMLim b')"
  shows "wired it R b' v"
proof -
  have ext: "array_extends (b_MemArray b) (b_MemArray b')" using assms(2) by (simp add: store_grows_def)
  have time: "sm_find (FSM2 (b_FSMLim b')) p = Some t" if "sm_find (FSM2 (b_FSMLim b)) p = Some t" for p t
    using assms(2) that by (simp add: store_grows_def)
  obtain d where d: "sm_find (instructionMap it) v = Some d" and
    "operation d = ''load'' \<or> operation d \<noteq> ''load'' \<and>
        stores_result (b_MemArray b) (operation d) (R (sourceReg1 d)) (R (sourceReg2 d)) (R v) \<and>
        (\<exists>t1 t2 t. sm_find (FSM2 (b_FSMLim b)) (R (sourceReg1 d)) = Some t1 \<and>
           sm_find (FSM2 (b_FSMLim b)) (R (sourceReg2 d)) = Some t2 \<and>
           sm_find (FSM2 (b_FSMLim b)) (R v) = Some t \<and> t1 < t \<and> t2 < t)"
    using assms(1) unfolding wired_def by (elim exE conjE) (rule that)
  from this(2) show ?thesis
  proof
    assume "operation d = ''load''"
    then show ?thesis using d by (simp add: wired_def)
  next
    assume w: "operation d \<noteq> ''load'' \<and>
        stores_result (b_MemArray b) (operation d) (R (sourceReg1 d)) (R (sourceReg2 d)) (R v) \<and>
        (\<exists>t1 t2 t. sm_find (FSM2 (b_FSMLim b)) (R (sourceReg1 d)) = Some t1 \<and>
           sm_find (FSM2 (b_FSMLim b)) (R (sourceReg2 d)) = Some t2 \<and>
           sm_find (FSM2 (b_FSMLim b)) (R v) = Some t \<and> t1 < t \<and> t2 < t)"
    then obtain t1 t2 t where t: "sm_find (FSM2 (b_FSMLim b)) (R (sourceReg1 d)) = Some t1"
      "sm_find (FSM2 (b_FSMLim b)) (R (sourceReg2 d)) = Some t2" "sm_find (FSM2 (b_FSMLim b)) (R v) = Some t"
      "t1 < t" "t2 < t" by (elim conjE exE) (rule that)
    have "stores_result (b_MemArray b') (operation d) (R (sourceReg1 d)) (R (sourceReg2 d)) (R v)"
      by (rule stores_result_extends[OF ext]) (use w in simp_all)
    then show ?thesis
      unfolding wired_def using d w time[OF t(1)] time[OF t(2)] time[OF t(3)] t(4,5) by (intro exI[of _ d]) simp
  qed
qed

lemma scalar_operation_step:
  assumes "scalar_state info it D U R b" "v \<notin> D" "b_instr b = d\<lparr>destinationReg := v\<rparr>"
    and "sm_find (instructionMap it) v = Some d" "scalar_operation d"
    and "sourceReg1 d \<in> D" "sourceReg2 d \<in> D - U" "sourceReg1 d \<noteq> sourceReg2 d"
  shows "\<exists>b' r. handleFPOperationBindingProcess b = Inr b' \<and>
    scalar_state info it (insert v D) ({sourceReg1 d, sourceReg2 d} \<union> U) (R(v := r)) b' \<and>
    store_grows (b_MemArray b) (b_FSMLim b) (b_MemArray b') (b_FSMLim b') \<and> wired it (R(v := r)) b' v"
proof -
  let ?r1 = "R (sourceReg1 d)" and ?r2 = "R (sourceReg2 d)"
  have s: "binder_inv b" "b_IM b = it" "b_InfoCollection b = info" "inj_on R D" "U \<subseteq> D"
    "\<And>v. sm_find (b_arrayNamesMap b) v = (if v \<in> D then Some [R v] else None)"
    "R ` D \<subseteq> dom (sm_find (b_MemArray b))" "dom (sm_find (b_lastDestMap b)) \<subseteq> R ` U"
    using assms(1) by (auto simp: scalar_state_def)
  have "?r2 \<notin> R ` U" using s(4,5) assms(7) by (auto simp: inj_on_def)
  then have unused: "?r2 \<notin> dom (sm_find (b_lastDestMap b))" using s(8) by blast
  have op: "b_operation b \<noteq> ''load''" "\<not> is_shift (b_operation b)" "srcReg1Type (b_instr b) = singleVariable"
    "srcReg2Type (b_instr b) = singleVariable"
    using assms(3,5) by (simp_all add: scalar_operation_def)
  have names: "sm_find (b_arrayNamesMap b) (sourceReg1 (b_instr b)) = Some [?r1]"
    "sm_find (b_arrayNamesMap b) (sourceReg2 (b_instr b)) = Some [?r2]"
    using s(6) assms(3,6,7) by simp_all
  have rows: "?r1 \<in> dom (sm_find (b_MemArray b))" "?r2 \<in> dom (sm_find (b_MemArray b))"
    using s(7) assms(6,7) by auto
  obtain b' r t1 t2 t where b': "handleFPOperationBindingProcess b = Inr b'" "binder_inv b'"
    "store_grows (b_MemArray b) (b_FSMLim b) (b_MemArray b') (b_FSMLim b')"
    "b_arrayNamesMap b' = b_arrayNamesMap (addNewItem (b_destReg b) r b)" "b_IM b' = b_IM b"
    "b_InfoCollection b' = b_InfoCollection b" "r \<notin> dom (sm_find (b_MemArray b))"
    "dom (sm_find (b_lastDestMap b')) = {?r1, ?r2} \<union> dom (sm_find (b_lastDestMap b))"
    "stores_result (b_MemArray b') (b_operation b) ?r1 ?r2 r"
    "sm_find (FSM2 (b_FSMLim b)) ?r1 = Some t1" "sm_find (FSM2 (b_FSMLim b)) ?r2 = Some t2"
    "sm_find (FSM2 (b_FSMLim b')) r = Some t" "t1 < t" "t2 < t"
    using handleFP_scalar[OF s(1) op names rows unused] by blast
  have anm: "sm_find (b_arrayNamesMap b') w = (if w \<in> insert v D then Some [(R(v := r)) w] else None)" for w
    using s(6) assms(2,3) binder_invD(3)[OF s(1)] by (simp add: b'(4) addNewItem_find)
  have same: "(R(v := r)) ` A = R ` A" if "A \<subseteq> D" for A
    using assms(2) that by (auto intro!: image_cong)
  have grown: "dom (sm_find (b_MemArray b)) \<subseteq> dom (sm_find (b_MemArray b'))" "r \<in> dom (sm_find (b_MemArray b'))"
    using array_extends_dom b'(3) stores_result_dom[OF b'(9)] by (auto simp: store_grows_def)
  have "(R(v := r)) ` insert v D \<subseteq> insert r (R ` D)" by auto
  also have "\<dots> \<subseteq> dom (sm_find (b_MemArray b'))"
    by (rule insert_subsetI[OF grown(2) subset_trans[OF s(7) grown(1)]])
  finally have image: "(R(v := r)) ` insert v D \<subseteq> dom (sm_find (b_MemArray b'))" .
  have "r \<notin> R ` D" using s(7) b'(7) by blast
  then have inj: "inj_on (R(v := r)) (insert v D)" using s(4) assms(2)
    by (auto simp: inj_on_def)
  have used: "{sourceReg1 d, sourceReg2 d} \<union> U \<subseteq> D" using s(5) assms(6,7) by auto
  have "dom (sm_find (b_lastDestMap b')) \<subseteq> (R(v := r)) ` ({sourceReg1 d, sourceReg2 d} \<union> U)"
    unfolding same[OF used] b'(8) using s(8) by auto
  then have "scalar_state info it (insert v D) ({sourceReg1 d, sourceReg2 d} \<union> U) (R(v := r)) b'"
    unfolding scalar_state_def using b'(2,5,6) s(2,3) inj used anm image by auto
  moreover have "sourceReg1 d \<noteq> v" "sourceReg2 d \<noteq> v" using assms(2,6,7) by auto
  then have "wired it (R(v := r)) b' v"
    using assms(3-5) b'(9-14) b'(3) by (auto simp: wired_def scalar_operation_def store_grows_def)
  ultimately show ?thesis using b'(1,3) by blast
qed

section \<open>Programs\<close>

lemma wired_update: "wired it R b w \<Longrightarrow> (\<And>d. sm_find (instructionMap it) w = Some d \<Longrightarrow> operation d \<noteq> ''load'' \<Longrightarrow>
    R' (sourceReg1 d) = R (sourceReg1 d) \<and> R' (sourceReg2 d) = R (sourceReg2 d)) \<Longrightarrow> R' w = R w \<Longrightarrow> wired it R' b w"
  unfolding wired_def by (elim exE conjE disjE) auto

text \<open>All the variables of \<open>D\<close> are wired, and their operands are in \<open>D\<close>.\<close>

definition program_wired :: "instructionTable \<Rightarrow> ptr set \<Rightarrow> (ptr \<Rightarrow> ptr) \<Rightarrow> lim_binder \<Rightarrow> bool" where
  "program_wired it D R b \<longleftrightarrow> (\<forall>v \<in> D. wired it R b v \<and>
     (\<forall>d. sm_find (instructionMap it) v = Some d \<longrightarrow> operation d \<noteq> ''load'' \<longrightarrow> sourceReg1 d \<in> D \<and> sourceReg2 d \<in> D))"

lemma program_wired_insert:
  assumes "program_wired it D R b" "v \<notin> D" "store_grows (b_MemArray b) (b_FSMLim b) (b_MemArray b') (b_FSMLim b')"
    and "wired it (R(v := r)) b' v" "sm_find (instructionMap it) v = Some d"
    and "operation d \<noteq> ''load'' \<Longrightarrow> sourceReg1 d \<in> D \<and> sourceReg2 d \<in> D"
  shows "program_wired it (insert v D) (R(v := r)) b'"
proof -
  have "wired it (R(v := r)) b' w" if "w \<in> D" for w
  proof (rule wired_update[where R = R])
    show "wired it R b' w" using assms(1) that wired_grows[OF _ assms(3)] by (simp add: program_wired_def)
    show "(R(v := r)) (sourceReg1 d) = R (sourceReg1 d) \<and> (R(v := r)) (sourceReg2 d) = R (sourceReg2 d)"
      if "sm_find (instructionMap it) w = Some d" "operation d \<noteq> ''load''" for d
      using assms(1,2) that \<open>w \<in> D\<close> by (auto simp: program_wired_def)
    show "(R(v := r)) w = R w" using assms(2) that by auto
  qed
  then show ?thesis using assms(1,4-6) by (auto simp: program_wired_def)
qed

lemma straight_line_step:
  assumes "scalar_state info it D U R b" "program_wired it D R b" "straight_line info it D U (e # es)"
  shows "\<exists>b' R' U'. bind_instruction e b = Inr b' \<and> scalar_state info it (insert (fst e) D) U' R' b' \<and>
    program_wired it (insert (fst e) D) R' b' \<and> straight_line info it (insert (fst e) D) U' es"
proof -
  obtain d where d: "sm_find (instructionMap it) (fst e) = Some d" "fst e \<notin> D"
    "if operation d = ''load'' then \<not> isArray info (fst e) \<and> straight_line info it (insert (fst e) D) U es
     else scalar_operation d \<and> sourceReg1 d \<in> D \<and> sourceReg2 d \<in> D - U \<and> sourceReg1 d \<noteq> sourceReg2 d \<and>
       straight_line info it (insert (fst e) D) ({sourceReg1 d, sourceReg2 d} \<union> U) es"
    using assms(3) by (auto split: option.splits)
  let ?b = "b\<lparr>b_instr := d\<lparr>destinationReg := fst e\<rparr>\<rparr>"
  have "binder_inv b" using assms(1) by (simp add: scalar_state_def)
  then have "binder_inv ?b" by (rule binder_inv_cong) (use \<open>binder_inv b\<close> in \<open>simp_all add: binder_inv_def\<close>)
  then have st: "scalar_state info it D U R ?b" using assms(1) by (simp add: scalar_state_def)
  have it: "b_IM b = it" using assms(1) by (simp add: scalar_state_def)
  show ?thesis
  proof (cases "operation d = ''load''")
    case True
    have dest: "b_destReg ?b = fst e" by simp
    have nA: "\<not> isArray info (fst e)" and rest: "straight_line info it (insert (fst e) D) U es"
      using d(3) True by simp_all
    obtain b' r where b': "handleLoadOperationBindingProcess ?b = Inr b'"
      "scalar_state info it (insert (fst e) D) U (R(fst e := r)) b'"
      "store_grows (b_MemArray b) (b_FSMLim b) (b_MemArray b') (b_FSMLim b')"
      using scalar_load_step[OF st d(2) nA dest] by auto
    have "wired it (R(fst e := r)) b' (fst e)" using d(1) True by (simp add: wired_def)
    from program_wired_insert[OF assms(2) d(2) b'(3) this d(1)]
    have "program_wired it (insert (fst e) D) (R(fst e := r)) b'" using True by simp
    moreover have "bind_instruction e b = Inr b'"
      using b'(1) True d(1) it by (simp add: bind_instruction_def Let_def)
    ultimately show ?thesis using b'(2) rest by blast
  next
    case False
    then have op: "scalar_operation d" "sourceReg1 d \<in> D" "sourceReg2 d \<in> D - U" "sourceReg1 d \<noteq> sourceReg2 d"
      and rest: "straight_line info it (insert (fst e) D) ({sourceReg1 d, sourceReg2 d} \<union> U) es"
      using d(3) by simp_all
    obtain b' r where b': "handleFPOperationBindingProcess ?b = Inr b'"
      "scalar_state info it (insert (fst e) D) ({sourceReg1 d, sourceReg2 d} \<union> U) (R(fst e := r)) b'"
      "store_grows (b_MemArray b) (b_FSMLim b) (b_MemArray b') (b_FSMLim b')" "wired it (R(fst e := r)) b' (fst e)"
      using scalar_operation_step[OF st d(2) _ d(1) op] by auto
    have "program_wired it (insert (fst e) D) (R(fst e := r)) b'"
      using program_wired_insert[OF assms(2) d(2) b'(3,4) d(1)] op by simp
    moreover have "bind_instruction e b = Inr b'"
      using b'(1) False d(1) it op(1) by (simp add: bind_instruction_def scalar_operation_def Let_def)
    ultimately show ?thesis using b'(2) rest by blast
  qed
qed

lemma straight_line_run:
  "scalar_state info it D U R b \<Longrightarrow> program_wired it D R b \<Longrightarrow> straight_line info it D U es \<Longrightarrow>
   \<exists>b' R' U'. bind_instructions es b = Inr b' \<and> scalar_state info it (D \<union> fst ` set es) U' R' b' \<and>
     program_wired it (D \<union> fst ` set es) R' b'"
proof (induction es arbitrary: D U R b)
  case (Cons e es)
  obtain b1 R1 U1 where s: "bind_instruction e b = Inr b1" "scalar_state info it (insert (fst e) D) U1 R1 b1"
    "program_wired it (insert (fst e) D) R1 b1" "straight_line info it (insert (fst e) D) U1 es"
    using straight_line_step[OF Cons.prems] by blast
  from Cons.IH[OF s(2-4)] show ?case using s(1) by (simp add: bind_instructions_def)
qed (auto simp: bind_instructions_def)

text \<open>A state with a variable has a row with a time, so that the state machine can be printed.\<close>

lemma printFSM_succeeds:
  assumes "scalar_state info it D U R b" "v \<in> D"
  shows "\<exists>active total. printFSMToFile (transform (b_FSMLim b)) = Inr (active, total)"
proof -
  have inv: "binder_inv b" and "R v \<in> dom (sm_find (b_MemArray b))"
    using assms by (auto simp: scalar_state_def)
  then obtain t where "sm_find (FSM2 (b_FSMLim b)) (R v) = Some t"
    unfolding binder_invD(9)[OF inv, symmetric] by blast
  moreover have f: "fsm_inv (b_FSMLim b)" "FSM (b_FSMLim b) = []" using inv by (auto simp: binder_inv_def store_ok_def)
  ultimately have "t \<in> snd ` set (FSM2 (b_FSMLim b))"
    using sm.entries_iff[of "FSM2 (b_FSMLim b)"] by (force simp: fsm_inv_def)
  then have "sm_find (FSM (transform (b_FSMLim b))) t \<noteq> None" by (simp add: transform_FSM[OF f])
  then have "FSM (transform (b_FSMLim b)) \<noteq> []" by auto
  then show ?thesis by (simp add: printFSMToFile_def)
qed

lemma straight_line_binds:
  assumes "straight_line info it {} {} (instructionOrderVector it)" "instructionOrderVector it \<noteq> []"
  obtains b R U active total where
    "bind_instructions (instructionOrderVector it) (binder_start raw it info par target) = Inr b"
    "scalar_state info it (fst ` set (instructionOrderVector it)) U R b"
    "program_wired it (fst ` set (instructionOrderVector it)) R b"
    "printFSMToFile (transform (b_FSMLim b)) = Inr (active, total)"
proof -
  let ?b = "binder_start raw it info par target" and ?V = "fst ` set (instructionOrderVector it)"
  have "scalar_state info it {} {} (\<lambda>_. 0) ?b"
    using binder_inv_start[of raw it info par target] by (simp add: scalar_state_def binder_start_def fun_eq_iff)
  moreover have "program_wired it {} (\<lambda>_. 0) ?b" by (simp add: program_wired_def)
  ultimately obtain b R U where b: "bind_instructions (instructionOrderVector it) ?b = Inr b"
    "scalar_state info it ?V U R b" "program_wired it ?V R b"
    using straight_line_run[OF _ _ assms(1), of "\<lambda>_. 0" ?b] by auto
  obtain v where "v \<in> ?V" using assms(2) by (cases "instructionOrderVector it") auto
  then show thesis using that[OF b] printFSM_succeeds[OF b(2)] by blast
qed

lemma straight_line_output:
  assumes "straight_line info it {} {} (instructionOrderVector it)" "instructionOrderVector it \<noteq> []"
  shows "\<exists>out R. LiMBinder raw it info par target = Inr out \<and>
    inj_on R (fst ` set (instructionOrderVector it)) \<and>
    (\<forall>v \<in> fst ` set (instructionOrderVector it).
       names_of (out_binder out) v = [R v] \<and> wired it R (out_binder out) v)"
proof -
  let ?V = "fst ` set (instructionOrderVector it)"
  obtain b R U active total where b:
    "bind_instructions (instructionOrderVector it) (binder_start raw it info par target) = Inr b"
    "scalar_state info it ?V U R b" "program_wired it ?V R b"
    "printFSMToFile (transform (b_FSMLim b)) = Inr (active, total)"
    by (rule straight_line_binds[OF assms])
  have s: "inj_on R ?V" "\<forall>v \<in> ?V. names_of b v = [R v]"
    using b(2) by (auto simp: scalar_state_def names_of_def)
  obtain out where out: "LiMBinder raw it info par target = Inr out" "out_binder out = b\<lparr>b_FSMLim := transform (b_FSMLim b)\<rparr>"
    using b(1,4) by (simp add: LiMBinder_def Let_def)
  have "\<forall>v \<in> ?V. names_of (out_binder out) v = [R v] \<and> wired it R (out_binder out) v"
    using s(2) b(3) by (simp add: out(2) names_of_def program_wired_def wired_def transform_def)
  then show ?thesis using out(1) s(1) by blast
qed

section \<open>Properties\<close>

text \<open>
  C4: the binder compiles straight-line scalar code correctly if it is linear. The instructions are loads
  of variables that are no arrays, and operations on two scalars, neither accumulations nor shifts, each
  with a result of its own and with operands that have been loaded or computed before; the operands are
  different, and the second one has not been an operand of an operation before (\<open>straight_line\<close>). Then the
  run ends normally, every variable gets one row, different variables different rows, and the row of the
  result of every operation stores the output of a LiM row of this operation that is fed by the rows of
  its operands, and is written after both of them. Where a second operand has been an operand before, an
  operation may be dropped (\<open>performBinding_drops_other_operation\<close>).
\<close>

theorem LiMBinder_straight_line:
  assumes "straight_line info it {} {} (instructionOrderVector it)" "instructionOrderVector it \<noteq> []"
  shows "\<exists>out R. LiMBinder raw it info par target = Inr out \<and>
    inj_on R (fst ` set (instructionOrderVector it)) \<and>
    (\<forall>v \<in> fst ` set (instructionOrderVector it).
       names_of (out_binder out) v = [R v] \<and> wired it R (out_binder out) v)"
  using assms by (rule straight_line_output)

text \<open>Two loads, their conjunction, and its exclusive disjunction with a third variable.\<close>

definition sample_line :: instructionTable where
  "sample_line =
     insertInstruction (binary_instruction ''xor'' 116 singleVariable 112 singleVariable 108)
       (insertInstruction (binary_instruction ''and'' 112 singleVariable 100 singleVariable 104)
          (insertLoadInstruction 108 singleVariable
             (insertLoadInstruction 104 singleVariable (insertLoadInstruction 100 singleVariable empty_IT))))"

lemma sample_line_tables:
  "instructionOrderVector sample_line = [(100, ''load''), (104, ''load''), (108, ''load''), (112, ''and''), (116, ''xor'')]"
  "instructionMap sample_line = [(100, load_data 100 singleVariable), (104, load_data 104 singleVariable),
     (108, load_data 108 singleVariable), (112, binary_instruction ''and'' 112 singleVariable 100 singleVariable 104),
     (116, binary_instruction ''xor'' 116 singleVariable 112 singleVariable 108)]"
  by (simp_all add: sample_line_def insertInstruction_def insertLoadInstruction_def empty_IT_def load_data_def
      binary_instruction_def)

lemma sample_line_straight: "straight_line blank_ci sample_line {} {} (instructionOrderVector sample_line)"
  by (simp add: sample_line_tables load_data_def binary_instruction_def isArray_def blank_ci_def
      scalar_operation_def is_lim_operation_def LimOperations_def is_shift_def)

theorem LiMBinder_straight_line_witness:
  "\<exists>out R. LiMBinder (sample_b ''add'' 0 0) sample_line blank_ci 8 ''None'' = Inr out \<and>
    wired sample_line R (out_binder out) 116 \<and> names_of (out_binder out) 112 = [R 112]"
proof -
  have "instructionOrderVector sample_line \<noteq> []" by (simp add: sample_line_tables)
  from LiMBinder_straight_line[OF sample_line_straight this, of "sample_b ''add'' 0 0" 8 "''None''"]
  show ?thesis by (auto simp: sample_line_tables)
qed

theorem LiMBinder_output_witness:
  "\<exists>out. LiMBinder (sample_b ''add'' 0 0) sample_line blank_ci 8 ''None'' = Inr out \<and>
    connected (b_MemArray (out_binder out)) \<and> sum_list (map snd (out_active out)) = r_rows (out_report out)"
proof -
  have "instructionOrderVector sample_line \<noteq> []" by (simp add: sample_line_tables)
  then obtain b R U active total where
    "bind_instructions (instructionOrderVector sample_line) (binder_start (sample_b ''add'' 0 0) sample_line blank_ci 8 ''None'') = Inr b"
    "printFSMToFile (transform (b_FSMLim b)) = Inr (active, total)"
    by (rule straight_line_binds[OF sample_line_straight])
  then obtain out where out: "LiMBinder (sample_b ''add'' 0 0) sample_line blank_ci 8 ''None'' = Inr out"
    by (simp add: LiMBinder_def Let_def)
  then show ?thesis using LiMBinder_output[OF out] by blast
qed

end
