(* ===== verification/Print_Vhdl.thy ===== *)
theory Print_Vhdl
  imports LiM_Array FSM Std_String LiM_Binder
begin

text \<open>
  \<open>Code_Generation/PrintVhdlFile\<close>: the text of the VHDL file and of its test bench. The declarations
  of signals go to a file of their own (\<open>sigDec\<close>), the statements to another (\<open>compInst\<close>), which are
  copied into the output at the end. A file is a list of items: declarations, statements, and other
  text. An item has a list of tokens (characters, uses of a signal, accesses to the memory array), and
  \<open>render\<close> gives their characters.

  In the literals a tabulator is written \<open>~\<close> and a line feed \<open>|\<close>; the text has no such characters.
\<close>

section \<open>Text\<close>

definition vtxt :: "string \<Rightarrow> string" where
  "vtxt = map (\<lambda>c. if c = CHR ''~'' then CHR 0x09 else if c = CHR ''|'' then CHR 0x0A else c)"

definition hex_char :: "nat \<Rightarrow> char" where
  "hex_char d = (if d < 10 then digit_char d else char_of (87 + d))"

fun hex_digits :: "nat \<Rightarrow> string" where
  "hex_digits n = (if n < 16 then [hex_char n] else hex_digits (n div 16) @ [hex_char (n mod 16)])"

declare hex_digits.simps [simp del]

text \<open>A pointer on an LLVM stream.\<close>

definition ptr_text :: "ptr \<Rightarrow> string" where
  "ptr_text p = ''0x'' @ hex_digits (nat p)"

datatype signal =
    MEM_RD ptr
  | OUT ptr
  | SEL ptr
  | COUT ptr
  | MUX_OUT ptr
  | OP_OUT ptr int
  | ROW ptr
  | T int
  | GO
  | DONE

fun signal_name :: "signal \<Rightarrow> string" where
  "signal_name (MEM_RD p) = ''ROW_'' @ ptr_text p @ ''_MEM_RD''"
| "signal_name (OUT p) = ''ROW_'' @ ptr_text p @ ''_OUT''"
| "signal_name (SEL p) = ''ROW_'' @ ptr_text p @ ''_SEL''"
| "signal_name (COUT p) = ''ROW_'' @ ptr_text p @ ''_COUT''"
| "signal_name (MUX_OUT p) = ''ROW_'' @ ptr_text p @ ''_MUX_OUT''"
| "signal_name (OP_OUT p n) = ''ROW_'' @ ptr_text p @ ''_OP'' @ to_string n @ ''_OUT''"
| "signal_name (ROW p) = ''ROW_'' @ ptr_text p"
| "signal_name (T i) = ''T'' @ to_string i"
| "signal_name GO = ''GO''"
| "signal_name DONE = ''DONE''"

datatype token =
    Txt string
  | Use signal
  | Mem int

fun render_token :: "token \<Rightarrow> string" where
  "render_token (Txt s) = vtxt s"
| "render_token (Use s) = signal_name s"
| "render_token (Mem i) = ''Mem('' @ to_string i @ '')''"

definition render :: "token list \<Rightarrow> string" where
  "render ts = concat (map render_token ts)"

text \<open>A line of the declarations: a keyword (which has a slip in one place), a signal and its type.\<close>

datatype sig_item =
    Line string
  | Decl string signal string

fun render_sig :: "sig_item \<Rightarrow> string" where
  "render_sig (Line s) = vtxt s"
| "render_sig (Decl keyword s type) = vtxt keyword @ signal_name s @ '': '' @ vtxt type"

definition signal_kw :: string where
  "signal_kw = ''~signal ''"

definition vec :: "int \<Rightarrow> string \<Rightarrow> string" where
  "vec par sep = ''std_logic_vector('' @ to_string par @ sep @ ''1 downto 0);|''"

text \<open>
  The statements: writing to the memory a signal, or the content of a row shifted by one position, and
  reading from the memory into the signal of a row.
\<close>

datatype statement =
    Write_mem int signal
  | Shift_mem int ptr int
  | Read_mem ptr int

fun statement_tokens :: "statement \<Rightarrow> token list" where
  "statement_tokens (Write_mem i s) = [Txt ''~~~~~'', Mem i, Txt '' <= '', Use s, Txt '';|'']"
| "statement_tokens (Shift_mem i p par) =
     [Txt ''~~~~~'', Mem i, Txt '' <= '0' & '', Use (MEM_RD p), Txt (''('' @ to_string par @ '' - 1 downto 1);|'')]"
| "statement_tokens (Read_mem p i) = [Txt ''~~~~'', Use (MEM_RD p), Txt '' <= '', Mem i, Txt '';|'']"

text \<open>
  The items of \<open>compInst\<close>: a branch of a process, with its keyword, the signal it waits for and its
  statements; the assignment of a signal to another at the clock; the output of a row with a logic
  operator, and of one with an adder, where a missing connection type leaves out the text after the
  source; and any other text.
\<close>

datatype comp_item =
    Text "token list"
  | Branch string signal "statement list"
  | Delay signal signal
  | Bitwise ptr string signal
  | Adder ptr signal string

fun item_tokens :: "comp_item \<Rightarrow> token list" where
  "item_tokens (Text ts) = ts"
| "item_tokens (Branch keyword s sts) = [Txt keyword, Use s, Txt '' = '1') then|''] @ concat (map statement_tokens sts)"
| "item_tokens (Delay target source) = [Txt ''~~~~~'', Use target, Txt '' <= '', Use source, Txt '';|'']"
| "item_tokens (Bitwise p op s) =
     [Txt ''~-- Bitwise|~'', Use (OUT p), Txt '' <= '', Use (MEM_RD p), Txt ('' '' @ op @ '' ''), Use s, Txt '';|'']"
| "item_tokens (Adder p s post) =
     [Txt (''~-- Add|~~~RCA_'' @ ptr_text p @ ''_PM: RCA port map(A => ''), Use (MEM_RD p), Txt '', B => '', Use s, Txt post,
      Txt ''Cin => '0', Cout => '', Use (COUT p), Txt '', S => '', Use (OUT p), Txt '');|'']"

definition items_tokens :: "comp_item list \<Rightarrow> token list" where
  "items_tokens items = concat (map item_tokens items)"

section \<open>State of the architecture\<close>

record arch =
  sigDec :: "sig_item list"
  compInst :: "comp_item list"
  isMux21Present :: bool
  isAddPresent :: bool
  otherMuxesWidth :: "int list"

definition emit :: "sig_item list \<Rightarrow> comp_item list \<Rightarrow> arch \<Rightarrow> arch" where
  "emit sigs comps a = a\<lparr>sigDec := sigDec a @ sigs, compInst := compInst a @ comps\<rparr>"

definition isInputRow :: "ptr \<Rightarrow> bool" where
  "isInputRow rowName \<longleftrightarrow> rowName = no_input"

section \<open>One row\<close>

text \<open>
  The source of an operand: the output of a LiM row, or what has been read from a memory row. For any
  other type of connection neither the suffix nor what follows it is printed.
\<close>

definition source_of :: "string \<Rightarrow> ptr \<Rightarrow> signal" where
  "source_of inputConnectionType srcRow =
     (if inputConnectionType = ''OLiM'' then OUT srcRow
      else if inputConnectionType = ''OC'' then MEM_RD srcRow else ROW srcRow)"

definition after_source :: "string \<Rightarrow> string \<Rightarrow> string" where
  "after_source inputConnectionType post =
     (if inputConnectionType = ''OLiM'' \<or> inputConnectionType = ''OC'' then post else [])"

definition printBitwise :: "int \<Rightarrow> ptr \<Rightarrow> ptr \<Rightarrow> string \<Rightarrow> string \<Rightarrow> arch \<Rightarrow> arch" where
  "printBitwise par rowName srcRow2 inputConnectionType bitwiseOp =
     emit [Decl signal_kw (MEM_RD rowName) (vec par ''- ''), Decl signal_kw (OUT rowName) (vec par ''- '')]
       (if inputConnectionType = ''OLiM'' \<or> inputConnectionType = ''OC''
        then [Bitwise rowName bitwiseOp (source_of inputConnectionType srcRow2)] else [])"

text \<open>\<open>(int) log2(0)\<close> has no value; the other dimensions are powers of two here.\<close>

definition mux_select_width :: "int \<Rightarrow> int res" where
  "mux_select_width dim = (if dim = 0 then Inl (UB ''(int) log2(0)'') else Inr (int (floor_log2 (nat dim))))"

definition power_of_two :: "nat \<Rightarrow> bool" where
  "power_of_two n \<longleftrightarrow> n = 0 \<or> n = 2 ^ floor_log2 n"

definition printMixed :: "int \<Rightarrow> ptr \<Rightarrow> ptr \<Rightarrow> string \<Rightarrow> string list \<Rightarrow> arch \<Rightarrow> arch res" where
  "printMixed par rowName srcRow2 inputConnectionType operators a =
     (if \<not> power_of_two (length operators)
      then Inl (Unreachable ''Error in PrintDexFile: the mux of the LiM row is not properly defined!'')
      else ebind (mux_select_width (int (length operators))) (\<lambda>w.
        let a = emit
              [Decl signal_kw (MEM_RD rowName) (vec par '' - ''), Decl signal_kw (OUT rowName) (vec par '' - ''),
               Decl signal_kw (SEL rowName) (''std_logic_vector('' @ to_string w @ '' - 1 downto 0);|'')]
              [Text ([Txt (''~ MUX_'' @ ptr_text rowName @ ''_PM: MUX21 port map('')]
               @ concat (map (\<lambda>i. [Txt (''IN_'' @ to_string i @ '' => ''), Use (OP_OUT rowName i), Txt '', ''])
                    [0..int (length operators) - 1])
               @ [Txt ''SEL => '', Use (SEL rowName), Txt '', Y => '', Use (OUT rowName), Txt '');|''])] a;
            a = fold (\<lambda>(i, op). emit [Decl signal_kw (OP_OUT rowName i) (vec par ''- '')]
                    [Text [Txt ''~~'', Use (OP_OUT rowName i), Txt '' <= '', Use (MEM_RD rowName), Txt (''(i) '' @ op @ '' ''),
                           Use (source_of inputConnectionType srcRow2), Txt (after_source inputConnectionType '';|'')]])
                  (zip [0..int (length operators) - 1] operators) a
        in Inr (emit [] [Text [Txt ''~end generate;||'']] a)))"

text \<open>The inputs of a multiplexer.\<close>

definition mux_sources :: "string \<Rightarrow> string \<Rightarrow> ptr \<Rightarrow> ptr \<Rightarrow> token list" where
  "mux_sources type1 type2 srcRow2 srcRow3 =
     [Use (source_of type1 srcRow2), Txt (after_source type1 '', ''), Txt ''B => '',
      Use (source_of type2 srcRow3), Txt (after_source type2 '', '')]"

definition printBitwiseMux2to1 ::
  "int \<Rightarrow> string \<Rightarrow> ptr \<Rightarrow> string \<Rightarrow> string \<Rightarrow> ptr \<Rightarrow> ptr \<Rightarrow> arch \<Rightarrow> arch" where
  "printBitwiseMux2to1 par bitwiseOp rowName inputConnectionType1 inputConnectionType2 srcRow2 srcRow3 =
     emit [Decl signal_kw (MEM_RD rowName) (vec par ''- ''), Decl signal_kw (OUT rowName) (vec par ''- ''),
           Decl signal_kw (SEL rowName) ''std_logic;|'', Decl signal_kw (MUX_OUT rowName) (vec par ''- '')]
       [Text ([Txt (''~MUX_'' @ ptr_text rowName @ ''_PM: MUX21 port map(A => '')]
        @ mux_sources inputConnectionType1 inputConnectionType2 srcRow2 srcRow3
        @ [Txt ''SEL => '', Use (SEL rowName), Txt '',Y => '', Use (MUX_OUT rowName), Txt '');|~'',
           Use (ROW rowName), Txt '' <= '', Use (MEM_RD rowName), Txt ('' '' @ bitwiseOp @ '' ''),
           Use (MUX_OUT rowName), Txt '';||''])]"

definition printAddMux2to1 :: "int \<Rightarrow> ptr \<Rightarrow> string \<Rightarrow> string \<Rightarrow> ptr \<Rightarrow> ptr \<Rightarrow> arch \<Rightarrow> arch" where
  "printAddMux2to1 par rowName inputConnectionType1 inputConnectionType2 srcRow2 srcRow3 =
     emit [Decl ''s~ignal '' (MEM_RD rowName) (vec par ''- ''), Decl signal_kw (SEL rowName) ''std_logic;|'',
           Decl signal_kw (OUT rowName) (vec par ''- ''), Decl signal_kw (COUT rowName) (vec par ''- ''),
           Decl signal_kw (MUX_OUT rowName) (vec par ''- '')]
       [Text ([Txt (''~-- Add mixed|~MUX'' @ ptr_text rowName @ ''i_PM: MUX21 port map(A => '')]
        @ mux_sources inputConnectionType1 inputConnectionType2 srcRow2 srcRow3
        @ [Txt ''SEL => '', Use (SEL rowName), Txt '', Y => '', Use (MUX_OUT rowName), Txt '');| '',
           Txt ''~RCA_PM: RCA port map(A => '', Use (MEM_RD rowName), Txt '', B => '', Use (MUX_OUT rowName),
           Txt '', Cin => '0', Cout => '', Use (COUT rowName), Txt '', S => '', Use (OUT rowName), Txt '');|''])]"

definition printAdd :: "int \<Rightarrow> ptr \<Rightarrow> ptr \<Rightarrow> string \<Rightarrow> arch \<Rightarrow> arch" where
  "printAdd par rowName srcRow2 inputConnectionType =
     emit [Decl signal_kw (MEM_RD rowName) (vec par ''- ''), Decl signal_kw (OUT rowName) (vec par ''- ''),
           Decl signal_kw (COUT rowName) (vec par ''- '')]
       [Adder rowName (source_of inputConnectionType srcRow2) (after_source inputConnectionType '', |'')]"

definition printShiftRight :: "int \<Rightarrow> ptr \<Rightarrow> arch \<Rightarrow> arch" where
  "printShiftRight par rowName =
     emit [Decl signal_kw (MEM_RD rowName) (vec par ''- ''), Decl signal_kw (OUT rowName) (vec par ''- '')]
       [Text [Txt ''~'', Use (OUT rowName), Txt '' <= '', Use (MEM_RD rowName), Txt '';|'']]"

end
