(* ===== verification/Vhdl_Output.thy ===== *)
theory Vhdl_Output
  imports Print_Vhdl
begin

text \<open>
  \<open>Code_Generation/PrintVhdlFile\<close>, continued: the processes, the architecture, the test bench and
  the whole file.
\<close>

section \<open>Processes\<close>

text \<open>
  The index of a row in the memory: the text of its name is read back with \<open>std::stoi\<close> to the base
  16, which throws for what does not fit 32 bits.
\<close>

definition mem_index :: "ptr \<Rightarrow> int res" where
  "mem_index p = (if 0 \<le> p \<and> p < 2 ^ 31 then Inr (p div 4) else Inl (OutOfRange ''stoi''))"

definition fixed_proc :: string where
  "fixed_proc = concat
      [''~rd_proc: process (CLK, RST)|'',
       ''~~begin|'',
       ''~~~if (EN = '1') then  |'',
       ''~~~~if READNOTWRITE = '1' and (CLK'event and CLK = '1') then|'',
       ''~~~~~data_out <= Mem(to_integer(unsigned(address)));|'',
       ''~~~~end if;|'',
       ''~~~end if;|'',
       ''~end process;||'',
       ''~wrt_proc: process (CLK, RST)|'',
       ''~~begin|'',
       ''~~~if (RST = '1') then|'',
       ''~~~~Mem <= (others =>(others =>'0'));|'',
       ''~~~elsif (EN = '1') then  |'',
       ''~~~~if READNOTWRITE = '0' and (CLK'event and CLK = '1') then|'',
       ''~~~~~Mem(to_integer(unsigned(address))) <= data_in;|'',
       ''~~~~end if;|'',
       ''~~~else|'']"

text \<open>
  The statement that writes a row at one of its times. A row of the type \<open>sdiv\<close> takes its input the
  first time and shifts its content after that.
\<close>

definition write_row :: "int \<Rightarrow> limArray \<Rightarrow> ptr \<Rightarrow> statement list \<times> ptr list \<Rightarrow> (statement list \<times> ptr list) res" where
  "write_row par m p = (\<lambda>(sts, firstEnteredShift).
     ebind (isLiMRowOfThisType m p ''sdiv'') (\<lambda>isShift.
     ebind (findRow m p) (\<lambda>row.
     ebind (mem_index p) (\<lambda>i.
       if isShift then
         (if p \<notin> set firstEnteredShift then
            ebind (list_front (inputConnections row)) (\<lambda>src.
              Inr (sts @ [Write_mem i (OUT src)], firstEnteredShift @ [p]))
          else Inr (sts @ [Shift_mem i p par], firstEnteredShift))
       else
         ebind (list_front (inputConnectionsType row)) (\<lambda>type.
         ebind (list_front (inputConnections row)) (\<lambda>src.
           Inr (sts @ [Write_mem i (if type = ''OLiM'' \<or> type = ''none'' then OUT src else MEM_RD src)],
                firstEnteredShift)))))))"

definition write_time ::
  "int \<Rightarrow> limArray \<Rightarrow> int \<times> ptr list \<Rightarrow> comp_item list \<times> ptr list \<Rightarrow> (comp_item list \<times> ptr list) res" where
  "write_time par m = (\<lambda>(t, rows) (items, firstEnteredShift).
     if t = 0 \<or> rows = [] then Inr (items, firstEnteredShift)
     else ebind (efold (write_row par m) rows ([], firstEnteredShift)) (\<lambda>(sts, firstEnteredShift).
       Inr (items @ [Branch (if t = 1 then ''~~~~if ('' else ''~~~~elsif ('') (T (t * 2 - 1)) sts], firstEnteredShift)))"

definition read_row :: "ptr \<Rightarrow> statement list \<Rightarrow> statement list res" where
  "read_row p sts = ebind (mem_index p) (\<lambda>i. Inr (sts @ [Read_mem p i]))"

definition read_time :: "int \<times> ptr list \<Rightarrow> comp_item list \<Rightarrow> comp_item list res" where
  "read_time = (\<lambda>(t, rows) items.
     if rows = [] then Inr items
     else ebind (efold read_row rows []) (\<lambda>sts.
       Inr (items @ [Branch ''~~~elsif ('' (if t = 0 then GO else T (t * 2)) sts])))"

text \<open>The signals \<open>T1\<close>, \<open>T2\<close>, ... that are active one after the other.\<close>

definition reset_T :: "int \<Rightarrow> token list" where
  "reset_T n = concat (map (\<lambda>i. [Txt ''~~~~'', Use (T i), Txt '' <= '0';|'']) [1..2 * n - 2])"

definition declare_T :: "int \<Rightarrow> sig_item list" where
  "declare_T n = map (\<lambda>i. Decl signal_kw (T i) ''std_logic;|'') [1..2 * n - 2]"

definition assign_T :: "int \<Rightarrow> int \<Rightarrow> comp_item" where
  "assign_T n i =
     (if i = 1 then Delay (T i) GO
      else if i = n * 2 - 1 then Delay DONE (T (i - 1))
      else Delay (T i) (T (i - 1)))"

text \<open>The selection signals of the multiplexers.\<close>

definition reset_SEL :: "selectionSignalStruct list \<Rightarrow> token list" where
  "reset_SEL sels = concat (map (\<lambda>s. [Txt ''~~~~'', Use (SEL (destRow s)), Txt '' <= 'X';|'']) sels)"

definition select_row :: "int \<Rightarrow> selectionSignalStruct \<Rightarrow> token list \<Rightarrow> token list res" where
  "select_row i s toks =
     ebind (list_front (activeTimeList s)) (\<lambda>first. ebind (list_back (activeTimeList s)) (\<lambda>last.
       Inr (toks @ (if first = i then [Txt ''~~~~'', Use (SEL (destRow s)), Txt '' <= '0';|'']
                    else if last = i then [Txt ''~~~~'', Use (SEL (destRow s)), Txt '' <= '1';|''] else []))))"

definition select_time :: "selectionSignalStruct list \<Rightarrow> int \<Rightarrow> token list \<Rightarrow> token list res" where
  "select_time sels i toks =
     efold (select_row i) sels
       (toks @ [Txt ''~~~elsif ('', Use (if i = 0 then GO else T (i * 2)), Txt '' = '1') then|''])"

definition printProcesses :: "int \<Rightarrow> limArray \<Rightarrow> fsm \<Rightarrow> arch \<Rightarrow> arch res" where
  "printProcesses par m f a =
     ebind (efold (write_time par m) (FSM f) ([], [])) (\<lambda>(writes, _).
     ebind (efold read_time (FSM f) []) (\<lambda>reads.
     let n = getFSMSize f in
     ebind (efold (select_time (selectionSignalsList f)) [0..n - 1] []) (\<lambda>selections.
       Inr (emit (declare_T n)
         ([Text [Txt fixed_proc]]
          @ writes
          @ [Text ([Txt ''~~~~end if;|~~~end if;|~end process;||'',
                    Txt ''~go_rd_proc: process (CLK)|~~begin|~~~if (RST = '1') then|'']
                   @ concat (map (\<lambda>(p, row). [Txt ''~~~~'', Use (MEM_RD p), Txt '' <= (others => '0');|'']) m))]
          @ reads
          @ [Text ([Txt ''~~~end if;|~end process;||'', Txt ''~t_proc: process (CLK, RST)|~~begin|~~~if (RST = '1') then|'']
                   @ reset_T n
                   @ [Txt ''~~~~'', Use DONE, Txt '' <= '0';|~~~else|~~~~if (CLK'event and CLK = '1') then|''])]
          @ map (assign_T n) [1..2 * n - 1]
          @ [Text ([Txt ''~~~~end if;|~~~end if;|~end process;||'',
                    Txt ''~mux_proc: process (CLK, RST)|~~begin|~~~if (RST = '1') then|'']
                   @ reset_SEL (selectionSignalsList f)
                   @ selections
                   @ [Txt ''~~~end if;|~end process;||''])]) a))))"

section \<open>The architecture\<close>

text \<open>One row of the array: what is printed depends on its type and the number of its connections.\<close>

definition print_bitwise_row :: "int \<Rightarrow> ptr \<Rightarrow> LiMRow \<Rightarrow> arch \<Rightarrow> arch res" where
  "print_bitwise_row par p row a =
     ebind (list_front (inputConnections row)) (\<lambda>_.
     ebind (list_at (inputConnections row) 1) (\<lambda>srcRow2.
     ebind (list_at (inputConnectionsType row) 1) (\<lambda>typeSrc2.
       if length (inputConnections row) > 2 then
         ebind (list_back (inputConnections row)) (\<lambda>srcRow3.
         ebind (list_back (inputConnectionsType row)) (\<lambda>typeSrc3.
           Inr (printBitwiseMux2to1 par (rowType row) p typeSrc2 typeSrc3 srcRow2 srcRow3 (a\<lparr>isMux21Present := True\<rparr>))))
       else if rowType row = ''switch'' then
         (let w = int (length (additionalLogic row));
              a = (if w \<in> set (otherMuxesWidth a) then a else a\<lparr>otherMuxesWidth := otherMuxesWidth a @ [w]\<rparr>)
          in printMixed par p srcRow2 typeSrc2 (additionalLogic row) a)
       else Inr (printBitwise par p srcRow2 typeSrc2 (rowType row) a))))"

definition print_arith_row :: "int \<Rightarrow> ptr \<Rightarrow> LiMRow \<Rightarrow> arch \<Rightarrow> arch res" where
  "print_arith_row par p row a0 =
     (let a = a0\<lparr>isAddPresent := True\<rparr> in
      if rowType row = ''add'' then
        ebind (list_front (inputConnections row)) (\<lambda>_.
        ebind (list_at (inputConnections row) 1) (\<lambda>srcRow2.
        ebind (list_at (inputConnectionsType row) 1) (\<lambda>typeSrc2.
          if length (inputConnections row) > 2 then
            ebind (list_back (inputConnections row)) (\<lambda>srcRow3.
            ebind (list_back (inputConnectionsType row)) (\<lambda>typeSrc3.
              Inr (printAddMux2to1 par p typeSrc2 typeSrc3 srcRow2 srcRow3 (a\<lparr>isMux21Present := True\<rparr>))))
          else Inr (printAdd par p srcRow2 typeSrc2 a))))
      else if rowType row = ''sdiv'' then
        ebind (list_front (inputConnections row)) (\<lambda>_.
        ebind (list_front (additionalLogic row)) (\<lambda>s.
        ebind (stoi s) (\<lambda>shiftAmt.
          Inr (printShiftRight par p a))))
      else Inr a)"

definition print_row :: "int \<Rightarrow> ptr \<times> LiMRow \<Rightarrow> arch \<Rightarrow> arch res" where
  "print_row par = (\<lambda>(p, row) a.
     case map_of LimOperations (rowType row) of
       None \<Rightarrow> Inl (Unreachable ''Error in PrintVhdlFile: unknown compiled operation. The name is not present inside LimOperations map.'')
     | Some opType \<Rightarrow>
         if opType = ''null'' then Inr (emit [Decl signal_kw (MEM_RD p) (vec par ''- '')] [] a)
         else if opType = ''bitwise'' then print_bitwise_row par p row a
         else if opType = ''arith'' then print_arith_row par p row a
         else Inl (Unreachable ''Error in PrintVhdlFile: unknow operation returned from LimOperations.''))"

definition mux21_component :: string where
  "mux21_component = concat
      [''~component MUX21 is|'',
       ''~~port(|'',
       ''~~A: in std_logic_vector(NBIT - 1 downto 0);|'',
       ''~~B: in std_logic_vector(NBIT - 1 downto 0);|'',
       ''~~SEL: in std_logic;|'',
       ''~~Y: out std_logic_vector(NBIT - 1 downto 0));|'',
       ''~ end component;||'']"

definition rca_component :: string where
  "rca_component = concat
      [''~component RCA is|'',
       ''~~generic(NBIT: integer);|'',
       ''~~port(|'',
       ''~~A: in std_logic_vector(NBIT - 1 downto 0);|'',
       ''~~B: in std_logic_vector(NBIT - 1 downto 0);|'',
       ''~~Cin: in std_logic;|'',
       ''~~S: out std_logic_vector(NBIT - 1 downto 0);|'',
       ''~~Cout: out std_logic);|'',
       ''~ end component;||'']"

definition mux_component :: "int \<Rightarrow> string res" where
  "mux_component w =
     ebind (mux_select_width w) (\<lambda>sel.
       Inr (concat ([''~component MUX'', to_string w, ''1 is|~~port(|'']
         @ map (\<lambda>i. ''~~IN_'' @ to_string i @ '': in std_logic;|'') [0..w - 1]
         @ [''~~SEL: in std_logic_vector('', to_string sel, '' - 1 downto 0);|~~Y: out std_logic);|~ end component;||''])))"

definition print_component :: "int \<Rightarrow> string \<Rightarrow> string res" where
  "print_component w dec = ebind (mux_component w) (\<lambda>s. Inr (dec @ s))"

definition arch_start :: "int \<Rightarrow> int \<Rightarrow> arch" where
  "arch_start par entries =
     \<lparr>sigDec = [Line (''~type Mem_array is array (0 to '' @ to_string entries @ '' - 1) of '' @ vec par '' - ''),
                Line ''~signal Mem: Mem_array;|''],
      compInst = [], isMux21Present = False, isAddPresent = False, otherMuxesWidth = []\<rparr>"

definition printArchitecture :: "int \<Rightarrow> int \<Rightarrow> limArray \<Rightarrow> fsm \<Rightarrow> (string \<times> arch) res" where
  "printArchitecture par entries m f =
     ebind (printProcesses par m f (arch_start par entries)) (\<lambda>a.
     ebind (efold (print_row par) m a) (\<lambda>a.
     ebind (efold print_component (otherMuxesWidth a)
        (''architecture struct of EntityName is|''
         @ (if isMux21Present a then mux21_component else [])
         @ (if isAddPresent a then rca_component else []))) (\<lambda>compDec.
       Inr (compDec, emit [Line ''|begin||''] [Text [Txt ''|end struct;|'']] a))))"

section \<open>The test bench\<close>

definition count_input :: "ptr \<times> LiMRow \<Rightarrow> int \<Rightarrow> int res" where
  "count_input = (\<lambda>(p, row) n.
     ebind (list_front (inputConnections row)) (\<lambda>src. Inr (if isInputRow src then n + 1 else n)))"

definition getNumberInputs :: "limArray \<Rightarrow> string res" where
  "getNumberInputs m = ebind (efold count_input m 0) (\<lambda>n. Inr (to_string n))"

definition is_result_row :: "limArray \<Rightarrow> ptr \<times> LiMRow \<Rightarrow> bool" where
  "is_result_row m = (\<lambda>(p, row). rowType row = ''load'' \<and> list_all (\<lambda>(q, other). p \<notin> set (inputConnections other)) m)"

definition resultRowList :: "limArray \<Rightarrow> ptr list" where
  "resultRowList m = map fst (filter (is_result_row m) m)"

definition getNumberOutputs :: "limArray \<Rightarrow> string" where
  "getNumberOutputs m = to_string (int (length (resultRowList m)))"

text \<open>Reading the text of a pointer into an \<open>int\<close> gives the largest one when it does not fit.\<close>

definition row_address :: "ptr \<Rightarrow> int" where
  "row_address p = (if 0 \<le> p \<and> p < 2 ^ 31 then p else 2 ^ 31 - 1) div 4"

definition address_list :: "ptr list \<Rightarrow> string res" where
  "address_list rows =
     (let addressList = concat (map (\<lambda>p. to_string (row_address p) @ '', '') rows)
      in if addressList = [] then Inl (UB ''pop_back of an empty string'')
         else Inr (butlast (butlast addressList) @ '');|''))"

definition testbench_start :: string where
  "testbench_start = concat
      [''library IEEE;|'',
       ''use IEEE.std_logic_1164.all;|'',
       ''use IEEE.numeric_std.all;|'',
       ''|'',
       ''entity EntityName_TB is|'',
       ''end entity;|'',
       ''|'',
       ''architecture test of EntityName_TB is|'',
       ''~|'',
       ''~component EntityName|'',
       ''~~generic(|'',
       ''~~~~word_size: integer;|'',
       ''~~~~entries: integer);~|'',
       ''~~port(   |'',
       ''~~~~clk: in std_logic;|'',
       ''~~~~rst: in std_logic;|'',
       ''~~~~en: in std_logic;|'',
       ''~~~~go: in std_logic;|'',
       ''~~~~done: out std_logic;|'',
       ''~~~~readnotwrite: in std_logic; |'',
       ''~~~~address: in std_logic_vector(word_size - 1 downto 0);|'',
       ''~~~~data_in: in std_logic_vector(word_size - 1 downto 0);  |'',
       ''~~~~data_out: out std_logic_vector(word_size - 1 downto 0));|'',
       ''~end component;|'',
       ''|'',
       ''~signal clk_i : std_logic := '1';|'',
       ''~signal rst_i : std_logic;|'',
       ''~signal en_i : std_logic := '0';|'',
       ''~signal go_i : std_logic := '0';|'',
       ''~signal done_i : std_logic := '0';|'',
       ''~signal readnotwrite_i : std_logic := '0';|'']"

definition testbench_ports :: string where
  "testbench_ports = concat
      [''~~~~~~~~~port map(clk => clk_i, rst => rst_i, en => en_i, go => go_i, done => done_i, readnotwrite => readnotwrite_i, |'',
       ''~~~~~~~~~address => address_i, data_in => data_in_i, data_out => data_out_i);||'']"

definition clk_rst :: "string \<Rightarrow> string" where
  "clk_rst numOutputs = concat
      [''~clk_i <= not(clk_i) after 0.5 ns;|'',
       ''~|'',
       ''~rst_proc : process |'',
       ''~~begin~~~|'',
       ''~~~rst_i <= '1';|'',
       ''~~~wait for '',
       numOutputs,
       '' ns;|'',
       ''~~~rst_i <= '0';|'',
       ''~~~wait;|'',
       ''~end process;||'']"

definition cnt_proc :: "int \<Rightarrow> int \<Rightarrow> string" where
  "cnt_proc entries par = concat
      [''~cnt_proc: process(rst_i, clk_i) |'',
       ''~~variable cnt : integer := 0;|'',
       ''~~variable writeOutputs : integer := 0;|'',
       ''~~begin|'',
       ''~~~if(rst_i = '1') then|'',
       ''~~~~cnt := 0;|'',
       ''~~~elsif (clk_i'event and clk_i = '1') then|'',
       ''~~~~if (cnt = '',
       to_string (entries - 1),
       '' and done_i = '0') then|'',
       ''~~~~~cnt := 0;|'',
       ''~~~~elsif done_i = '1' then|'',
       ''~~~~~cnt := 0;|'',
       ''~~~~~writeOutputs := 1;|'',
       ''~~~~else |'',
       ''~~~~~if(writeOutputs /= 1) then|'',
       ''~~~~~~cnt := cnt + 1;|'',
       ''~~~~~else|'',
       ''~~~~~~cnt := result_address_vector(cnt);|'',
       ''~~~~~end if;|'',
       ''~~~~end if;|'',
       ''~~~end if;|'',
       ''~~~|'',
       ''~~~address_i <= std_logic_vector(to_unsigned(cnt, '',
       to_string par,
       ''));|'',
       ''~end process;||'']"

definition en_proc :: "string \<Rightarrow> string \<Rightarrow> string" where
  "en_proc numInputs numOutputs = concat
      [''~en_proc: process~|'',
       ''~~variable first : boolean := true;|'',
       ''~~begin|'',
       ''~~~if first then|'',
       ''~~~~wait for '',
       numOutputs,
       '' ns;|'',
       ''~~~~first := false;|'',
       ''~~~end if;|'',
       ''~~~en_i <= '1';|'',
       ''~~~readnotwrite_i <= '0';|'',
       ''~~~wait for '',
       numInputs,
       '' ns;|'',
       ''~~~en_i <= '0';|'',
       ''~~~wait until done_i'event and done_i = '0';|'',
       ''~~~en_i <= '1';|'',
       ''~~~readnotwrite_i <= '1';|'',
       ''~~~wait for '',
       numOutputs,
       '' ns;|'',
       ''~end process;||'']"

definition go_proc :: string where
  "go_proc = concat
      [''~go_proc: process|'',
       ''~~begin|'',
       ''~~~wait until en_i'event and en_i = '0';|'',
       ''~~~go_i <= '1';|'',
       ''~~~wait for 1 ns;|'',
       ''~~~go_i <= '0';~|'',
       ''~end process;||'']"

definition wrt_proc :: "int \<Rightarrow> int \<Rightarrow> string" where
  "wrt_proc par n =
     (concat
      [''~wrt_proc: process|'',
       ''~~variable first : boolean := true;|'',
       ''~~begin|'',
       ''~~~if first then|'',
       ''~~~~wait until en_i'event and en_i = '1' and readnotwrite_i = '0';|'',
       ''~~~~first := false;|'',
       ''~~~else|'',
       ''~~~~wait until en_i = '1' and readnotwrite_i = '0';|'',
       ''~~~end if;|''])
     @ concat (map (\<lambda>i. concat [''~~~data_in_i <= std_logic_vector(to_unsigned('', to_string i, '', '', to_string par,
                                   ''));|~~~wait for 1 ns;~~|'']) [0..n - 1])
     @ ''~end process;||''"

definition printTestbench :: "int \<Rightarrow> int \<Rightarrow> limArray \<Rightarrow> string res" where
  "printTestbench par entries m =
     ebind (getNumberInputs m) (\<lambda>numInputs.
     let numOutputs = getNumberOutputs m in
     ebind (address_list (resultRowList m)) (\<lambda>addressList.
     ebind (stoi numInputs) (\<lambda>n.
       Inr (vtxt (concat
         [testbench_start,
          ''~signal address_i : '' @ vec par '' - '', ''~signal data_in_i : '' @ vec par '' - '',
          ''~signal data_out_i : '' @ vec par '' - '' @ ''|'',
          ''~type resultArray is array (0 to '' @ numOutputs @ '' - 1) of integer;|'',
          ''~constant result_address_vector : resultArray := ('', addressList,
          ''begin||'',
          concat [''~comp: EntityName generic map (word_size => '', to_string par, '', entries =>'', to_string entries, '')|''],
          testbench_ports, clk_rst numOutputs, cnt_proc entries par, wrt_proc par n, en_proc numInputs numOutputs, go_proc,
          ''|end test;''])))))"

section \<open>The file\<close>

definition printLib :: string where
  "printLib = concat
      [''-- Imported libraries section|'',
       ''library ieee;|'',
       ''use ieee.numeric_std.all;|'',
       ''use ieee.std_logic_1164.all;|||'']"

definition printEntity :: "int \<Rightarrow> int \<Rightarrow> string" where
  "printEntity par entries = concat
      [''entity EntityName is|'',
       ''~generic(|'',
       ''~~word_size: natural := '',
       to_string par,
       '';|'',
       ''~~entries: natural := '',
       to_string entries,
       '');|'',
       ''~port(|'',
       ''~~RST : in std_logic;|'',
       ''~~CLK : in std_logic;|'',
       ''~~EN : in std_logic;|'',
       ''~~READNOTWRITE : in std_logic;|'',
       ''~~GO : in std_logic;|'',
       ''~~DONE : out std_logic;|'',
       ''~~ADDRESS : in std_logic_vector('',
       to_string par,
       '' - 1 downto 0);|'',
       ''~~DATA_IN : in std_logic_vector('',
       to_string par,
       '' - 1 downto 0);|'',
       ''~~DATA_OUT : out std_logic_vector('',
       to_string par,
       '' - 1 downto 0));|'',
       ''end EntityName;||'']"

text \<open>
  A file that is copied until its end is reached by a failing read: its last character is written twice.
\<close>

definition mergeToOutFile :: "string \<Rightarrow> string \<Rightarrow> string res" where
  "mergeToOutFile dest source =
     (if source = [] then Inl (UB ''mergeToOutFile writes ch uninitialised'') else Inr (dest @ source @ [last source]))"

record vhdl_output =
  v_arch :: arch
  v_vhd :: string
  v_tb :: string

text \<open>The parallelism is a member that is always 8.\<close>

definition vhdl_par :: int where
  "vhdl_par = 8"

definition printVhdl :: "limArray \<Rightarrow> fsm \<Rightarrow> vhdl_output res" where
  "printVhdl m f =
     (let entries = getDimensions m;
          out = vtxt (concat [''--#-----------------------------------------------#|'',
                  ''--# .vhd file generated by Octantis tool #|'',
                  ''--#-----------------------------------------------#|||'',
                  printLib, printEntity vhdl_par entries]) in
      ebind (printArchitecture vhdl_par entries m f) (\<lambda>(compDec, a).
      ebind (mergeToOutFile out (vtxt compDec)) (\<lambda>out.
      ebind (mergeToOutFile out (concat (map render_sig (sigDec a)))) (\<lambda>out.
      ebind (mergeToOutFile out (render (items_tokens (compInst a)))) (\<lambda>out.
      ebind (printTestbench vhdl_par entries m) (\<lambda>tb.
        Inr \<lparr>v_arch = a, v_vhd = out, v_tb = tb\<rparr>))))))"

end
