(* ===== verification/Vhdl_Proofs.thy ===== *)
theory Vhdl_Proofs
  imports Vhdl_Output "HOL-Library.Sublist"
begin

text \<open>
  What \<open>PrintVhdlFile\<close> prints for the arrays of memory rows, additions and logic operators of two
  inputs: the printer does not fail, its items are known explicitly, and every signal they use is
  declared. What it prints for other operations uses signals that are not declared, and the instances of
  the adder it prints do not map the generic of their component.
\<close>

section \<open>Signals of a text\<close>

definition uses :: "token list \<Rightarrow> signal set" where
  "uses ts = {s. Use s \<in> set ts}"

definition declared :: "sig_item list \<Rightarrow> signal set" where
  "declared sigs = {s. \<exists>ty. Decl signal_kw s ty \<in> set sigs}"

lemma uses_simps [simp]:
  "uses [] = {}" "uses (Txt s # ts) = uses ts" "uses (Mem i # ts) = uses ts" "uses (Use x # ts) = insert x (uses ts)"
  "uses (xs @ ys) = uses xs \<union> uses ys"
  by (auto simp: uses_def)

lemma uses_concat [simp]: "uses (concat tss) = (\<Union>ts \<in> set tss. uses ts)"
  by (auto simp: uses_def)

lemma uses_items: "uses (items_tokens items) = (\<Union>it \<in> set items. uses (item_tokens it))"
  by (simp add: items_tokens_def)

lemma declared_simps [simp]:
  "declared [] = {}" "declared (Line s # ds) = declared ds"
  "declared (Decl k x ty # ds) = (if k = signal_kw then insert x (declared ds) else declared ds)"
  "declared (ds @ es) = declared ds \<union> declared es"
  by (auto simp: declared_def)

lemma declared_concat [simp]: "declared (concat dss) = (\<Union>ds \<in> set dss. declared ds)"
  by (auto simp: declared_def)

lemma emit_fields [simp]:
  "sigDec (emit ss ts a) = sigDec a @ ss" "compInst (emit ss ts a) = compInst a @ ts"
  "isMux21Present (emit ss ts a) = isMux21Present a" "isAddPresent (emit ss ts a) = isAddPresent a"
  "otherMuxesWidth (emit ss ts a) = otherMuxesWidth a"
  by (simp_all add: emit_def)

lemma declared_T [simp]: "declared (declare_T n) = T ` {1..2 * n - 2}"
  by (auto simp: declared_def declare_T_def)

section \<open>Printable arrays\<close>

definition printed_logic :: "string set" where
  "printed_logic = {''add'', ''and'', ''nand'', ''or'', ''nor'', ''xnor'', ''xor''}"

text \<open>A memory row, or a row with an operator that is fed by what has been read from another row.\<close>

definition printable_row :: "limArray \<Rightarrow> LiMRow \<Rightarrow> bool" where
  "printable_row m row \<longleftrightarrow> inputConnections row \<noteq> [] \<and> (rowType row = ''load'' \<or>
     rowType row \<in> printed_logic \<and> (\<exists>c s ty. inputConnections row = [c, s] \<and>
       inputConnectionsType row = [ty, ''OC''] \<and> s \<in> dom (sm_find m)))"

text \<open>The row gets the output of a LiM row.\<close>

definition fed_by :: "limArray \<Rightarrow> ptr \<Rightarrow> ptr \<Rightarrow> bool" where
  "fed_by m p c \<longleftrightarrow> (\<exists>row cs tys crow. sm_find m p = Some row \<and> inputConnections row = c # cs \<and>
     inputConnectionsType row = ''OLiM'' # tys \<and> sm_find m c = Some crow \<and> rowType crow \<noteq> ''load'')"

text \<open>
  The times follow each other without a gap, each row is listed, and a row that is written after time 0
  gets the output of a LiM row.
\<close>

definition printable :: "limArray \<Rightarrow> fsm \<Rightarrow> bool" where
  "printable m f \<longleftrightarrow> sm_inv m \<and> sm_inv (FSM f) \<and> selectionSignalsList f = [] \<and> 2 \<le> getFSMSize f \<and>
     fst ` set (FSM f) = {0..<getFSMSize f} \<and> int (length m) < 2 ^ 31 \<and> resultRowList m \<noteq> [] \<and>
     (\<forall>(p, row) \<in> set m. 0 \<le> p \<and> p < 2 ^ 31 \<and> 4 dvd p \<and> printable_row m row) \<and>
     (\<forall>(t, rows) \<in> set (FSM f). rows \<noteq> [] \<and> set rows \<subseteq> dom (sm_find m) \<and>
        (t \<noteq> 0 \<longrightarrow> (\<forall>p \<in> set rows. \<exists>c. fed_by m p c)))"

lemma printable_names:
  assumes "printable m f" "p \<in> dom (sm_find m)"
  shows "0 \<le> p" "p < 2 ^ 31" "4 dvd p"
  using assms sm.entries_iff[of m p] by (fastforce simp: printable_def)+

lemma printable_rowD:
  assumes "printable m f" "sm_find m p = Some row"
  shows "printable_row m row"
  using assms sm.entries_iff[of m p row] by (fastforce simp: printable_def)

lemma printable_fed:
  assumes "printable m f" "(t, rows) \<in> set (FSM f)" "t \<noteq> 0" "p \<in> set rows"
  shows "\<exists>c. fed_by m p c"
proof -
  have "\<forall>x \<in> set (FSM f). case x of (t, rows) \<Rightarrow> rows \<noteq> [] \<and> set rows \<subseteq> dom (sm_find m) \<and>
      (t \<noteq> 0 \<longrightarrow> (\<forall>p \<in> set rows. \<exists>c. fed_by m p c))"
    using assms(1) unfolding printable_def by (elim conjE)
  from bspec[OF this assms(2)] show ?thesis using assms(3,4) by simp
qed

lemma printable_not_sdiv: "printable_row m row \<Longrightarrow> rowType row \<noteq> ''sdiv''"
  by (auto simp: printable_row_def printed_logic_def)

section \<open>The rows\<close>

definition row_source :: "LiMRow \<Rightarrow> ptr" where
  "row_source row = inputConnections row ! 1"

definition row_items :: "ptr \<times> LiMRow \<Rightarrow> comp_item list" where
  "row_items = (\<lambda>(p, row).
     if rowType row = ''load'' then []
     else if rowType row = ''add'' then [Adder p (MEM_RD (row_source row)) '', |'']
     else [Bitwise p (rowType row) (MEM_RD (row_source row))])"

definition row_signals :: "ptr \<times> LiMRow \<Rightarrow> signal set" where
  "row_signals = (\<lambda>(p, row).
     if rowType row = ''load'' then {MEM_RD p}
     else if rowType row = ''add'' then {MEM_RD p, OUT p, COUT p} else {MEM_RD p, OUT p})"

lemma print_row_printable:
  assumes "printable_row m row"
  shows "\<exists>a' ds. print_row par (p, row) a = Inr a' \<and> sigDec a' = sigDec a @ ds \<and> declared ds = row_signals (p, row) \<and>
    compInst a' = compInst a @ row_items (p, row) \<and> otherMuxesWidth a' = otherMuxesWidth a"
proof (cases "rowType row = ''load''")
  case True
  then show ?thesis by (auto simp: print_row_def LimOperations_def row_signals_def row_items_def)
next
  case False
  then obtain c s ty where row: "rowType row \<in> printed_logic" "inputConnections row = [c, s]"
    "inputConnectionsType row = [ty, ''OC'']"
    using assms by (auto simp: printable_row_def)
  show ?thesis
  proof (cases "rowType row = ''add''")
    case True
    then show ?thesis
      using row(2-3) by (auto simp: print_row_def LimOperations_def print_arith_row_def list_front_def list_at_def
          printAdd_def source_of_def after_source_def row_signals_def row_items_def row_source_def Let_def)
  next
    case False
    then have op: "map_of LimOperations (rowType row) = Some ''bitwise''" "rowType row \<noteq> ''switch''" "rowType row \<noteq> ''load''"
      using row(1) by (auto simp: printed_logic_def LimOperations_def)
    then show ?thesis
      using row(2-3) False by (auto simp: print_row_def print_bitwise_row_def list_front_def list_at_def
          printBitwise_def source_of_def row_signals_def row_items_def row_source_def)
  qed
qed

lemma print_rows_printable:
  assumes "\<forall>(p, row) \<in> set l. printable_row m row"
  shows "\<exists>a' ds. efold (print_row par) l a = Inr a' \<and> sigDec a' = sigDec a @ ds \<and>
    declared ds = (\<Union>pr \<in> set l. row_signals pr) \<and>
    compInst a' = compInst a @ concat (map row_items l) \<and> otherMuxesWidth a' = otherMuxesWidth a"
  using assms
proof (induction l arbitrary: a)
  case (Cons pr l)
  obtain p row where pr: "pr = (p, row)" by (cases pr)
  obtain a1 ds where a1: "print_row par pr a = Inr a1" "sigDec a1 = sigDec a @ ds" "declared ds = row_signals pr"
    "compInst a1 = compInst a @ row_items pr" "otherMuxesWidth a1 = otherMuxesWidth a"
    using print_row_printable[of m row par p a] Cons.prems pr by auto
  obtain a2 es where a2: "efold (print_row par) l a1 = Inr a2" "sigDec a2 = sigDec a1 @ es"
    "declared es = (\<Union>pr \<in> set l. row_signals pr)"
    "compInst a2 = compInst a1 @ concat (map row_items l)" "otherMuxesWidth a2 = otherMuxesWidth a1"
    using Cons.IH[of a1] Cons.prems by auto
  show ?case
    by (rule exI[of _ a2], rule exI[of _ "ds @ es"]) (use a1 a2 in simp)
qed simp

section \<open>The processes\<close>

definition write_statement :: "limArray \<Rightarrow> ptr \<Rightarrow> statement" where
  "write_statement m p = Write_mem (p div 4) (OUT (hd (inputConnections (the (sm_find m p)))))"

definition write_branch :: "limArray \<Rightarrow> int \<times> ptr list \<Rightarrow> comp_item list" where
  "write_branch m = (\<lambda>(t, rows). if t = 0 then []
     else [Branch (if t = 1 then ''~~~~if ('' else ''~~~~elsif ('') (T (t * 2 - 1)) (map (write_statement m) rows)])"

definition read_branch :: "int \<times> ptr list \<Rightarrow> comp_item" where
  "read_branch = (\<lambda>(t, rows).
     Branch ''~~~elsif ('' (if t = 0 then GO else T (t * 2)) (map (\<lambda>p. Read_mem p (p div 4)) rows))"

lemma efold_collect_with:
  assumes "\<And>x u. x \<in> set xs \<Longrightarrow> f x (u, c) = Inr (u @ g x, c)"
  shows "efold f xs (s, c) = Inr (s @ concat (map g xs), c)"
  using assms by (induction xs arbitrary: s) auto

lemma write_row_printable:
  assumes "printable m f" "fed_by m p c"
  shows "write_row par m p (sts, l) = Inr (sts @ [write_statement m p], l)"
proof -
  obtain row cs tys where row: "sm_find m p = Some row" "inputConnections row = c # cs"
    "inputConnectionsType row = ''OLiM'' # tys"
    using assms(2) by (auto simp: fed_by_def)
  note names = printable_names[OF assms(1), of p]
  show ?thesis
    using row names printable_not_sdiv[OF printable_rowD[OF assms(1) row(1)]]
    by (simp add: write_row_def isLiMRowOfThisType_def findRow_def mem_index_def list_front_def write_statement_def domI)
qed

lemma writes_printable:
  assumes "printable m f"
  shows "efold (write_time par m) (FSM f) ([], []) = Inr (concat (map (write_branch m) (FSM f)), [])"
proof -
  have step: "write_time par m x (u, []) = Inr (u @ write_branch m x, [])" if x: "x \<in> set (FSM f)" for x u
  proof -
    obtain t rows where tr: "x = (t, rows)" by (cases x)
    have r: "rows \<noteq> []" "t \<noteq> 0 \<Longrightarrow> \<forall>p \<in> set rows. \<exists>c. fed_by m p c"
      using assms x tr by (auto simp: printable_def)
    have "efold (write_row par m) rows ([], []) = Inr ([] @ concat (map (\<lambda>p. [write_statement m p]) rows), [])" if "t \<noteq> 0"
      by (rule efold_collect_with) (use r(2)[OF that] write_row_printable[OF assms] in blast)
    moreover have "concat (map (\<lambda>p. [write_statement m p]) ps) = map (write_statement m) ps" for ps
      by (induction ps) auto
    ultimately show ?thesis using r(1) by (simp add: tr write_time_def write_branch_def)
  qed
  show ?thesis using efold_collect_with[OF step, where s = "[]"] by simp
qed

lemma reads_printable:
  assumes "printable m f"
  shows "efold read_time (FSM f) [] = Inr (map read_branch (FSM f))"
proof -
  have step: "read_time x u = Inr (u @ [read_branch x])" if x: "x \<in> set (FSM f)" for x u
  proof -
    obtain t rows where tr: "x = (t, rows)" by (cases x)
    have r: "rows \<noteq> []" "\<forall>p \<in> set rows. p \<in> dom (sm_find m)"
      using assms x tr by (auto simp: printable_def)
    have "efold read_row rows [] = Inr ([] @ concat (map (\<lambda>p. [Read_mem p (p div 4)]) rows))"
      by (rule efold_collect) (use r(2) printable_names[OF assms] in \<open>auto simp: read_row_def mem_index_def\<close>)
    moreover have "concat (map (\<lambda>p. [Read_mem p (p div 4)]) ps) = map (\<lambda>p. Read_mem p (p div 4)) ps" for ps
      by (induction ps) auto
    ultimately show ?thesis using r(1) by (simp add: tr read_time_def read_branch_def)
  qed
  have "concat (map (\<lambda>x. [read_branch x]) xs) = map read_branch xs" for xs by (induction xs) auto
  then show ?thesis using efold_collect[of "FSM f" read_time "\<lambda>x. [read_branch x]" "[]"] step by simp
qed

definition selection_tokens :: "int \<Rightarrow> token list" where
  "selection_tokens i = [Txt ''~~~elsif ('', Use (if i = 0 then GO else T (i * 2)), Txt '' = '1') then|'']"

lemma selections_printable:
  "efold (select_time []) l toks = Inr (toks @ concat (map selection_tokens l))"
  by (rule efold_collect) (simp add: select_time_def selection_tokens_def)

definition process_items :: "limArray \<Rightarrow> fsm \<Rightarrow> comp_item list" where
  "process_items m f =
     [Text [Txt fixed_proc]] @ concat (map (write_branch m) (FSM f))
     @ [Text ([Txt ''~~~~end if;|~~~end if;|~end process;||'',
               Txt ''~go_rd_proc: process (CLK)|~~begin|~~~if (RST = '1') then|'']
              @ concat (map (\<lambda>(p, row). [Txt ''~~~~'', Use (MEM_RD p), Txt '' <= (others => '0');|'']) m))]
     @ map read_branch (FSM f)
     @ [Text ([Txt ''~~~end if;|~end process;||'', Txt ''~t_proc: process (CLK, RST)|~~begin|~~~if (RST = '1') then|'']
              @ reset_T (getFSMSize f)
              @ [Txt ''~~~~'', Use DONE, Txt '' <= '0';|~~~else|~~~~if (CLK'event and CLK = '1') then|''])]
     @ map (assign_T (getFSMSize f)) [1..2 * getFSMSize f - 1]
     @ [Text ([Txt ''~~~~end if;|~~~end if;|~end process;||'',
               Txt ''~mux_proc: process (CLK, RST)|~~begin|~~~if (RST = '1') then|'']
              @ concat (map selection_tokens [0..getFSMSize f - 1])
              @ [Txt ''~~~end if;|~end process;||''])]"

definition array_items :: "limArray \<Rightarrow> fsm \<Rightarrow> comp_item list" where
  "array_items m f = process_items m f @ concat (map row_items m) @ [Text [Txt ''|end struct;|'']]"

lemma printProcesses_printable:
  assumes "printable m f"
  shows "printProcesses par m f a = Inr (emit (declare_T (getFSMSize f)) (process_items m f) a)"
proof -
  have "selectionSignalsList f = []" using assms by (simp add: printable_def)
  then show ?thesis
    by (simp add: printProcesses_def writes_printable[OF assms] reads_printable[OF assms] selections_printable
        process_items_def reset_SEL_def Let_def)
qed

lemma arch_start_fields [simp]:
  "compInst (arch_start par entries) = []" "declared (sigDec (arch_start par entries)) = {}"
  "otherMuxesWidth (arch_start par entries) = []"
  by (simp_all add: arch_start_def)

lemma printArchitecture_printable:
  assumes "printable m f"
  obtains compDec a where "printArchitecture par entries m f = Inr (compDec, a)" "compDec \<noteq> []"
    "concat (map render_sig (sigDec a)) \<noteq> []"
    "compInst a = array_items m f"
    "declared (sigDec a) = T ` {1..2 * getFSMSize f - 2} \<union> (\<Union>pr \<in> set m. row_signals pr)"
proof -
  have rows: "\<forall>(p, row) \<in> set m. printable_row m row" using assms by (auto simp: printable_def)
  let ?a1 = "emit (declare_T (getFSMSize f)) (process_items m f) (arch_start par entries)"
  obtain a ds where a: "efold (print_row par) m ?a1 = Inr a" "sigDec a = sigDec ?a1 @ ds"
    "declared ds = (\<Union>pr \<in> set m. row_signals pr)" "compInst a = compInst ?a1 @ concat (map row_items m)"
    "otherMuxesWidth a = []"
    using print_rows_printable[OF rows, of par ?a1] by auto
  have "\<exists>compDec. printArchitecture par entries m f = Inr (compDec, emit [Line ''|begin||''] [Text [Txt ''|end struct;|'']] a) \<and>
      compDec \<noteq> []"
    using a(5) by (simp add: printArchitecture_def printProcesses_printable[OF assms] a(1))
  then obtain compDec where
    "printArchitecture par entries m f = Inr (compDec, emit [Line ''|begin||''] [Text [Txt ''|end struct;|'']] a)"
    "compDec \<noteq> []" by blast
  then show thesis by (rule that) (simp_all add: a(2-4) array_items_def vtxt_def)
qed

section \<open>The whole file\<close>

lemma count_inputs:
  assumes "\<forall>pr \<in> set l. inputConnections (snd pr) \<noteq> []"
  shows "\<exists>k. efold count_input l n = Inr k \<and> n \<le> k \<and> k \<le> n + int (length l)"
  using assms
proof (induction l arbitrary: n)
  case (Cons pr l)
  obtain p row where pr: "pr = (p, row)" by (cases pr)
  obtain c cs where c: "inputConnections row = c # cs" using Cons.prems pr by (cases "inputConnections row") auto
  have "count_input pr n = Inr (if isInputRow c then n + 1 else n)"
    using c by (simp add: pr count_input_def list_front_def)
  then show ?case using Cons.IH[of "if isInputRow c then n + 1 else n"] Cons.prems by auto
qed simp

lemma printTestbench_printable:
  assumes "printable m f"
  shows "\<exists>tb. printTestbench par entries m = Inr tb"
proof -
  have rows: "\<forall>pr \<in> set m. inputConnections (snd pr) \<noteq> []"
    using assms by (fastforce simp: printable_def printable_row_def)
  obtain k where k: "efold count_input m 0 = Inr k" "0 \<le> k" "k \<le> int (length m)" using count_inputs[OF rows, of 0] by auto
  have "int (length m) < 2 ^ 31" "resultRowList m \<noteq> []" using assms by (simp_all add: printable_def)
  then have n: "stoi (to_string k @ []) = Inr k" by (intro stoi_to_string) (use k(2,3) in auto)
  have "to_string i \<noteq> []" for i by (simp add: to_string_def)
  then have "concat (map (\<lambda>p. to_string (row_address p) @ '', '') (resultRowList m)) \<noteq> []"
    using \<open>resultRowList m \<noteq> []\<close> by (cases "resultRowList m") simp_all
  then obtain al where "address_list (resultRowList m) = Inr al" by (simp add: address_list_def)
  then show ?thesis using n by (simp add: printTestbench_def getNumberInputs_def k(1) Let_def)
qed

lemma printVhdl_printable:
  assumes "printable m f"
  obtains out where "printVhdl m f = Inr out" "compInst (v_arch out) = array_items m f"
    "declared (sigDec (v_arch out)) = T ` {1..2 * getFSMSize f - 2} \<union> (\<Union>pr \<in> set m. row_signals pr)"
proof -
  obtain compDec a where a: "printArchitecture vhdl_par (getDimensions m) m f = Inr (compDec, a)" "compDec \<noteq> []"
    "concat (map render_sig (sigDec a)) \<noteq> []" "compInst a = array_items m f"
    "declared (sigDec a) = T ` {1..2 * getFSMSize f - 2} \<union> (\<Union>pr \<in> set m. row_signals pr)"
    by (rule printArchitecture_printable[OF assms])
  obtain tb where tb: "printTestbench vhdl_par (getDimensions m) m = Inr tb"
    using printTestbench_printable[OF assms] by blast
  have "vtxt compDec \<noteq> []" using a(2) by (simp add: vtxt_def)
  moreover have "render (items_tokens (compInst a)) \<noteq> []"
    by (simp add: a(4) array_items_def items_tokens_def render_def vtxt_def)
  ultimately have "\<exists>v. printVhdl m f = Inr \<lparr>v_arch = a, v_vhd = v, v_tb = tb\<rparr>"
    using a(1,3) tb by (simp add: printVhdl_def Let_def mergeToOutFile_def)
  then show thesis using that a(4,5) by auto
qed

lemma row_tokens_uses:
  assumes "printable_row m row" "it \<in> set (row_items (p, row))"
  shows "uses (item_tokens it) \<subseteq> row_signals (p, row) \<union> MEM_RD ` dom (sm_find m)"
proof -
  have "row_source row \<in> dom (sm_find m)" if "rowType row \<noteq> ''load''"
    using assms(1) that by (auto simp: printable_row_def row_source_def)
  then show ?thesis using assms(2) by (auto simp: row_items_def row_signals_def split: if_splits)
qed

lemma row_signals_OUT: "sm_find m c = Some crow \<Longrightarrow> sm_inv m \<Longrightarrow> rowType crow \<noteq> ''load'' \<Longrightarrow> OUT c \<in> (\<Union>pr \<in> set m. row_signals pr)"
proof -
  assume c: "sm_find m c = Some crow" "sm_inv m" "rowType crow \<noteq> ''load''"
  then have "(c, crow) \<in> set m" by (simp add: sm.entries_iff)
  moreover have "OUT c \<in> row_signals (c, crow)" using c(3) by (simp add: row_signals_def)
  ultimately show ?thesis by blast
qed

lemma row_signals_MEM_RD: "sm_inv m \<Longrightarrow> MEM_RD ` dom (sm_find m) \<subseteq> (\<Union>pr \<in> set m. row_signals pr)"
proof
  fix s assume inv: "sm_inv m" and "s \<in> MEM_RD ` dom (sm_find m)"
  then obtain p row where p: "s = MEM_RD p" "sm_find m p = Some row" by auto
  then have "(p, row) \<in> set m" using inv by (simp add: sm.entries_iff)
  moreover have "s \<in> row_signals (p, row)" using p(1) by (simp add: row_signals_def)
  ultimately show "s \<in> (\<Union>pr \<in> set m. row_signals pr)" by blast
qed

lemma write_branch_uses:
  assumes "printable m f" "x \<in> set (FSM f)" "it \<in> set (write_branch m x)"
  shows "uses (item_tokens it) \<subseteq> T ` {1..2 * getFSMSize f - 2} \<union> (\<Union>pr \<in> set m. row_signals pr)"
proof -
  obtain t rows where x: "x = (t, rows)" by (cases x)
  have t: "t \<noteq> 0" "it = Branch (if t = 1 then ''~~~~if ('' else ''~~~~elsif ('') (T (t * 2 - 1)) (map (write_statement m) rows)"
    using assms(3) by (auto simp: x write_branch_def split: if_splits)
  have "t \<in> fst ` set (FSM f)" using assms(2) x by force
  then have range: "1 \<le> t" "t < getFSMSize f" using assms(1) t(1) by (auto simp: printable_def)
  have "\<forall>p \<in> set rows. \<exists>c. fed_by m p c" using assms(1,2) x t(1) by (auto simp: printable_def)
  then have "hd (inputConnections (the (sm_find m p))) \<in> {c. \<exists>crow. sm_find m c = Some crow \<and> rowType crow \<noteq> ''load''}"
    if "p \<in> set rows" for p using that by (fastforce simp: fed_by_def)
  then have "OUT (hd (inputConnections (the (sm_find m p)))) \<in> (\<Union>pr \<in> set m. row_signals pr)" if "p \<in> set rows" for p
    using that row_signals_OUT[of m] assms(1) by (simp add: printable_def) blast
  moreover have "T (t * 2 - 1) \<in> T ` {1..2 * getFSMSize f - 2}" using range by auto
  ultimately show ?thesis by (auto simp: t(2) write_statement_def)
qed

lemma read_branch_uses:
  assumes "printable m f" "x \<in> set (FSM f)"
  shows "uses (item_tokens (read_branch x)) \<subseteq> {GO} \<union> T ` {1..2 * getFSMSize f - 2} \<union> MEM_RD ` dom (sm_find m)"
proof -
  obtain t rows where x: "x = (t, rows)" by (cases x)
  have "t \<in> fst ` set (FSM f)" using assms(2) x by force
  then have "0 \<le> t" "t < getFSMSize f" using assms(1) by (auto simp: printable_def)
  moreover have "set rows \<subseteq> dom (sm_find m)" using assms x by (auto simp: printable_def)
  ultimately show ?thesis by (auto simp: x read_branch_def)
qed

text \<open>The signals that are declared, and the ports.\<close>

definition known_signals :: "limArray \<Rightarrow> fsm \<Rightarrow> signal set" where
  "known_signals m f = {GO, DONE} \<union> T ` {1..2 * getFSMSize f - 2} \<union> (\<Union>pr \<in> set m. row_signals pr)"

lemma known_signalsI:
  "GO \<in> known_signals m f" "DONE \<in> known_signals m f"
  "1 \<le> i \<Longrightarrow> i \<le> 2 * getFSMSize f - 2 \<Longrightarrow> T i \<in> known_signals m f"
  "pr \<in> set m \<Longrightarrow> row_signals pr \<subseteq> known_signals m f"
  "sm_inv m \<Longrightarrow> MEM_RD ` dom (sm_find m) \<subseteq> known_signals m f"
  using row_signals_MEM_RD[of m] by (auto simp: known_signals_def)

lemma text_uses:
  assumes "sm_inv m"
  shows "uses (reset_T (getFSMSize f)) \<subseteq> known_signals m f"
    "1 \<le> getFSMSize f \<Longrightarrow> uses (concat (map selection_tokens [0..getFSMSize f - 1])) \<subseteq> known_signals m f"
    "uses (concat (map (\<lambda>(p, row). [Txt ''~~~~'', Use (MEM_RD p), Txt '' <= (others => '0');|'']) m)) \<subseteq> known_signals m f"
proof -
  show "uses (reset_T (getFSMSize f)) \<subseteq> known_signals m f"
    by (auto simp: reset_T_def intro: known_signalsI)
  show "uses (concat (map selection_tokens [0..getFSMSize f - 1])) \<subseteq> known_signals m f" if "1 \<le> getFSMSize f"
    by (auto simp: selection_tokens_def known_signalsI(1,3))
  have "MEM_RD p \<in> known_signals m f" if "(p, row) \<in> set m" for p row
    by (rule subsetD[OF known_signalsI(4)[OF that]]) (simp add: row_signals_def)
  then show "uses (concat (map (\<lambda>(p, row). [Txt ''~~~~'', Use (MEM_RD p), Txt '' <= (others => '0');|'']) m))
      \<subseteq> known_signals m f"
    by auto
qed

lemma assign_T_uses:
  assumes "2 \<le> getFSMSize f" "1 \<le> i" "i \<le> 2 * getFSMSize f - 1"
  shows "uses (item_tokens (assign_T (getFSMSize f) i)) \<subseteq> known_signals m f"
  using assms by (simp add: assign_T_def known_signalsI)

lemma array_items_closed:
  assumes "printable m f"
  shows "uses (items_tokens (array_items m f)) \<subseteq> known_signals m f"
proof -
  have inv: "sm_inv m" and n: "2 \<le> getFSMSize f" using assms by (simp_all add: printable_def)
  have known: "\<And>A. A \<subseteq> T ` {1..2 * getFSMSize f - 2} \<union> (\<Union>pr \<in> set m. row_signals pr) \<Longrightarrow> A \<subseteq> known_signals m f"
    unfolding known_signals_def by blast
  have read: "uses (item_tokens (read_branch x)) \<subseteq> known_signals m f" if "x \<in> set (FSM f)" for x
  proof (rule subset_trans[OF read_branch_uses[OF assms that]], intro Un_least)
    show "T ` {1..2 * getFSMSize f - 2} \<subseteq> known_signals m f" by (auto simp: known_signals_def)
  qed (simp_all add: known_signalsI inv)
  have row: "uses (item_tokens it) \<subseteq> known_signals m f" if "pr \<in> set m" "it \<in> set (row_items pr)" for pr it
  proof -
    obtain p row where pr: "pr = (p, row)" by (cases pr)
    have "printable_row m row" using assms that(1) pr by (auto simp: printable_def)
    then have "uses (item_tokens it) \<subseteq> row_signals pr \<union> MEM_RD ` dom (sm_find m)"
      using row_tokens_uses that(2) unfolding pr by blast
    also have "\<dots> \<subseteq> known_signals m f" by (intro Un_least known_signalsI(4)[OF that(1)] known_signalsI(5)[OF inv])
    finally show ?thesis .
  qed
  have item: "uses (item_tokens it) \<subseteq> known_signals m f" if it: "it \<in> set (array_items m f)" for it
  proof -
    consider (tx) ts where "it = Text ts" "uses ts \<subseteq> known_signals m f"
      | (wr) x where "x \<in> set (FSM f)" "it \<in> set (write_branch m x)" | (read) x where "x \<in> set (FSM f)" "it = read_branch x"
      | (time) i where "1 \<le> i" "i \<le> 2 * getFSMSize f - 1" "it = assign_T (getFSMSize f) i"
      | (row) pr where "pr \<in> set m" "it \<in> set (row_items pr)"
      using it text_uses[OF inv, of f] n
      by (auto simp: array_items_def process_items_def known_signalsI simp del: uses_concat)
    then show ?thesis
    proof cases
      case wr
      then show ?thesis using known[OF write_branch_uses[OF assms]] by blast
    qed (use read row assign_T_uses[OF n] in simp_all)
  qed
  show ?thesis unfolding uses_items by (rule UN_least, rule item)
qed

section \<open>Rows without a declaration\<close>

text \<open>
  The rows for which no declaration of \<open>MEM_RD\<close> is printed: the arithmetic operations other than the
  sum and the division, and a sum with a multiplexer, whose declaration has a tabulator in its keyword.
\<close>

definition undeclared_row :: "LiMRow \<Rightarrow> bool" where
  "undeclared_row row \<longleftrightarrow> rowType row \<in> {''sub'', ''mul'', ''shl'', ''shr'', ''ashr''} \<or>
     rowType row = ''add'' \<and> 2 < length (inputConnections row)"

lemma slip_keyword [simp]: "''s~ignal '' \<noteq> signal_kw"
  by (simp add: signal_kw_def)

lemma MEM_RD_emit:
  "MEM_RD p \<in> declared (sigDec (emit ds its a)) \<longleftrightarrow> MEM_RD p \<in> declared ds \<or> MEM_RD p \<in> declared (sigDec a)"
  by auto

lemma emit_emit: "emit ds' its' (emit ds its a) = emit (ds @ ds') (its @ its') a"
  by (simp add: emit_def)

lemma fold_emit: "fold (\<lambda>x. emit (ds x) (its x)) l a = emit (concat (map ds l)) (concat (map its l)) a"
  by (induction l arbitrary: a) (simp_all add: emit_def)

lemma printMixed_emits:
  assumes "printMixed par q src ty ops a = Inr a'"
  shows "\<exists>ds its. a' = emit ds its a \<and> declared ds \<subseteq> {MEM_RD q, OUT q, SEL q} \<union> range (OP_OUT q)"
proof -
  obtain w where "a' = emit [] [Text [Txt ''~end generate;||'']]
      (fold (\<lambda>x. emit [Decl signal_kw (OP_OUT q (fst x)) (vec par ''- '')]
         [Text [Txt ''~~'', Use (OP_OUT q (fst x)), Txt '' <= '', Use (MEM_RD q), Txt (''(i) '' @ snd x @ '' ''),
                Use (source_of ty src), Txt (after_source ty '';|'')]])
        (zip [0..int (length ops) - 1] ops)
        (emit [Decl signal_kw (MEM_RD q) (vec par '' - ''), Decl signal_kw (OUT q) (vec par '' - ''),
               Decl signal_kw (SEL q) (''std_logic_vector('' @ to_string w @ '' - 1 downto 0);|'')]
              [Text ([Txt (''~ MUX_'' @ ptr_text q @ ''_PM: MUX21 port map('')]
               @ concat (map (\<lambda>i. [Txt (''IN_'' @ to_string i @ '' => ''), Use (OP_OUT q i), Txt '', ''])
                    [0..int (length ops) - 1])
               @ [Txt ''SEL => '', Use (SEL q), Txt '', Y => '', Use (OUT q), Txt '');|''])] a))"
    using assms by (auto simp: printMixed_def Let_def ebind_Inr_iff case_prod_unfold split: if_splits)
  then show ?thesis unfolding fold_emit emit_emit by (intro exI conjI, assumption) (auto simp: declared_def)
qed

lemma print_row_declares:
  assumes "print_row par (q, row) a = Inr a'" "MEM_RD p \<in> declared (sigDec a')"
  shows "p = q \<and> \<not> undeclared_row row \<or> MEM_RD p \<in> declared (sigDec a)"
proof -
  obtain ty where ty: "map_of LimOperations (rowType row) = Some ty"
    using assms(1) by (auto simp: print_row_def split: option.splits)
  consider "ty = ''null''" | "ty = ''bitwise''" | "ty = ''arith''"
    using assms(1) ty by (auto simp: print_row_def split: if_splits)
  then show ?thesis
  proof cases
    case 1
    then have "rowType row = ''load''" using ty by (auto simp: LimOperations_def split: if_splits)
    then show ?thesis using assms ty 1 by (auto simp: print_row_def undeclared_row_def split: if_splits)
  next
    case 2
    then have "\<not> undeclared_row row" using ty by (auto simp: LimOperations_def undeclared_row_def)
    moreover have "print_bitwise_row par q row a = Inr a'" using assms(1) ty 2 by (simp add: print_row_def)
    ultimately show ?thesis
      using assms(2) by (auto simp: print_bitwise_row_def Let_def res_simps printBitwiseMux2to1_def printBitwise_def
          dest!: printMixed_emits split: if_splits)
  next
    case 3
    then have "print_arith_row par q row a = Inr a'" using assms(1) ty by (simp add: print_row_def)
    moreover have "rowType row = ''sdiv'' \<Longrightarrow> \<not> undeclared_row row" by (simp add: undeclared_row_def)
    ultimately show ?thesis
      using assms(2)
      by (auto simp: print_arith_row_def Let_def res_simps printAddMux2to1_def printAdd_def printShiftRight_def
          undeclared_row_def split: if_splits)
  qed
qed

lemma print_rows_declare:
  assumes "efold (print_row par) l a = Inr a'" "MEM_RD p \<in> declared (sigDec a')"
    and "\<And>row. (p, row) \<in> set l \<Longrightarrow> undeclared_row row"
  shows "MEM_RD p \<in> declared (sigDec a)"
proof -
  let ?P = "\<lambda>u. MEM_RD p \<in> declared (sigDec u) \<longrightarrow> MEM_RD p \<in> declared (sigDec a)"
  have "?P a'"
  proof (rule efold_invariant[where P = ?P, OF assms(1)])
    show "?P u'" if "x \<in> set l" "?P u" "print_row par x u = Inr u'" for x u u'
      using print_row_declares[of par "fst x" "snd x" u u' p] that assms(3)[of "snd x"] by (cases x) auto
  qed simp
  then show ?thesis using assms(2) by simp
qed

lemma print_row_kept:
  assumes "print_row par pr a = Inr a'"
  shows "\<exists>its. compInst a' = compInst a @ its"
proof -
  show ?thesis
    using assms
    by (cases pr) (auto dest!: printMixed_emits simp: print_row_def print_bitwise_row_def print_arith_row_def Let_def res_simps
        printBitwiseMux2to1_def printBitwise_def printAddMux2to1_def printAdd_def printShiftRight_def
        split: if_splits option.splits)
qed

lemma print_rows_kept:
  assumes "efold (print_row par) l a = Inr a'"
  shows "set (compInst a) \<subseteq> set (compInst a')"
proof -
  have step: "set (compInst a) \<subseteq> set (compInst u')" if "set (compInst a) \<subseteq> set (compInst u)" "print_row par x u = Inr u'" for x u u'
    using print_row_kept[OF that(2)] that(1) by auto
  show ?thesis
    by (rule efold_invariant[where P = "\<lambda>u. set (compInst a) \<subseteq> set (compInst u)", OF assms]) (simp, rule step)
qed

lemma printVhdl_Inr:
  assumes "printVhdl m f = Inr out"
  obtains a1 a2 where "printProcesses vhdl_par m f (arch_start vhdl_par (getDimensions m)) = Inr a1"
    "efold (print_row vhdl_par) m a1 = Inr a2" "v_arch out = emit [Line ''|begin||''] [Text [Txt ''|end struct;|'']] a2"
  using assms by (auto simp: printVhdl_def printArchitecture_def Let_def ebind_Inr_iff)

lemma printProcesses_Inr:
  assumes "printProcesses par m f a = Inr a'"
  shows "sigDec a' = sigDec a @ declare_T (getFSMSize f) \<and>
    (\<exists>ts. Text (ts @ concat (map (\<lambda>(p, row). [Txt ''~~~~'', Use (MEM_RD p), Txt '' <= (others => '0');|'']) m)) \<in> set (compInst a'))"
proof -
  obtain ws rs w where "a' = emit (declare_T (getFSMSize f)) ([Text [Txt fixed_proc]] @ ws
      @ [Text ([Txt ''~~~~end if;|~~~end if;|~end process;||'',
                Txt ''~go_rd_proc: process (CLK)|~~begin|~~~if (RST = '1') then|'']
               @ concat (map (\<lambda>(p, row). [Txt ''~~~~'', Use (MEM_RD p), Txt '' <= (others => '0');|'']) m))] @ rs) a"
    using assms by (auto simp: printProcesses_def Let_def ebind_Inr_iff)
  then show ?thesis unfolding emit_fields by simp blast
qed

section \<open>Sums\<close>

text \<open>What stands between an instance of the adder and its ports: no generic map.\<close>

definition rca_instance :: string where
  "rca_instance = '': RCA port map(A => ''"

definition rca_header :: string where
  "rca_header = ''component RCA is|~~generic(NBIT: integer);|''"

definition instance_token :: "token \<Rightarrow> bool" where
  "instance_token t \<longleftrightarrow> (\<exists>pre post. t = Txt (pre @ rca_instance @ post))"

lemma instance_tokenI: "instance_token (Txt (pre @ rca_instance))"
  unfolding instance_token_def by (intro exI[of _ pre] exI[of _ "[]"]) simp

lemma print_row_sum:
  assumes "print_row par (p, row) a = Inr a'" "rowType row = ''add''"
  shows "isAddPresent a'" "\<exists>it \<in> set (compInst a'). \<exists>t \<in> set (item_tokens it). instance_token t"
proof -
  have pr: "print_arith_row par p row a = Inr a'" using assms by (simp add: print_row_def LimOperations_def)
  show "isAddPresent a'"
    using pr assms(2) by (auto simp: print_arith_row_def Let_def res_simps printAddMux2to1_def printAdd_def split: if_splits)
  have "instance_token (Txt (''~-- Add|~~~RCA_'' @ ptr_text p @ ''_PM: RCA port map(A => ''))"
    using instance_tokenI[of "''~-- Add|~~~RCA_'' @ ptr_text p @ ''_PM''"] by (simp add: rca_instance_def)
  moreover have "instance_token (Txt ''~RCA_PM: RCA port map(A => '')"
    using instance_tokenI[of "''~RCA_PM''"] by (simp add: rca_instance_def)
  ultimately show "\<exists>it \<in> set (compInst a'). \<exists>t \<in> set (item_tokens it). instance_token t"
    using pr assms(2) by (auto simp: print_arith_row_def Let_def res_simps printAddMux2to1_def printAdd_def split: if_splits)
qed

lemma print_row_isAdd:
  assumes "print_row par pr a = Inr a'" "isAddPresent a"
  shows "isAddPresent a'"
  using assms
  by (cases pr) (auto dest!: printMixed_emits simp: print_row_def print_bitwise_row_def print_arith_row_def Let_def res_simps
      printBitwiseMux2to1_def printBitwise_def printAddMux2to1_def printAdd_def printShiftRight_def
      split: if_splits option.splits)

lemma print_rows_sum:
  assumes "efold (print_row par) l a = Inr a'" "(p, row) \<in> set l" "rowType row = ''add''"
  shows "isAddPresent a'" "\<exists>it \<in> set (compInst a'). \<exists>t \<in> set (item_tokens it). instance_token t"
proof -
  obtain xs ys where l: "l = xs @ (p, row) # ys" using split_list[OF assms(2)] by blast
  obtain u v where u: "print_row par (p, row) u = Inr v" "efold (print_row par) ys v = Inr a'"
    using assms(1) unfolding l efold_append by (auto simp: res_simps)
  note v = print_row_sum[OF u(1) assms(3)]
  show "isAddPresent a'"
    by (rule efold_invariant[where P = isAddPresent, OF u(2) v(1)]) (rule print_row_isAdd)
  show "\<exists>it \<in> set (compInst a'). \<exists>t \<in> set (item_tokens it). instance_token t"
    using v(2) print_rows_kept[OF u(2)] by blast
qed

lemma print_components_extend:
  assumes "efold print_component ws dec = Inr dec'"
  shows "\<exists>more. dec' = dec @ more"
proof (rule efold_invariant[where P = "\<lambda>d. \<exists>more. d = dec @ more", OF assms])
  show "\<exists>more. u' = dec @ more" if "\<exists>more. u = dec @ more" "print_component w u = Inr u'" for w u u'
    using that by (auto simp: print_component_def ebind_Inr_iff)
qed simp

lemma sublist_concat_map: "x \<in> set xs \<Longrightarrow> sublist (g x) (concat (map g xs))"
proof -
  assume "x \<in> set xs"
  then obtain ys zs where "xs = ys @ x # zs" using split_list by metis
  then have "concat (map g xs) = concat (map g ys) @ g x @ concat (map g zs)" by simp
  then show "sublist (g x) (concat (map g xs))" by simp
qed

lemma sublist_vtxt: "sublist xs ys \<Longrightarrow> sublist (vtxt xs) (vtxt ys)"
proof -
  assume "sublist xs ys"
  then obtain pre post where "ys = pre @ xs @ post" unfolding sublist_def by blast
  then have "vtxt ys = vtxt pre @ vtxt xs @ vtxt post" by (simp add: vtxt_def)
  then show "sublist (vtxt xs) (vtxt ys)" by simp
qed

lemma sublist_between: "sublist xs ys \<Longrightarrow> sublist xs (pre @ ys @ post)"
  using sublist_order.order_trans[OF _ sublist_appendI] .

lemma rca_header_component: "sublist rca_header rca_component"
proof -
  have "rca_component = ''~'' @ rca_header @ concat
      [''~~port(|'', ''~~A: in std_logic_vector(NBIT - 1 downto 0);|'', ''~~B: in std_logic_vector(NBIT - 1 downto 0);|'',
       ''~~Cin: in std_logic;|'', ''~~S: out std_logic_vector(NBIT - 1 downto 0);|'', ''~~Cout: out std_logic);|'',
       ''~ end component;||'']"
    by (simp add: rca_component_def rca_header_def)
  then show ?thesis by (metis sublist_appendI)
qed

lemma merge_chain:
  assumes "ebind (mergeToOutFile start dec) (\<lambda>out. ebind (mergeToOutFile out sigs) (\<lambda>out.
      ebind (mergeToOutFile out body) (\<lambda>out. ebind tb (\<lambda>tb. Inr \<lparr>v_arch = a, v_vhd = out, v_tb = tb\<rparr>)))) = Inr res"
  shows "v_arch res = a \<and> (\<exists>mid post. v_vhd res = start @ dec @ mid @ body @ post)"
proof -
  have res: "v_arch res = a" "v_vhd res = start @ dec @ last dec # sigs @ last sigs # body @ [last body]"
    using assms by (auto simp: mergeToOutFile_def ebind_Inr_iff split: if_splits)
  then have "v_vhd res = start @ dec @ (last dec # sigs @ [last sigs]) @ body @ [last body]" by simp
  then show ?thesis using res(1) by blast
qed

lemma printVhdl_text:
  assumes "printVhdl m f = Inr out"
  obtains compDec a pre mid post where "printArchitecture vhdl_par (getDimensions m) m f = Inr (compDec, a)"
    "v_arch out = a" "v_vhd out = pre @ vtxt compDec @ mid @ render (items_tokens (compInst a)) @ post"
proof -
  obtain compDec a where arch: "printArchitecture vhdl_par (getDimensions m) m f = Inr (compDec, a)"
    using assms by (cases "printArchitecture vhdl_par (getDimensions m) m f") (auto simp: printVhdl_def)
  have "v_arch out = a \<and> (\<exists>pre mid post. v_vhd out = pre @ vtxt compDec @ mid @ render (items_tokens (compInst a)) @ post)"
    using assms merge_chain unfolding printVhdl_def Let_def arch ebind_simps prod.case by blast
  then show thesis using that[OF arch] by blast
qed

lemma render_instance:
  assumes "it \<in> set items" "t \<in> set (item_tokens it)" "instance_token t"
  shows "sublist rca_instance (render (items_tokens items))"
proof -
  obtain pre post where t: "t = Txt (pre @ rca_instance @ post)" using assms(3) by (auto simp: instance_token_def)
  have "vtxt rca_instance = rca_instance" by (simp add: vtxt_def rca_instance_def)
  then have "render_token t = vtxt pre @ rca_instance @ vtxt post" by (simp add: t vtxt_def)
  then have "sublist rca_instance (render_token t)" by (metis sublist_appendI)
  moreover have "t \<in> set (items_tokens items)" using assms(1,2) by (auto simp: items_tokens_def)
  ultimately show ?thesis unfolding render_def using sublist_concat_map sublist_order.order_trans by metis
qed

section \<open>Properties\<close>

text \<open>
  C18: the VHDL file is closed if all rows are memory rows, or have a sum or a bitwise operator of two inputs,
  no multiplexer, and the times follow each other without a gap (\<open>printable\<close>): then the printer
  does not fail, and every signal the statements of the architecture use is declared as a signal, or is one of
  the ports \<open>GO\<close> and \<open>DONE\<close>.
\<close>

theorem printVhdl_closed:
  assumes "printable m f"
  shows "\<exists>out. printVhdl m f = Inr out \<and>
    uses (items_tokens (compInst (v_arch out))) \<subseteq> declared (sigDec (v_arch out)) \<union> {GO, DONE}"
proof -
  obtain out where "printVhdl m f = Inr out" "compInst (v_arch out) = array_items m f"
    "declared (sigDec (v_arch out)) = T ` {1..2 * getFSMSize f - 2} \<union> (\<Union>pr \<in> set m. row_signals pr)"
    by (rule printVhdl_printable[OF assms])
  then show ?thesis using array_items_closed[OF assms] by (intro exI[of _ out]) (simp add: known_signals_def Un_ac)
qed


text \<open>Two loaded rows, of which the second is also the LiM row of an operation, and the row of its result.\<close>

definition binary_array :: "string \<Rightarrow> limArray" where
  "binary_array op =
     [(0, \<lparr>rowType = ''load'', rowLength = 8, inputConnections = [no_input], inputConnectionsType = [''none''], additionalLogic = []\<rparr>),
      (4, \<lparr>rowType = op, rowLength = 8, inputConnections = [no_input, 0], inputConnectionsType = [''none'', ''OC''],
           additionalLogic = []\<rparr>),
      (8, \<lparr>rowType = ''load'', rowLength = 8, inputConnections = [4], inputConnectionsType = [''OLiM''], additionalLogic = []\<rparr>)]"

abbreviation and_array :: limArray where
  "and_array \<equiv> binary_array ''and''"

lemmas and_array_def = binary_array_def

definition and_fsm :: fsm where
  "and_fsm = \<lparr>FSM = [(0, [0, 4]), (1, [8])], FSM2 = [(0, 0), (4, 0), (8, 1)], selectionSignalsList = []\<rparr>"

lemma and_finds:
  "sm_find (binary_array op) p = (if p = 0 then Some (snd ((binary_array op) ! 0)) else if p = 4 then Some (snd ((binary_array op) ! 1))
     else if p = 8 then Some (snd ((binary_array op) ! 2)) else None)"
  "sm_find (FSM2 and_fsm) p = (if p = 0 \<or> p = 4 then Some 0 else if p = 8 then Some 1 else None)"
  "sm_find (FSM and_fsm) t = (if t = 0 then Some [0, 4] else if t = 1 then Some [8] else None)"
  by (simp_all add: binary_array_def and_fsm_def)

lemma and_fed: "op \<noteq> ''load'' \<Longrightarrow> fed_by (binary_array op) p c \<longleftrightarrow> p = 8 \<and> c = 4"
  by (auto simp: fed_by_def and_finds) (auto simp: binary_array_def split: if_splits)

lemma binary_printable:
  assumes "op \<in> printed_logic"
  shows "printable (binary_array op) and_fsm"
proof -
  have op: "op \<noteq> ''load''" using assms by (auto simp: printed_logic_def)
  have dom: "dom (sm_find (binary_array op)) = {0, 4, 8}" by (auto simp: and_finds dom_def split: if_splits)
  have rows: "0 \<le> p \<and> p < 2 ^ 31 \<and> 4 dvd p \<and> printable_row (binary_array op) row" if "(p, row) \<in> set (binary_array op)" for p row
    using that dom by (auto simp: binary_array_def printable_row_def assms)
  have times: "rows \<noteq> [] \<and> set rows \<subseteq> {0, 4, 8} \<and> (t \<noteq> 0 \<longrightarrow> (\<forall>p \<in> set rows. \<exists>c. fed_by (binary_array op) p c))"
    if "(t, rows) \<in> set (FSM and_fsm)" for t rows
    using that by (auto simp: and_fed[OF op] and_fsm_def)
  have "resultRowList (binary_array op) \<noteq> []"
    by (simp add: binary_array_def resultRowList_def is_result_row_def no_input_def op)
  moreover have "fst ` set (FSM and_fsm) = {0..<getFSMSize and_fsm}" by (auto simp: and_fsm_def getFSMSize_def)
  moreover have "sm_inv (binary_array op)" "int (length (binary_array op)) < 2 ^ 31" by (simp_all add: binary_array_def)
  moreover have "sm_inv (FSM and_fsm)" "selectionSignalsList and_fsm = []" "2 \<le> getFSMSize and_fsm"
    by (simp_all add: and_fsm_def getFSMSize_def)
  moreover have "\<forall>(p, row) \<in> set (binary_array op). 0 \<le> p \<and> p < 2 ^ 31 \<and> 4 dvd p \<and> printable_row (binary_array op) row"
    using rows by blast
  moreover have "\<forall>(t, rows) \<in> set (FSM and_fsm). rows \<noteq> [] \<and> set rows \<subseteq> {0, 4, 8} \<and>
      (t \<noteq> 0 \<longrightarrow> (\<forall>p \<in> set rows. \<exists>c. fed_by (binary_array op) p c))"
    using times by blast
  ultimately show ?thesis unfolding printable_def dom by (intro conjI)
qed

lemma and_printable: "printable and_array and_fsm"
  by (rule binary_printable) (simp add: printed_logic_def)

theorem printVhdl_closed_witness:
  "\<exists>out. printVhdl and_array and_fsm = Inr out \<and>
    uses (items_tokens (compInst (v_arch out))) \<subseteq> declared (sigDec (v_arch out)) \<union> {GO, DONE}"
  by (rule printVhdl_closed[OF and_printable])

text \<open>
  C40: the operations without a declaration: for a row of the type \<open>sub\<close>, \<open>mul\<close>, \<open>shl\<close>, \<open>shr\<close> or \<open>ashr\<close>,
  and for a sum with a multiplexer, whatever else is in the array, the file resets the signal of the
  content of the row, and does not declare it.
\<close>

theorem printVhdl_undeclared:
  assumes "printVhdl m f = Inr out" "sm_inv m" "sm_find m p = Some row" "undeclared_row row"
  shows "MEM_RD p \<in> uses (items_tokens (compInst (v_arch out))) \<and> MEM_RD p \<notin> declared (sigDec (v_arch out))"
proof -
  obtain a1 a2 where a: "printProcesses vhdl_par m f (arch_start vhdl_par (getDimensions m)) = Inr a1"
    "efold (print_row vhdl_par) m a1 = Inr a2" "v_arch out = emit [Line ''|begin||''] [Text [Txt ''|end struct;|'']] a2"
    by (rule printVhdl_Inr[OF assms(1)])
  note a1 = printProcesses_Inr[OF a(1)]
  have row: "(p, row) \<in> set m" using assms(2,3) by (simp add: sm.entries_iff)
  have "undeclared_row row'" if "(p, row') \<in> set m" for row'
    using that assms(2-4) by (simp add: sm.entries_iff)
  from print_rows_declare[OF a(2) _ this] have "MEM_RD p \<notin> declared (sigDec a2)"
    using a1 by auto
  moreover obtain ts where "Text (ts @ concat (map (\<lambda>(p, row). [Txt ''~~~~'', Use (MEM_RD p), Txt '' <= (others => '0');|'']) m))
      \<in> set (compInst a2)" using a1 print_rows_kept[OF a(2)] by blast
  ultimately show ?thesis
    using row by (force simp: a(3) uses_items)
qed

abbreviation sub_array :: limArray where
  "sub_array \<equiv> binary_array ''sub''"

lemmas sub_array_def = binary_array_def

definition sub_fsm :: fsm where
  "sub_fsm = \<lparr>FSM = [(0, [0, 4]), (1, [8])], FSM2 = [(0, 0), (4, 0), (8, 1)], selectionSignalsList = []\<rparr>"

theorem printVhdl_undeclared_witness:
  "\<exists>out. printVhdl sub_array sub_fsm = Inr out \<and>
     MEM_RD 4 \<in> uses (items_tokens (compInst (v_arch out))) \<and> MEM_RD 4 \<notin> declared (sigDec (v_arch out))"
proof -
  have inv: "sm_inv sub_array" by (simp add: sub_array_def)
  have upto: "[0..1::int] = [0, 1]" by (simp add: upto.simps)
  have procs: "\<exists>a1. printProcesses vhdl_par sub_array sub_fsm (arch_start vhdl_par 3) = Inr a1 \<and> otherMuxesWidth a1 = []"
    by (simp add: printProcesses_def sub_fsm_def getFSMSize_def write_time_def write_row_def sub_array_def isLiMRowOfThisType_def
        findRow_def mem_index_def list_front_def read_time_def read_row_def select_time_def upto Let_def)
  then obtain a1 where a1: "printProcesses vhdl_par sub_array sub_fsm (arch_start vhdl_par 3) = Inr a1" "otherMuxesWidth a1 = []"
    by blast
  have rows: "\<exists>a2. efold (print_row vhdl_par) sub_array a1 = Inr a2 \<and> otherMuxesWidth a2 = []"
    using a1(2) by (simp add: sub_array_def print_row_def LimOperations_def print_arith_row_def)
  have arch: "\<exists>compDec a. printArchitecture vhdl_par 3 sub_array sub_fsm = Inr (compDec, a) \<and> compDec \<noteq> [] \<and>
      concat (map render_sig (sigDec a)) \<noteq> [] \<and> compInst a \<noteq> [] \<and> last (compInst a) = Text [Txt ''|end struct;|'']"
    using rows by (auto simp: printArchitecture_def a1(1) vtxt_def)
  have two: "stoi (to_string 2 @ []) = Inr 2" by (intro stoi_to_string) simp_all
  have tb: "\<exists>tb. printTestbench vhdl_par 3 sub_array = Inr tb"
    using two by (simp add: printTestbench_def getNumberInputs_def sub_array_def count_input_def list_front_def isInputRow_def
        no_input_def address_list_def resultRowList_def is_result_row_def Let_def)
  have "\<exists>out. printVhdl sub_array sub_fsm = Inr out"
  proof -
    have dims: "getDimensions sub_array = 3" by (simp add: getDimensions_def sub_array_def)
    obtain compDec a tb where "printArchitecture vhdl_par 3 sub_array sub_fsm = Inr (compDec, a)" "compDec \<noteq> []"
      "concat (map render_sig (sigDec a)) \<noteq> []" "compInst a \<noteq> []" "last (compInst a) = Text [Txt ''|end struct;|'']"
      "printTestbench vhdl_par 3 sub_array = Inr tb" using arch tb by blast
    moreover have "render (items_tokens its) \<noteq> []" if "its \<noteq> []" "last its = Text [Txt ''|end struct;|'']" for its
    proof -
      have "its = butlast its @ [Text [Txt ''|end struct;|'']]" using that append_butlast_last_id[of its] by simp
      then obtain bs where "its = bs @ [Text [Txt ''|end struct;|'']]" by blast
      then have "items_tokens its = items_tokens bs @ [Txt ''|end struct;|'']" by (simp add: items_tokens_def)
      then show ?thesis by (simp add: render_def vtxt_def)
    qed
    ultimately show ?thesis by (auto simp: printVhdl_def dims mergeToOutFile_def Let_def vtxt_def)
  qed
  moreover have "sm_find sub_array 4 = Some \<lparr>rowType = ''sub'', rowLength = 8, inputConnections = [no_input, 0],
      inputConnectionsType = [''none'', ''OC''], additionalLogic = []\<rparr>"
    by (simp add: sub_array_def)
  ultimately show ?thesis using printVhdl_undeclared[OF _ inv] by (fastforce simp: undeclared_row_def)
qed

text \<open>
  A file with a sum does not elaborate: as soon as a row of the array has the type \<open>add\<close>, the file that
  is printed declares the component \<open>RCA\<close> with a generic that has no default, and has an instance of it
  whose port map follows the name of the component at once, without a generic map.
\<close>

theorem printVhdl_sum_generic:
  assumes "printVhdl m f = Inr out" "sm_inv m" "sm_find m p = Some row" "rowType row = ''add''"
  shows "sublist (vtxt ''component RCA is|~~generic(NBIT: integer);|'') (v_vhd out) \<and>
    sublist '': RCA port map(A => '' (v_vhd out)"
proof -
  obtain a1 a2 where a: "printProcesses vhdl_par m f (arch_start vhdl_par (getDimensions m)) = Inr a1"
    "efold (print_row vhdl_par) m a1 = Inr a2" "v_arch out = emit [Line ''|begin||''] [Text [Txt ''|end struct;|'']] a2"
    by (rule printVhdl_Inr[OF assms(1)])
  have row: "(p, row) \<in> set m" using assms(2,3) by (simp add: sm.entries_iff)
  note sum = print_rows_sum[OF a(2) row assms(4)]
  obtain compDec a3 pre mid post where vhd: "printArchitecture vhdl_par (getDimensions m) m f = Inr (compDec, a3)"
    "v_arch out = a3" "v_vhd out = pre @ vtxt compDec @ mid @ render (items_tokens (compInst a3)) @ post"
    by (rule printVhdl_text[OF assms(1)])
  have dec: "efold print_component (otherMuxesWidth a2) (''architecture struct of EntityName is|''
         @ (if isMux21Present a2 then mux21_component else []) @ (if isAddPresent a2 then rca_component else [])) = Inr compDec"
    using vhd(1) unfolding printArchitecture_def a(1,2) ebind_simps by (auto simp: ebind_Inr_iff)
  obtain more where "compDec = (''architecture struct of EntityName is|''
         @ (if isMux21Present a2 then mux21_component else [])) @ rca_component @ more"
    using print_components_extend[OF dec] sum(1) by auto
  then have "sublist rca_header compDec" using sublist_between[OF rca_header_component] by (simp only:)
  then have "sublist (vtxt rca_header) (v_vhd out)"
    unfolding vhd(3) by (intro sublist_between sublist_vtxt)
  moreover have "sublist rca_instance (render (items_tokens (compInst a3)))"
  proof -
    obtain it t where it: "it \<in> set (compInst a2)" "t \<in> set (item_tokens it)" "instance_token t" using sum(2) by blast
    have "it \<in> set (compInst a3)" using it(1) unfolding vhd(2)[symmetric] a(3) by simp
    then show ?thesis by (rule render_instance[OF _ it(2,3)])
  qed
  then have "sublist rca_instance (v_vhd out)"
    unfolding vhd(3) using sublist_between[of rca_instance _ "pre @ vtxt compDec @ mid" post] by simp
  ultimately show ?thesis unfolding rca_header_def rca_instance_def by (rule conjI)
qed

theorem printVhdl_sum_generic_witness:
  "\<exists>out. printVhdl (binary_array ''add'') and_fsm = Inr out \<and>
     sublist (vtxt ''component RCA is|~~generic(NBIT: integer);|'') (v_vhd out) \<and>
     sublist '': RCA port map(A => '' (v_vhd out)"
proof -
  have "printable (binary_array ''add'') and_fsm" by (rule binary_printable) (simp add: printed_logic_def)
  then obtain out where "printVhdl (binary_array ''add'') and_fsm = Inr out" by (rule printVhdl_printable)
  moreover have "sm_inv (binary_array ''add'')" by (simp add: binary_array_def)
  moreover have "sm_find (binary_array ''add'') 4 = Some (snd (binary_array ''add'' ! 1))" by (simp add: and_finds)
  moreover have "rowType (snd (binary_array ''add'' ! 1)) = ''add''" by (simp add: binary_array_def)
  ultimately show ?thesis using printVhdl_sum_generic by blast
qed

end
