(* ===== verification/Vhdl_Semantics.thy ===== *)
theory Vhdl_Semantics
  imports Vhdl_Proofs "HOL-Library.Word"
begin

text \<open>
  The behaviour of the architecture that \<open>PrintVhdlFile\<close> prints, between two accesses from outside
  (\<open>RST\<close> and \<open>EN\<close> are 0): what the statements of its processes do at the edges of the clock, and the
  theorem that the printed hardware computes what its rows and their connections say, and then raises
  \<open>DONE\<close>.

  The processes \<open>wrt_proc\<close> and \<open>go_rd_proc\<close> react to every event of \<open>CLK\<close>, \<open>t_proc\<close> to rising edges. At an
  event every process reads the values from before the event. The branches between two texts are one
  chain of \<open>if\<close> and \<open>elsif\<close>. A memory access outside the array, and a signal that no statement drives,
  stop the run (\<open>None\<close>). A row with a sum drives nothing: its component \<open>RCA\<close> has a generic without a
  default, which its instances do not map (\<open>printVhdl_sum_generic\<close>), so that a file with sums does not
  elaborate. The theorems on the hardware are on arrays without sums.
\<close>

unbundle bit_operations_syntax

section \<open>The hardware\<close>

type_synonym byte = "8 word"

record hw =
  hw_active :: "signal \<Rightarrow> bool"
  hw_mem :: "byte list"
  hw_rd :: "ptr \<Rightarrow> byte"

text \<open>The logic operators of VHDL on vectors.\<close>

definition gates :: "(string \<times> (byte \<Rightarrow> byte \<Rightarrow> byte)) list" where
  "gates = [(''and'', \<lambda>a b. a AND b), (''nand'', \<lambda>a b. NOT (a AND b)), (''or'', \<lambda>a b. a OR b),
     (''nor'', \<lambda>a b. NOT (a OR b)), (''xor'', \<lambda>a b. a XOR b), (''xnor'', \<lambda>a b. NOT (a XOR b))]"

definition gate :: "string \<Rightarrow> byte \<Rightarrow> byte \<Rightarrow> byte option" where
  "gate op a b = map_option (\<lambda>g. g a b) (map_of gates op)"

fun drive :: "(ptr \<Rightarrow> byte) \<Rightarrow> comp_item \<Rightarrow> (ptr \<times> byte) option" where
  "drive rd (Bitwise p op (MEM_RD s)) = map_option (Pair p) (gate op (rd p) (rd s))"
| "drive rd _ = None"

fun signal_value :: "comp_item list \<Rightarrow> (ptr \<Rightarrow> byte) \<Rightarrow> signal \<Rightarrow> byte option" where
  "signal_value items rd (MEM_RD p) = Some (rd p)"
| "signal_value items rd (OUT p) = map_of (List.map_filter (drive rd) items) p"
| "signal_value items rd _ = None"

text \<open>The statements whose branches are entered, when \<open>act\<close> tells which signals are 1.\<close>

fun executed :: "(signal \<Rightarrow> bool) \<Rightarrow> bool \<Rightarrow> comp_item list \<Rightarrow> statement list" where
  "executed act taken [] = []"
| "executed act taken (Branch kw s sts # its) =
     (if \<not> taken \<and> act s then sts @ executed act True its else executed act taken its)"
| "executed act taken (Text ts # its) = executed act False its"
| "executed act taken (it # its) = executed act taken its"

text \<open>One statement: it reads the state \<open>old\<close> from before the event.\<close>

fun exec_statement :: "comp_item list \<Rightarrow> hw \<Rightarrow> statement \<Rightarrow> hw \<Rightarrow> hw option" where
  "exec_statement items old (Write_mem i s) new =
     (case signal_value items (hw_rd old) s of
        None \<Rightarrow> None
      | Some v \<Rightarrow> if 0 \<le> i \<and> nat i < length (hw_mem old)
                  then Some (new\<lparr>hw_mem := (hw_mem new)[nat i := v]\<rparr>) else None)"
| "exec_statement items old (Shift_mem i p par) new =
     (if 0 \<le> i \<and> nat i < length (hw_mem old)
      then Some (new\<lparr>hw_mem := (hw_mem new)[nat i := drop_bit 1 (hw_rd old p)]\<rparr>) else None)"
| "exec_statement items old (Read_mem p i) new =
     (if 0 \<le> i \<and> nat i < length (hw_mem old)
      then Some (new\<lparr>hw_rd := (hw_rd new)(p := hw_mem old ! nat i)\<rparr>) else None)"

fun exec_statements :: "comp_item list \<Rightarrow> hw \<Rightarrow> statement list \<Rightarrow> hw \<Rightarrow> hw option" where
  "exec_statements items old [] new = Some new"
| "exec_statements items old (st # sts) new =
     Option.bind (exec_statement items old st new) (exec_statements items old sts)"

text \<open>The signals after a rising edge.\<close>

fun delay_entry :: "comp_item \<Rightarrow> (signal \<times> signal) option" where
  "delay_entry (Delay target source) = Some (target, source)"
| "delay_entry _ = None"

definition next_active :: "comp_item list \<Rightarrow> (signal \<Rightarrow> bool) \<Rightarrow> signal \<Rightarrow> bool" where
  "next_active items act s =
     (case map_of (List.map_filter delay_entry items) s of Some source \<Rightarrow> act source | None \<Rightarrow> act s)"

definition clock_event :: "comp_item list \<Rightarrow> bool \<Rightarrow> hw \<Rightarrow> hw option" where
  "clock_event items rising st =
     Option.bind (exec_statements items st (executed (hw_active st) False items) st) (\<lambda>st'.
       Some (if rising then st'\<lparr>hw_active := next_active items (hw_active st)\<rparr> else st'))"

text \<open>A period of the clock, from a falling edge to the end of a rising one, in which \<open>GO\<close> has a value.\<close>

definition clock_period :: "comp_item list \<Rightarrow> bool \<Rightarrow> hw \<Rightarrow> hw option" where
  "clock_period items go st =
     Option.bind (clock_event items False (st\<lparr>hw_active := (hw_active st)(GO := go)\<rparr>)) (clock_event items True)"

fun clock_periods :: "comp_item list \<Rightarrow> bool list \<Rightarrow> hw \<Rightarrow> hw option" where
  "clock_periods items [] st = Some st"
| "clock_periods items (go # gos) st =
     Option.bind (clock_period items go st) (clock_periods items gos)"

text \<open>A pulse of \<open>GO\<close>, and \<open>k\<close> periods after it.\<close>

definition pulse :: "nat \<Rightarrow> bool list" where
  "pulse k = True # replicate k False"

section \<open>What the rows say\<close>

definition row_value :: "LiMRow \<Rightarrow> byte \<Rightarrow> byte \<Rightarrow> byte option" where
  "row_value row = gate (rowType row)"

abbreviation cell :: "ptr \<Rightarrow> nat" where
  "cell p \<equiv> nat (p div 4)"

text \<open>No row has a sum.\<close>

definition without_sums :: "limArray \<Rightarrow> bool" where
  "without_sums m \<longleftrightarrow> list_all (\<lambda>(p, row). rowType row \<noteq> ''add'') m"

text \<open>
  The times of the two tables of the state machine agree, and a row that is written after time 0 is
  written later than the LiM row it comes from, and later than the source of that row.
\<close>

definition ordered :: "limArray \<Rightarrow> fsm \<Rightarrow> bool" where
  "ordered m f \<longleftrightarrow> dom (sm_find (FSM2 f)) = dom (sm_find m) \<and>
     (\<forall>p t. (sm_find (FSM2 f) p = Some t) = (\<exists>rows. sm_find (FSM f) t = Some rows \<and> p \<in> set rows)) \<and>
     (\<forall>p c crow t. sm_find (FSM2 f) p = Some t \<and> t \<noteq> 0 \<and> fed_by m p c \<and> sm_find m c = Some crow \<longrightarrow>
        (\<exists>tc ts. sm_find (FSM2 f) c = Some tc \<and> tc < t \<and> sm_find (FSM2 f) (row_source crow) = Some ts \<and> ts < t))"

text \<open>
  Values for all the rows: a row of time 0 keeps what is in the memory at the beginning, every other row
  has the value of the operator of its LiM row on the values of this row and of its source.
\<close>

definition solves :: "limArray \<Rightarrow> fsm \<Rightarrow> byte list \<Rightarrow> (ptr \<Rightarrow> byte) \<Rightarrow> bool" where
  "solves m f start val \<longleftrightarrow> (\<forall>p t. sm_find (FSM2 f) p = Some t \<longrightarrow>
     (t = 0 \<longrightarrow> val p = start ! cell p) \<and>
     (t \<noteq> 0 \<longrightarrow> (\<forall>c crow. fed_by m p c \<and> sm_find m c = Some crow \<longrightarrow>
        row_value crow (val c) (val (row_source crow)) = Some (val p))))"

lemma orderedD:
  assumes "ordered m f"
  shows "dom (sm_find (FSM2 f)) = dom (sm_find m)"
    "(sm_find (FSM2 f) p = Some t) = (\<exists>rows. sm_find (FSM f) t = Some rows \<and> p \<in> set rows)"
    "sm_find (FSM2 f) p = Some t \<Longrightarrow> t \<noteq> 0 \<Longrightarrow> fed_by m p c \<Longrightarrow> sm_find m c = Some crow \<Longrightarrow>
       \<exists>tc ts. sm_find (FSM2 f) c = Some tc \<and> tc < t \<and> sm_find (FSM2 f) (row_source crow) = Some ts \<and> ts < t"
  using assms unfolding ordered_def by blast+

text \<open>Times are positions in the state machine.\<close>

lemma time_range:
  assumes "printable m f" "ordered m f" "sm_find (FSM2 f) p = Some t"
  shows "0 \<le> t" "t < getFSMSize f"
proof -
  obtain rows where rows: "sm_find (FSM f) t = Some rows" using orderedD(2)[OF assms(2)] assms(3) by blast
  have "sm_inv (FSM f)" "fst ` set (FSM f) = {0..<getFSMSize f}" using assms(1) by (simp_all add: printable_def)
  moreover have "t \<in> fst ` set (FSM f)" using rows sm.dom_lookup[OF \<open>sm_inv (FSM f)\<close>] by auto
  ultimately show "0 \<le> t" "t < getFSMSize f" by simp_all
qed

lemma gate_total: "op \<in> printed_logic \<Longrightarrow> op \<noteq> ''add'' \<Longrightarrow> \<exists>v. gate op a b = Some v"
  by (auto simp: printed_logic_def gate_def gates_def)

lemma row_value_total: "rowType row \<in> printed_logic \<Longrightarrow> rowType row \<noteq> ''add'' \<Longrightarrow> \<exists>v. row_value row a b = Some v"
  using gate_total by (auto simp: row_value_def)

lemma no_gate_add [simp]: "gate ''add'' a b = None"
  by (simp add: gate_def gates_def)

lemma without_sumsD: "without_sums m \<Longrightarrow> sm_inv m \<Longrightarrow> sm_find m p = Some row \<Longrightarrow> rowType row \<noteq> ''add''"
  by (auto simp: without_sums_def list_all_iff sm.entries_iff[symmetric])

lemma fed_by_row:
  assumes "printable m f" "fed_by m p c"
  obtains crow where "sm_find m c = Some crow" "rowType crow \<in> printed_logic" "row_source crow \<in> dom (sm_find m)"
proof -
  obtain crow where c: "sm_find m c = Some crow" "rowType crow \<noteq> ''load''" using assms(2) by (auto simp: fed_by_def)
  then have "printable_row m crow" using printable_rowD[OF assms(1)] by blast
  then have "rowType crow \<in> printed_logic \<and> row_source crow \<in> dom (sm_find m)"
    using c(2) by (auto simp: printable_row_def row_source_def)
  then show thesis using that c(1) by blast
qed

lemma fed_by_unique: "fed_by m p c \<Longrightarrow> fed_by m p c' \<Longrightarrow> c' = c"
  by (auto simp: fed_by_def)

lemma solvesD:
  assumes "solves m f start val" "sm_find (FSM2 f) p = Some t"
  shows "t = 0 \<Longrightarrow> val p = start ! cell p"
    "t \<noteq> 0 \<Longrightarrow> fed_by m p c \<Longrightarrow> sm_find m c = Some crow \<Longrightarrow>
       row_value crow (val c) (val (row_source crow)) = Some (val p)"
  using assms unfolding solves_def by blast+

text \<open>There are such values.\<close>

lemma solution_exists:
  assumes "printable m f" "ordered m f" "without_sums m"
  shows "\<exists>val. solves m f start val"
proof -
  let ?eq = "\<lambda>val p t. (t = 0 \<longrightarrow> val p = start ! cell p) \<and>
     (t \<noteq> 0 \<longrightarrow> (\<forall>c crow. fed_by m p c \<and> sm_find m c = Some crow \<longrightarrow>
        row_value crow (val c) (val (row_source crow)) = Some (val p)))"
  note time = time_range[OF assms(1,2)]
  have not_sum: "rowType crow \<noteq> ''add''" if "sm_find m c = Some crow" for c crow
    using without_sumsD[OF assms(3) _ that] assms(1) by (simp add: printable_def)
  have "\<exists>val. \<forall>p t. sm_find (FSM2 f) p = Some t \<longrightarrow> t < int k \<longrightarrow> ?eq val p t" for k
  proof (induction k)
    case 0
    show ?case using time by fastforce
  next
    case (Suc k)
    then obtain val where val: "\<And>p t. sm_find (FSM2 f) p = Some t \<Longrightarrow> t < int k \<Longrightarrow> ?eq val p t" by blast
    let ?new = "\<lambda>p. if k = 0 then start ! cell p
        else the (row_value (the (sm_find m (THE c. fed_by m p c))) (val (THE c. fed_by m p c))
               (val (row_source (the (sm_find m (THE c. fed_by m p c))))))"
    let ?val = "\<lambda>p. if sm_find (FSM2 f) p = Some (int k) then ?new p else val p"
    have "?eq ?val p t" if p: "sm_find (FSM2 f) p = Some t" "t < int (Suc k)" for p t
    proof (cases "t = 0")
      case True
      then show ?thesis using val[OF p(1)] p by (cases "k = 0") auto
    next
      case False
      have "row_value crow (?val c) (?val (row_source crow)) = Some (?val p)"
        if c: "fed_by m p c" "sm_find m c = Some crow" for c crow
      proof -
        obtain tc ts where tcs: "sm_find (FSM2 f) c = Some tc" "tc < t" "sm_find (FSM2 f) (row_source crow) = Some ts" "ts < t"
          using orderedD(3)[OF assms(2) p(1) False c] by blast
        then have old: "?val c = val c" "?val (row_source crow) = val (row_source crow)" using p(2) by auto
        show ?thesis
        proof (cases "t = int k")
          case True
          obtain crow' where "sm_find m c = Some crow'" "rowType crow' \<in> printed_logic"
            by (rule fed_by_row[OF assms(1) c(1)])
          then obtain v where v: "row_value crow (val c) (val (row_source crow)) = Some v"
            using row_value_total c(2) not_sum[OF c(2)] by fastforce
          have "(THE c. fed_by m p c) = c" using c(1) fed_by_unique by blast
          then show ?thesis unfolding old using True False p(1) c(2) v by simp
        next
          case neq: False
          then show ?thesis unfolding old using val[OF p(1)] p c False by simp
        qed
      qed
      then show ?thesis using False by blast
    qed
    then show ?case by (intro exI[of _ ?val]) blast
  qed
  then obtain val where val: "\<And>p t. sm_find (FSM2 f) p = Some t \<Longrightarrow> t < int (nat (getFSMSize f)) \<Longrightarrow> ?eq val p t"
    by blast
  have "?eq val p t" if "sm_find (FSM2 f) p = Some t" for p t
    by (rule val[OF that]) (use time[OF that] in simp)
  then show ?thesis unfolding solves_def by blast
qed

section \<open>Reading the items\<close>

definition phase_signal :: "int \<Rightarrow> signal" where
  "phase_signal k = (if k = 0 then GO else T k)"

lemma phase_signal_inj: "0 \<le> j \<Longrightarrow> 0 \<le> k \<Longrightarrow> phase_signal j = phase_signal k \<longleftrightarrow> j = k"
  by (simp add: phase_signal_def)

lemma executed_quiet:
  assumes "\<And>it. it \<in> set its \<Longrightarrow> (\<exists>t s. it = Delay t s) \<or> (\<exists>p op s. it = Bitwise p op s) \<or> (\<exists>p s post. it = Adder p s post)"
  shows "executed act taken (its @ rest) = executed act taken rest"
  using assms
proof (induction its)
  case (Cons it its)
  have "executed act taken (its @ rest) = executed act taken rest" using Cons by simp
  then show ?case using Cons.prems[OF list.set_intros(1)] by auto
qed simp

lemma executed_taken:
  assumes "\<And>it. it \<in> set its \<Longrightarrow> \<exists>kw s sts. it = Branch kw s sts"
  shows "executed act True (its @ Text ts # rest) = executed act False rest"
  using assms
proof (induction its)
  case (Cons it its)
  have "executed act True (its @ Text ts # rest) = executed act False rest" using Cons by simp
  then show ?case using Cons.prems[OF list.set_intros(1)] by auto
qed simp

text \<open>A chain of branches of which exactly one, or none, has an active signal.\<close>

lemma executed_one:
  assumes "\<And>it. it \<in> set its \<Longrightarrow> \<exists>kw s sts. it = Branch kw s sts"
    and "Branch kw s sts \<in> set its" "act s"
    and "\<And>kw' s' sts'. Branch kw' s' sts' \<in> set its \<Longrightarrow> act s' \<Longrightarrow> sts' = sts"
  shows "executed act False (its @ Text ts # rest) = sts @ executed act False rest"
  using assms
proof (induction its)
  case (Cons it its)
  obtain kw' s' sts' where it: "it = Branch kw' s' sts'" using Cons.prems(1)[of it] by auto
  show ?case
  proof (cases "act s'")
    case True
    then have "sts' = sts" using Cons.prems(4)[of kw' s' sts'] it by simp
    then show ?thesis using True executed_taken[of its act ts rest] Cons.prems(1) it by simp
  next
    case False
    have "Branch kw s sts \<in> set its" using Cons.prems(2,3) it False by auto
    then have "executed act False (its @ Text ts # rest) = sts @ executed act False rest"
      by (intro Cons.IH) (use Cons.prems(1,3,4) in auto)
    then show ?thesis using it False by simp
  qed
qed simp

lemma executed_none:
  assumes "\<And>it. it \<in> set its \<Longrightarrow> \<exists>kw s sts. it = Branch kw s sts \<and> \<not> act s"
  shows "executed act False (its @ Text ts # rest) = executed act False rest"
  using assms
proof (induction its)
  case (Cons it its)
  have "executed act False (its @ Text ts # rest) = executed act False rest" using Cons by simp
  then show ?case using Cons.prems[OF list.set_intros(1)] by auto
qed simp

lemma row_items_quiet:
  "it \<in> set (concat (map row_items l)) \<Longrightarrow>
   (\<exists>t s. it = Delay t s) \<or> (\<exists>p op s. it = Bitwise p op s) \<or> (\<exists>p s post. it = Adder p s post)"
  by (auto simp: row_items_def split: if_splits)

lemma assign_T_quiet: "\<exists>t s. assign_T n i = Delay t s"
  by (simp add: assign_T_def)

text \<open>The rows at a time, and the statements of a phase: even phases read, odd phases write.\<close>

definition rows_at :: "fsm \<Rightarrow> int \<Rightarrow> ptr list" where
  "rows_at f t = (case sm_find (FSM f) t of Some rows \<Rightarrow> rows | None \<Rightarrow> [])"

definition phase_statements :: "limArray \<Rightarrow> fsm \<Rightarrow> int \<Rightarrow> statement list" where
  "phase_statements m f k =
     (if k mod 2 = 0 then map (\<lambda>p. Read_mem p (p div 4)) (rows_at f (k div 2))
      else map (write_statement m) (rows_at f (k div 2 + 1)))"

lemma phase_executed:
  assumes "printable m f" "0 \<le> k" "k \<le> 2 * getFSMSize f - 2"
  shows "executed (\<lambda>s. s = phase_signal k) False (array_items m f) = phase_statements m f k"
proof -
  let ?act = "\<lambda>s. s = phase_signal k" and ?n = "getFSMSize f"
  let ?W = "concat (map (write_branch m) (FSM f))" and ?R = "map read_branch (FSM f)"
  have inv: "sm_inv (FSM f)" and keys: "fst ` set (FSM f) = {0..<?n}" using assms(1) by (simp_all add: printable_def)
  have entry: "(t, rows_at f t) \<in> set (FSM f)" if "0 \<le> t" "t < ?n" for t
  proof -
    have "t \<in> fst ` set (FSM f)" using keys that by simp
    then obtain rows where "(t, rows) \<in> set (FSM f)" by auto
    then show ?thesis using sm.entries_iff[OF inv] by (simp add: rows_at_def)
  qed
  have unique: "rows = rows_at f t" if "(t, rows) \<in> set (FSM f)" for t rows
    using that sm.entries_iff[OF inv] by (simp add: rows_at_def)
  have nonneg: "0 \<le> t" "t < ?n" if "(t, rows) \<in> set (FSM f)" for t rows
    using imageI[OF that, of fst] keys by auto
  have W: "\<exists>kw s sts. it = Branch kw s sts" if "it \<in> set ?W" for it
    using that by (auto simp: write_branch_def split: if_splits)
  have R: "\<exists>kw s sts. it = Branch kw s sts" if "it \<in> set ?R" for it
    using that by (auto simp: read_branch_def)
  have tail: "executed ?act False (map (assign_T ?n) is @ Text ts # concat (map row_items m) @ [Text ts']) = []" for "is" ts ts'
    using executed_quiet[of "map (assign_T ?n) is" ?act False] executed_quiet[of "concat (map row_items m)" ?act False]
      row_items_quiet assign_T_quiet by (fastforce simp: image_iff)
  show ?thesis
  proof (cases "k mod 2 = 0")
    case True
    let ?t = "k div 2"
    have k: "k = 2 * ?t" "0 \<le> ?t" "?t < ?n" using True assms(2,3) by auto
    have "\<exists>kw s sts. it = Branch kw s sts \<and> \<not> ?act s" if "it \<in> set ?W" for it
      using that True nonneg(1) by (fastforce simp: write_branch_def phase_signal_def split: if_splits)
    from executed_none[of ?W ?act, OF this] have w: "executed ?act False (?W @ Text ts # rest) = executed ?act False rest" for ts rest .
    have sig: "(if t = 0 then GO else T (t * 2)) = phase_signal (2 * t)" for t by (simp add: phase_signal_def)
    have b: "Branch ''~~~elsif ('' (phase_signal k) (map (\<lambda>p. Read_mem p (p div 4)) (rows_at f ?t)) \<in> set ?R"
      using imageI[OF entry[OF k(2,3)], of read_branch] k(1) by (simp add: read_branch_def sig)
    have u: "sts' = map (\<lambda>p. Read_mem p (p div 4)) (rows_at f ?t)"
      if br: "Branch kw' s' sts' \<in> set ?R" "?act s'" for kw' s' sts'
    proof -
      obtain t rows where tr: "(t, rows) \<in> set (FSM f)" "s' = phase_signal (2 * t)"
        "sts' = map (\<lambda>p. Read_mem p (p div 4)) rows"
        using br(1) by (auto simp: read_branch_def sig)
      then have "t = ?t" using br(2) phase_signal_inj[of "2 * t" k] nonneg[OF tr(1)] assms(2) by simp
      then show ?thesis using tr(3) unique[OF tr(1)] by simp
    qed
    have r: "executed ?act False (?R @ Text ts # rest) =
        map (\<lambda>p. Read_mem p (p div 4)) (rows_at f ?t) @ executed ?act False rest" for ts rest
      by (rule executed_one[where act = ?act and its = ?R, OF R b _ u]) simp_all
    show ?thesis using True by (simp add: array_items_def process_items_def w r tail phase_statements_def)
  next
    case False
    let ?t = "k div 2 + 1"
    have k: "k = ?t * 2 - 1" "1 \<le> ?t" "?t < ?n" using False assms(2,3) by presburger+
    have b: "Branch (if ?t = 1 then ''~~~~if ('' else ''~~~~elsif ('') (phase_signal k) (map (write_statement m) (rows_at f ?t)) \<in> set ?W"
    proof -
      have b: "Branch (if ?t = 1 then ''~~~~if ('' else ''~~~~elsif ('') (T (?t * 2 - 1)) (map (write_statement m) (rows_at f ?t))
          \<in> set (write_branch m (?t, rows_at f ?t))" using k(2) by (simp add: write_branch_def)
      moreover have "T (?t * 2 - 1) = phase_signal k" using k False by (auto simp: phase_signal_def)
      ultimately show ?thesis using entry[of ?t] k(2,3) by fastforce
    qed
    have u: "sts' = map (write_statement m) (rows_at f ?t)"
      if br: "Branch kw' s' sts' \<in> set ?W" "?act s'" for kw' s' sts'
    proof -
      obtain t rows where tr: "(t, rows) \<in> set (FSM f)" "t \<noteq> 0" "s' = T (t * 2 - 1)" "sts' = map (write_statement m) rows"
        using br(1) by (auto simp: write_branch_def split: if_splits)
      then have "t = ?t" using br(2) k by (auto simp: phase_signal_def split: if_splits)
      then show ?thesis using tr(4) unique[OF tr(1)] by simp
    qed
    have w: "executed ?act False (?W @ Text ts # rest) = map (write_statement m) (rows_at f ?t) @ executed ?act False rest"
      for ts rest by (rule executed_one[where act = ?act and its = ?W, OF W b _ u]) simp_all
    have "\<exists>kw s sts. it = Branch kw s sts \<and> \<not> ?act s" if br: "it \<in> set ?R" for it
    proof -
      obtain t rows where tr: "(t, rows) \<in> set (FSM f)" "it = read_branch (t, rows)" using br by auto
      have "2 * t \<noteq> k" using False by auto
      then have "phase_signal (2 * t) \<noteq> phase_signal k" using phase_signal_inj[of "2 * t" k] nonneg[OF tr(1)] assms(2) by simp
      then show ?thesis by (auto simp: tr(2) read_branch_def phase_signal_def split: if_splits)
    qed
    from executed_none[of ?R ?act, OF this] have r: "executed ?act False (?R @ Text ts # rest) = executed ?act False rest" for ts rest .
    show ?thesis using False by (simp add: array_items_def process_items_def w r tail phase_statements_def)
  qed
qed

section \<open>Values of the outputs\<close>

lemma set_map_filter: "y \<in> set (List.map_filter g xs) \<longleftrightarrow> (\<exists>x \<in> set xs. g x = Some y)"
  by (induction xs) (auto simp: List.map_filter_simps split: option.splits)

lemma map_of_unique:
  assumes "(p, v) \<in> set xs" "\<And>w. (p, w) \<in> set xs \<Longrightarrow> w = v"
  shows "map_of xs p = Some v"
proof -
  obtain w where "map_of xs p = Some w" using assms(1) by (metis option.exhaust weak_map_of_SomeI option.distinct(1))
  then show ?thesis using assms(2) map_of_SomeD by fastforce
qed

lemma drive_row:
  assumes "it \<in> set (row_items (q, row))" "drive rd it = Some (p, v)"
  shows "p = q \<and> row_value row (rd q) (rd (row_source row)) = Some v"
  using assms by (auto simp: row_items_def row_value_def split: if_splits)

lemma driving_items:
  assumes "it \<in> set (array_items m f)" "drive rd it = Some y"
  shows "\<exists>q row. (q, row) \<in> set m \<and> it \<in> set (row_items (q, row))"
proof -
  have "drive rd (read_branch x) = None" "drive rd (assign_T n i) = None" for x n i
    by (simp_all add: read_branch_def assign_T_def case_prod_beta)
  moreover have "drive rd it' = None" if "it' \<in> set (write_branch m x)" for it' x
    using that by (auto simp: write_branch_def case_prod_beta split: if_splits)
  ultimately show ?thesis using assms by (fastforce simp: array_items_def process_items_def)
qed

text \<open>The output of a LiM row is the value of its operator.\<close>

lemma out_value:
  assumes "sm_inv m" "sm_find m c = Some crow" "rowType crow \<noteq> ''load''"
    and "row_value crow (rd c) (rd (row_source crow)) = Some v"
  shows "signal_value (array_items m f) rd (OUT c) = Some v"
proof -
  have c: "(c, crow) \<in> set m" using assms(1,2) by (simp add: sm.entries_iff)
  obtain it where it: "it \<in> set (row_items (c, crow))" "drive rd it = Some (c, v)"
  proof -
    have "rowType crow \<noteq> ''add''" using assms(4) by (auto simp: row_value_def)
    then show thesis using that[of "Bitwise c (rowType crow) (MEM_RD (row_source crow))"] assms(3,4)
      by (simp add: row_items_def row_value_def)
  qed
  have "it \<in> set (array_items m f)" using it(1) c unfolding array_items_def by fastforce
  then have "(c, v) \<in> set (List.map_filter (drive rd) (array_items m f))" using it(2) set_map_filter by metis
  moreover have "w = v" if "(c, w) \<in> set (List.map_filter (drive rd) (array_items m f))" for w
  proof -
    obtain it' where it': "it' \<in> set (array_items m f)" "drive rd it' = Some (c, w)"
      using \<open>(c, w) \<in> _\<close> unfolding set_map_filter by blast
    obtain q row where q: "(q, row) \<in> set m" "it' \<in> set (row_items (q, row))" using driving_items[OF it'] by blast
    then have "q = c" "row_value row (rd q) (rd (row_source row)) = Some w" using drive_row[OF q(2) it'(2)] by simp_all
    have "sm_find m q = Some row" using q(1) sm.entries_iff[OF assms(1)] by simp
    then have "row = crow" using assms(2) \<open>q = c\<close> by simp
    then show ?thesis using assms(4) \<open>q = c\<close> \<open>_ = Some w\<close> by simp
  qed
  ultimately show ?thesis unfolding signal_value.simps by (rule map_of_unique)
qed

section \<open>Executing a phase\<close>

lemma exec_reads:
  assumes "\<And>p. p \<in> set ps \<Longrightarrow> 0 \<le> p \<and> cell p < length (hw_mem old)"
  shows "exec_statements items old (map (\<lambda>p. Read_mem p (p div 4)) ps) new =
    Some (new\<lparr>hw_rd := \<lambda>q. if q \<in> set ps then hw_mem old ! cell q else hw_rd new q\<rparr>)"
  using assms
proof (induction ps arbitrary: new)
  case (Cons p ps)
  let ?new = "new\<lparr>hw_rd := (hw_rd new)(p := hw_mem old ! cell p)\<rparr>"
  have "0 \<le> p \<and> cell p < length (hw_mem old)" using Cons.prems[OF list.set_intros(1)] .
  then have "exec_statements items old (map (\<lambda>p. Read_mem p (p div 4)) (p # ps)) new =
      exec_statements items old (map (\<lambda>p. Read_mem p (p div 4)) ps) ?new"
    by (simp add: pos_imp_zdiv_nonneg_iff)
  also have "\<dots> = Some (?new\<lparr>hw_rd := \<lambda>q. if q \<in> set ps then hw_mem old ! cell q else hw_rd ?new q\<rparr>)"
    by (intro Cons.IH Cons.prems) simp
  also have "\<dots> = Some (new\<lparr>hw_rd := \<lambda>q. if q \<in> set (p # ps) then hw_mem old ! cell q else hw_rd new q\<rparr>)"
    by (simp, rule hw.fold_congs(3)) (auto simp: fun_eq_iff)
  finally show ?case .
qed simp

lemma cell_inj:
  assumes "0 \<le> p" "4 dvd p" "0 \<le> q" "4 dvd q"
  shows "cell p = cell q \<longleftrightarrow> p = (q::int)"
proof
  assume "cell p = cell q"
  then have "p div 4 = q div 4" using assms(1,3) by (simp add: pos_imp_zdiv_nonneg_iff eq_nat_nat_iff)
  then show "p = q" using assms(2,4) by auto
qed simp

lemma exec_writes:
  assumes "\<And>p. p \<in> set ps \<Longrightarrow> 0 \<le> p \<and> 4 dvd p \<and> cell p < length (hw_mem old) \<and>
      signal_value items (hw_rd old) (OUT (hd (inputConnections (the (sm_find m p))))) = Some (val p)"
    and "length (hw_mem new) = length (hw_mem old)"
  shows "\<exists>new'. exec_statements items old (map (write_statement m) ps) new = Some new' \<and>
    hw_active new' = hw_active new \<and> hw_rd new' = hw_rd new \<and> length (hw_mem new') = length (hw_mem old) \<and>
    (\<forall>q. 0 \<le> q \<longrightarrow> 4 dvd q \<longrightarrow> hw_mem new' ! cell q = (if q \<in> set ps then val q else hw_mem new ! cell q))"
  using assms
proof (induction ps arbitrary: new)
  case (Cons p ps)
  let ?new = "new\<lparr>hw_mem := (hw_mem new)[cell p := val p]\<rparr>"
  have p: "0 \<le> p" "4 dvd p" "cell p < length (hw_mem old)"
    "signal_value items (hw_rd old) (OUT (hd (inputConnections (the (sm_find m p))))) = Some (val p)"
    using Cons.prems(1)[OF list.set_intros(1)] by simp_all
  have step: "exec_statements items old (map (write_statement m) (p # ps)) new =
      exec_statements items old (map (write_statement m) ps) ?new"
    using p by (simp add: write_statement_def pos_imp_zdiv_nonneg_iff del: signal_value.simps)
  obtain new' where new': "exec_statements items old (map (write_statement m) ps) ?new = Some new'"
    "hw_active new' = hw_active ?new" "hw_rd new' = hw_rd ?new" "length (hw_mem new') = length (hw_mem old)"
    "\<forall>q. 0 \<le> q \<longrightarrow> 4 dvd q \<longrightarrow> hw_mem new' ! cell q = (if q \<in> set ps then val q else hw_mem ?new ! cell q)"
    using Cons.IH[of ?new] Cons.prems by auto
  have "hw_mem new' ! cell q = (if q \<in> set (p # ps) then val q else hw_mem new ! cell q)" if "0 \<le> q" "4 dvd q" for q
    using new'(5) that cell_inj[OF p(1,2) that] p(3) Cons.prems(2) by auto
  then show ?case using step new'(1-4) by simp
qed simp

text \<open>
  Before phase \<open>k\<close>: what has been written to the memory, and what has been read from it, are the values
  of the rows.
\<close>

definition progress :: "fsm \<Rightarrow> (ptr \<Rightarrow> byte) \<Rightarrow> nat \<Rightarrow> int \<Rightarrow> hw \<Rightarrow> bool" where
  "progress f val entries k st \<longleftrightarrow> length (hw_mem st) = entries \<and>
     (\<forall>p t. sm_find (FSM2 f) p = Some t \<longrightarrow>
        (2 * t < k \<longrightarrow> hw_rd st p = val p) \<and> (2 * t - 1 < k \<longrightarrow> hw_mem st ! cell p = val p))"

definition fits :: "limArray \<Rightarrow> nat \<Rightarrow> bool" where
  "fits m entries \<longleftrightarrow> (\<forall>p \<in> dom (sm_find m). cell p < entries)"

lemma rows_at_iff:
  assumes "printable m f" "ordered m f"
  shows "p \<in> set (rows_at f t) \<longleftrightarrow> sm_find (FSM2 f) p = Some t"
  by (cases "sm_find (FSM f) t") (simp_all add: rows_at_def orderedD(2)[OF assms(2)])

lemma row_ready:
  assumes "printable m f" "ordered m f" "solves m f start val" "progress f val entries (2 * t - 1) st"
    and "sm_find (FSM2 f) p = Some t" "t \<noteq> 0"
  shows "signal_value (array_items m f) (hw_rd st) (OUT (hd (inputConnections (the (sm_find m p))))) = Some (val p)"
proof -
  obtain rows where rows: "sm_find (FSM f) t = Some rows" "p \<in> set rows"
    using assms(5) orderedD(2)[OF assms(2)] by blast
  have "sm_inv (FSM f)" and inv: "sm_inv m" using assms(1) by (simp_all add: printable_def)
  then have "(t, rows) \<in> set (FSM f)" using rows(1) by (simp add: sm.entries_iff)
  then obtain c where c: "fed_by m p c" using printable_fed[OF assms(1) _ assms(6) rows(2)] by blast
  obtain crow where crow: "sm_find m c = Some crow" "rowType crow \<in> printed_logic"
    by (rule fed_by_row[OF assms(1) c])
  obtain tc ts where t: "sm_find (FSM2 f) c = Some tc" "tc < t" "sm_find (FSM2 f) (row_source crow) = Some ts" "ts < t"
    using orderedD(3)[OF assms(2,5,6) c crow(1)] by blast
  have "hw_rd st c = val c" "hw_rd st (row_source crow) = val (row_source crow)"
    using assms(4) t by (simp_all add: progress_def)
  moreover have "row_value crow (val c) (val (row_source crow)) = Some (val p)"
    using assms(3,5,6) c crow(1) unfolding solves_def by blast
  ultimately have "signal_value (array_items m f) (hw_rd st) (OUT c) = Some (val p)"
    by (intro out_value[OF inv crow(1)]) (use crow(2) in \<open>auto simp: printed_logic_def\<close>)
  moreover have "hd (inputConnections (the (sm_find m p))) = c" using c by (auto simp: fed_by_def)
  ultimately show ?thesis by simp
qed

lemma phase_step:
  assumes "printable m f" "ordered m f" "solves m f start val" "fits m entries" "0 \<le> k" "progress f val entries k st"
  shows "\<exists>st'. exec_statements (array_items m f) st (phase_statements m f k) st = Some st' \<and>
    hw_active st' = hw_active st \<and> progress f val entries (k + 1) st'"
proof -
  have entries: "length (hw_mem st) = entries" using assms(6) by (simp add: progress_def)
  have rd: "hw_rd st p = val p" if "sm_find (FSM2 f) p = Some t" "2 * t < k" for p t
    using assms(6) that by (simp add: progress_def)
  have mem: "hw_mem st ! cell p = val p" if "sm_find (FSM2 f) p = Some t" "2 * t - 1 < k" for p t
    using assms(6) that by (simp add: progress_def)
  have names: "0 \<le> p \<and> 4 dvd p \<and> cell p < entries" if "sm_find (FSM2 f) p = Some t" for p t
  proof -
    have "p \<in> dom (sm_find m)" using that orderedD(1)[OF assms(2)] by blast
    then show ?thesis using printable_names[OF assms(1)] assms(4) by (simp add: fits_def)
  qed
  note rows = rows_at_iff[OF assms(1,2)]
  show ?thesis
  proof (cases "k mod 2 = 0")
    case True
    let ?ps = "rows_at f (k div 2)"
    let ?st = "st\<lparr>hw_rd := \<lambda>q. if q \<in> set ?ps then hw_mem st ! cell q else hw_rd st q\<rparr>"
    have k: "k = 2 * (k div 2)" using True by auto
    have run: "exec_statements (array_items m f) st (map (\<lambda>p. Read_mem p (p div 4)) ?ps) st = Some ?st"
      by (rule exec_reads) (use names entries in \<open>auto simp: rows\<close>)
    have "progress f val entries (k + 1) ?st"
      unfolding progress_def
    proof (intro conjI allI impI)
      show "length (hw_mem ?st) = entries" using entries by simp
      fix p t assume p: "sm_find (FSM2 f) p = Some t"
      show "hw_rd ?st p = val p" if "2 * t < k + 1"
      proof (cases "p \<in> set ?ps")
        case True
        then have "t = k div 2" using p by (simp add: rows)
        then show ?thesis using mem[OF p] k True by simp
      next
        case False
        then have "t \<noteq> k div 2" using p rows by auto
        then have "2 * t < k" using \<open>2 * t < k + 1\<close> k by presburger
        then show ?thesis using rd[OF p] False by simp
      qed
      show "hw_mem ?st ! cell p = val p" if "2 * t - 1 < k + 1"
      proof -
        have "2 * t - 1 < k" using that k by presburger
        then show ?thesis using mem[OF p] by simp
      qed
    qed
    then show ?thesis using run True by (simp add: phase_statements_def)
  next
    case False
    let ?t = "k div 2 + 1"
    let ?ps = "rows_at f ?t"
    have k: "k = 2 * ?t - 1" using False by presburger
    have prog: "progress f val entries (2 * ?t - 1) st" using assms(6) unfolding k[symmetric] .
    have "?t \<noteq> 0" using assms(5) by simp
    then have out: "signal_value (array_items m f) (hw_rd st) (OUT (hd (inputConnections (the (sm_find m p))))) = Some (val p)"
      if "p \<in> set ?ps" for p
      using row_ready[OF assms(1-3) prog] that by (simp add: rows del: signal_value.simps)
    obtain st' where st': "exec_statements (array_items m f) st (map (write_statement m) ?ps) st = Some st'"
      "hw_active st' = hw_active st" "hw_rd st' = hw_rd st" "length (hw_mem st') = length (hw_mem st)"
      "\<And>q. 0 \<le> q \<Longrightarrow> 4 dvd q \<Longrightarrow> hw_mem st' ! cell q = (if q \<in> set ?ps then val q else hw_mem st ! cell q)"
      using exec_writes[of ?ps st "array_items m f" m val st] names out entries rows by auto
    have "progress f val entries (k + 1) st'"
      unfolding progress_def
    proof (intro conjI allI impI)
      show "length (hw_mem st') = entries" using entries st'(4) by simp
      fix p t assume p: "sm_find (FSM2 f) p = Some t"
      show "hw_rd st' p = val p" if "2 * t < k + 1"
      proof -
        have "2 * t < k" using that k by presburger
        then show ?thesis using rd[OF p] st'(3) by simp
      qed
      show "hw_mem st' ! cell p = val p" if "2 * t - 1 < k + 1"
      proof (cases "p \<in> set ?ps")
        case False
        then have "t \<noteq> ?t" using p rows by auto
        then have "2 * t - 1 < k" using that k by presburger
        then show ?thesis using mem[OF p] st'(5) names[OF p] False by simp
      qed (use st'(5) names[OF p] in simp)
    qed
    then show ?thesis using st'(1,2) False by (simp add: phase_statements_def)
  qed
qed

section \<open>The sequence of the phases\<close>

definition delay_target :: "int \<Rightarrow> int \<Rightarrow> signal" where
  "delay_target n i = (if i = 2 * n - 1 then DONE else T i)"

lemma delay_target_inj:
  "i \<le> 2 * n - 1 \<Longrightarrow> j \<le> 2 * n - 1 \<Longrightarrow> delay_target n i = delay_target n j \<longleftrightarrow> i = j"
  by (auto simp: delay_target_def)

lemma delays:
  assumes "2 \<le> getFSMSize f"
  shows "(s, src) \<in> set (List.map_filter delay_entry (array_items m f)) \<longleftrightarrow>
    (\<exists>i. 1 \<le> i \<and> i \<le> 2 * getFSMSize f - 1 \<and> s = delay_target (getFSMSize f) i \<and> src = phase_signal (i - 1))"
proof -
  have T: "assign_T (getFSMSize f) i = Delay (delay_target (getFSMSize f) i) (phase_signal (i - 1))" if "1 \<le> i" for i
    using assms that by (auto simp: assign_T_def delay_target_def phase_signal_def)
  have no: "delay_entry (read_branch x) = None" for x by (simp add: read_branch_def case_prod_beta)
  have nw: "delay_entry it = None" if "it \<in> set (write_branch m x)" for it x
    using that by (auto simp: write_branch_def case_prod_beta split: if_splits)
  have nr: "delay_entry it = None" if "it \<in> set (row_items x)" for it x
    using that by (auto simp: row_items_def case_prod_beta split: if_splits)
  have "(s, src) \<in> set (List.map_filter delay_entry (array_items m f)) \<longleftrightarrow>
      (\<exists>i \<in> {1..2 * getFSMSize f - 1}. delay_entry (assign_T (getFSMSize f) i) = Some (s, src))"
    unfolding set_map_filter array_items_def process_items_def
    by (auto simp: no nw nr image_iff bex_Un)
  also have "\<dots> \<longleftrightarrow> (\<exists>i. 1 \<le> i \<and> i \<le> 2 * getFSMSize f - 1 \<and> s = delay_target (getFSMSize f) i \<and> src = phase_signal (i - 1))"
    by (auto simp: T)
  finally show ?thesis .
qed

lemma next_phase:
  assumes "2 \<le> getFSMSize f" "0 \<le> k" "k \<le> 2 * getFSMSize f - 2" "s \<noteq> GO"
  shows "next_active (array_items m f) (\<lambda>s. s = phase_signal k) s \<longleftrightarrow> s = delay_target (getFSMSize f) (k + 1)"
proof (cases "\<exists>i. 1 \<le> i \<and> i \<le> 2 * getFSMSize f - 1 \<and> s = delay_target (getFSMSize f) i")
  case True
  then obtain i where i: "1 \<le> i" "i \<le> 2 * getFSMSize f - 1" "s = delay_target (getFSMSize f) i" by blast
  have "map_of (List.map_filter delay_entry (array_items m f)) s = Some (phase_signal (i - 1))"
  proof (rule map_of_unique)
    show "(s, phase_signal (i - 1)) \<in> set (List.map_filter delay_entry (array_items m f))"
      using delays[OF assms(1)] i by blast
    show "w = phase_signal (i - 1)" if w: "(s, w) \<in> set (List.map_filter delay_entry (array_items m f))" for w
    proof -
      obtain i' where i': "i' \<le> 2 * getFSMSize f - 1" "s = delay_target (getFSMSize f) i'" "w = phase_signal (i' - 1)"
        using w unfolding delays[OF assms(1)] by blast
      then have "i' = i" using i(2,3) delay_target_inj[of i' "getFSMSize f" i] by simp
      then show ?thesis using i'(3) by simp
    qed
  qed
  then have "next_active (array_items m f) (\<lambda>s. s = phase_signal k) s \<longleftrightarrow> phase_signal (i - 1) = phase_signal k"
    by (simp add: next_active_def)
  also have "\<dots> \<longleftrightarrow> i = k + 1" using phase_signal_inj[of "i - 1" k] i(1) assms(2) by auto
  also have "\<dots> \<longleftrightarrow> s = delay_target (getFSMSize f) (k + 1)"
    using delay_target_inj[of i "getFSMSize f" "k + 1"] i assms(3) by auto
  finally show ?thesis .
next
  case False
  then have "(s, w) \<notin> set (List.map_filter delay_entry (array_items m f))" for w
    unfolding delays[OF assms(1)] by blast
  then have "map_of (List.map_filter delay_entry (array_items m f)) s = None"
    by (metis map_of_SomeD not_None_eq)
  then have "next_active (array_items m f) (\<lambda>s. s = phase_signal k) s \<longleftrightarrow> s = phase_signal k" by (simp add: next_active_def)
  moreover have "s \<noteq> delay_target (getFSMSize f) (k + 1)" using False assms(2,3) by auto
  moreover have "phase_signal k = delay_target (getFSMSize f) k" if "k \<noteq> 0"
    using that assms(3) by (simp add: phase_signal_def delay_target_def)
  then have "s \<noteq> phase_signal k" using False assms(2-4) by (cases "k = 0") (auto simp: phase_signal_def)
  ultimately show ?thesis by blast
qed

text \<open>Before phase \<open>k\<close> the signal of the phase is the only one that is 1, apart from \<open>GO\<close>.\<close>

definition at_phase :: "fsm \<Rightarrow> int \<Rightarrow> hw \<Rightarrow> bool" where
  "at_phase f k st \<longleftrightarrow> (\<forall>s. s \<noteq> GO \<longrightarrow> hw_active st s = (k \<noteq> 0 \<and> s = delay_target (getFSMSize f) k))"

lemma period_step:
  assumes "printable m f" "ordered m f" "solves m f start val" "fits m entries" "0 \<le> k" "k \<le> 2 * getFSMSize f - 2"
    and "at_phase f k st" "progress f val entries k st"
  shows "\<exists>st'. clock_period (array_items m f) (k = 0) st = Some st' \<and>
    at_phase f (k + 1) st' \<and> progress f val entries (k + 1) st'"
proof -
  have n: "2 \<le> getFSMSize f" using assms(1) by (simp add: printable_def)
  let ?s0 = "st\<lparr>hw_active := (hw_active st)(GO := (k = 0))\<rparr>"
  have act: "hw_active ?s0 = (\<lambda>s. s = phase_signal k)"
    using assms(6,7) by (auto simp: fun_eq_iff at_phase_def phase_signal_def delay_target_def)
  have p0: "progress f val entries k ?s0" using assms(8) by (simp add: progress_def)
  note exe = phase_executed[OF assms(1,5,6)]
  obtain s1 where s1: "exec_statements (array_items m f) ?s0 (phase_statements m f k) ?s0 = Some s1"
    "hw_active s1 = hw_active ?s0" "progress f val entries (k + 1) s1"
    using phase_step[OF assms(1-5) p0] by blast
  have "progress f val entries k s1" using s1(3) by (simp add: progress_def)
  from phase_step[OF assms(1-5) this] obtain s2 where
    s2: "exec_statements (array_items m f) s1 (phase_statements m f k) s1 = Some s2"
    "hw_active s2 = hw_active s1" "progress f val entries (k + 1) s2" by blast
  let ?s3 = "s2\<lparr>hw_active := next_active (array_items m f) (\<lambda>s. s = phase_signal k)\<rparr>"
  have "clock_event (array_items m f) False ?s0 = Some s1"
    using s1(1) unfolding clock_event_def act exe by simp
  moreover have "clock_event (array_items m f) True s1 = Some ?s3"
    using s2(1) unfolding clock_event_def s1(2) act exe by simp
  ultimately have "clock_period (array_items m f) (k = 0) st = Some ?s3" by (simp add: clock_period_def)
  moreover have "at_phase f (k + 1) ?s3"
    unfolding at_phase_def using next_phase[OF n assms(5,6)] assms(5) by simp
  moreover have "progress f val entries (k + 1) ?s3" using s2(3) by (simp add: progress_def)
  ultimately show ?thesis by blast
qed

lemma periods_step:
  assumes "printable m f" "ordered m f" "solves m f start val" "fits m entries"
  shows "1 \<le> k \<Longrightarrow> k + int j \<le> 2 * getFSMSize f - 1 \<Longrightarrow> at_phase f k st \<Longrightarrow> progress f val entries k st \<Longrightarrow>
    \<exists>st'. clock_periods (array_items m f) (replicate j False) st = Some st' \<and>
      at_phase f (k + int j) st' \<and> progress f val entries (k + int j) st'"
proof (induction j arbitrary: k st)
  case (Suc j)
  have k: "0 \<le> k" "k \<le> 2 * getFSMSize f - 2" "(k = 0) = False" using Suc.prems(1,2) by auto
  obtain st1 where st1: "clock_period (array_items m f) (k = 0) st = Some st1" "at_phase f (k + 1) st1"
    "progress f val entries (k + 1) st1" using period_step[OF assms k(1,2) Suc.prems(3,4)] by blast
  have "\<exists>st'. clock_periods (array_items m f) (replicate j False) st1 = Some st' \<and>
      at_phase f (k + 1 + int j) st' \<and> progress f val entries (k + 1 + int j) st'"
    by (rule Suc.IH[OF _ _ st1(2,3)]) (use Suc.prems(1,2) in auto)
  then show ?case using st1(1) unfolding k(3) by (simp add: algebra_simps)
qed simp

text \<open>After the reset nothing is active.\<close>

definition after_reset :: "hw \<Rightarrow> bool" where
  "after_reset st \<longleftrightarrow> hw_active st = (\<lambda>_. False)"

lemma hardware_run:
  assumes "printable m f" "ordered m f" "solves m f (hw_mem st) val" "fits m (length (hw_mem st))" "after_reset st"
    and "j \<le> 2 * nat (getFSMSize f) - 2"
  shows "\<exists>st'. clock_periods (array_items m f) (pulse j) st = Some st' \<and> at_phase f (1 + int j) st' \<and>
    progress f val (length (hw_mem st)) (1 + int j) st'"
proof -
  have n: "2 \<le> getFSMSize f" using assms(1) by (simp add: printable_def)
  have phase0: "at_phase f 0 st" using assms(5) by (simp add: at_phase_def after_reset_def)
  have progress0: "progress f val (length (hw_mem st)) 0 st"
    unfolding progress_def
  proof (intro conjI allI impI)
    fix p t assume p: "sm_find (FSM2 f) p = Some t"
    note t = time_range(1)[OF assms(1,2) p]
    show "hw_rd st p = val p" if "2 * t < 0" using that t by simp
    show "hw_mem st ! cell p = val p" if "2 * t - 1 < 0"
    proof -
      have "t = 0" using that t by simp
      then show ?thesis using assms(3) p by (simp add: solves_def)
    qed
  qed simp
  obtain s1 where s1: "clock_period (array_items m f) (0 = (0::int)) st = Some s1" "at_phase f (0 + 1) s1"
    "progress f val (length (hw_mem st)) (0 + 1) s1"
    using period_step[OF assms(1-4) order.refl _ phase0 progress0] n by auto
  have "\<exists>st'. clock_periods (array_items m f) (replicate j False) s1 = Some st' \<and>
      at_phase f (0 + 1 + int j) st' \<and> progress f val (length (hw_mem st)) (0 + 1 + int j) st'"
    by (rule periods_step[OF assms(1-4) _ _ s1(2,3)]) (use assms(6) n in auto)
  then show ?thesis using s1(1) by (simp add: pulse_def)
qed

text \<open>The last phase: everything has its value, and \<open>DONE\<close> is raised, and not before.\<close>

lemma hardware_result:
  assumes "printable m f" "ordered m f" "solves m f (hw_mem st) val" "fits m (length (hw_mem st))" "after_reset st"
  shows "\<exists>st'. clock_periods (array_items m f) (pulse (2 * nat (getFSMSize f) - 2)) st = Some st' \<and>
    hw_active st' DONE \<and> (\<forall>p \<in> dom (sm_find m). hw_mem st' ! cell p = val p) \<and>
    (\<forall>j < 2 * nat (getFSMSize f) - 2. \<exists>u. clock_periods (array_items m f) (pulse j) st = Some u \<and> \<not> hw_active u DONE)"
proof -
  let ?j = "2 * nat (getFSMSize f) - 2"
  have n: "2 \<le> getFSMSize f" using assms(1) by (simp add: printable_def)
  have j: "1 + int ?j = 2 * getFSMSize f - 1" using n by linarith
  from hardware_run[OF assms order.refl] obtain st' where st':
    "clock_periods (array_items m f) (pulse ?j) st = Some st'"
    "at_phase f (2 * getFSMSize f - 1) st'" "progress f val (length (hw_mem st)) (2 * getFSMSize f - 1) st'"
    unfolding j by blast
  have "hw_active st' DONE" using st'(2) n by (simp add: at_phase_def delay_target_def)
  moreover have "hw_mem st' ! cell p = val p" if "p \<in> dom (sm_find m)" for p
  proof -
    have "p \<in> dom (sm_find (FSM2 f))" unfolding orderedD(1)[OF assms(2)] by (rule that)
    then obtain t where t: "sm_find (FSM2 f) p = Some t" unfolding dom_def by blast
    have "2 * t - 1 < 2 * getFSMSize f - 1" using time_range(2)[OF assms(1,2) t] by simp
    then show ?thesis using st'(3) t by (simp add: progress_def)
  qed
  moreover have "\<exists>u. clock_periods (array_items m f) (pulse i) st = Some u \<and> \<not> hw_active u DONE"
    if i: "i < ?j" for i
  proof -
    obtain u where u: "clock_periods (array_items m f) (pulse i) st = Some u" "at_phase f (1 + int i) u"
      using hardware_run[OF assms less_imp_le[OF i]] by blast
    have "1 + int i \<noteq> 2 * getFSMSize f - 1" using i j by linarith
    then have "\<not> hw_active u DONE" using u(2) by (simp add: at_phase_def delay_target_def)
    then show ?thesis using u(1) by blast
  qed
  ultimately show ?thesis using st'(1) by blast
qed

section \<open>Accesses outside the memory\<close>

lemma exec_statements_keeps:
  "exec_statements items old sts new = Some new' \<Longrightarrow>
   hw_active new' = hw_active new \<and> length (hw_mem new') = length (hw_mem new)"
proof (induction sts arbitrary: new)
  case (Cons st sts)
  obtain u where u: "exec_statement items old st new = Some u" "exec_statements items old sts u = Some new'"
    using Cons.prems by (auto split: bind_splits)
  have "hw_active u = hw_active new \<and> length (hw_mem u) = length (hw_mem new)"
    using u(1) by (cases st) (auto split: option.splits if_splits)
  then show ?case using Cons.IH[OF u(2)] by simp
qed simp

lemma exec_read_outside:
  assumes "Read_mem p i \<in> set sts" "length (hw_mem old) \<le> nat i"
  shows "exec_statements items old sts new = None"
  using assms(1)
proof (induction sts arbitrary: new)
  case (Cons st sts)
  show ?case
  proof (cases "st = Read_mem p i")
    case True
    then show ?thesis using assms(2) by simp
  next
    case False
    then have "exec_statements items old sts u = None" for u using Cons by simp
    then show ?thesis by (simp split: bind_splits)
  qed
qed simp

lemma period_success:
  assumes "printable m f" "0 \<le> k" "k \<le> 2 * getFSMSize f - 2" "at_phase f k st"
    and "clock_period (array_items m f) (k = 0) st = Some st'"
  shows "at_phase f (k + 1) st'" "length (hw_mem st') = length (hw_mem st)"
    "Read_mem p i \<in> set (phase_statements m f k) \<Longrightarrow> nat i < length (hw_mem st)"
proof -
  have n: "2 \<le> getFSMSize f" using assms(1) by (simp add: printable_def)
  let ?s0 = "st\<lparr>hw_active := (hw_active st)(GO := (k = 0))\<rparr>"
  have act: "hw_active ?s0 = (\<lambda>s. s = phase_signal k)"
    using assms(3,4) by (auto simp: fun_eq_iff at_phase_def phase_signal_def delay_target_def)
  note exe = phase_executed[OF assms(1-3)]
  obtain s1 where s1: "clock_event (array_items m f) False ?s0 = Some s1" "clock_event (array_items m f) True s1 = Some st'"
    using assms(5) by (auto simp: clock_period_def split: bind_splits)
  have e1: "exec_statements (array_items m f) ?s0 (phase_statements m f k) ?s0 = Some s1"
    using s1(1) unfolding clock_event_def act exe by (auto split: bind_splits)
  note k1 = exec_statements_keeps[OF e1]
  have a1: "hw_active s1 = (\<lambda>s. s = phase_signal k)" using k1 act by simp
  obtain s2 where e2: "exec_statements (array_items m f) s1 (phase_statements m f k) s1 = Some s2"
    "st' = s2\<lparr>hw_active := next_active (array_items m f) (\<lambda>s. s = phase_signal k)\<rparr>"
    using s1(2) unfolding clock_event_def a1 exe by (auto split: bind_splits)
  note k2 = exec_statements_keeps[OF e2(1)]
  show "at_phase f (k + 1) st'"
    unfolding at_phase_def e2(2) using next_phase[OF n assms(2,3)] assms(2) by simp
  show "length (hw_mem st') = length (hw_mem st)" using k1 k2 by (simp add: e2(2))
  show "nat i < length (hw_mem st)" if "Read_mem p i \<in> set (phase_statements m f k)"
  proof (rule ccontr)
    assume "\<not> nat i < length (hw_mem st)"
    then have "exec_statements (array_items m f) ?s0 (phase_statements m f k) ?s0 = None"
      by (intro exec_read_outside[OF that]) simp
    then show False using e1 by simp
  qed
qed

lemma periods_success:
  assumes "printable m f"
  shows "1 \<le> k \<Longrightarrow> k + int j \<le> 2 * getFSMSize f - 1 \<Longrightarrow> at_phase f k st \<Longrightarrow>
    clock_periods (array_items m f) (replicate j False) st = Some st' \<Longrightarrow>
    k \<le> i \<Longrightarrow> i < k + int j \<Longrightarrow> Read_mem p a \<in> set (phase_statements m f i) \<Longrightarrow> nat a < length (hw_mem st)"
proof (induction j arbitrary: k st)
  case (Suc j)
  have k: "0 \<le> k" "k \<le> 2 * getFSMSize f - 2" "(k = 0) = False" using Suc.prems(1,2) by auto
  obtain st1 where st1: "clock_period (array_items m f) (k = 0) st = Some st1"
    "clock_periods (array_items m f) (replicate j False) st1 = Some st'"
    using Suc.prems(4) k(3) by (auto split: bind_splits)
  note step = period_success[OF assms k(1,2) Suc.prems(3) st1(1)]
  show ?case
  proof (cases "i = k")
    case True
    then show ?thesis using step(3)[of p a] Suc.prems(7) by simp
  next
    case False
    have "nat a < length (hw_mem st1)"
      by (rule Suc.IH[OF _ _ step(1) st1(2)]) (use Suc.prems False in auto)
    then show ?thesis using step(2) by simp
  qed
qed simp

lemma run_outside:
  assumes "printable m f" "ordered m f" "after_reset st" "p \<in> dom (sm_find m)" "length (hw_mem st) \<le> cell p"
  shows "clock_periods (array_items m f) (pulse (2 * nat (getFSMSize f) - 2)) st = None"
proof (rule ccontr)
  let ?j = "2 * nat (getFSMSize f) - 2"
  have n: "2 \<le> getFSMSize f" using assms(1) by (simp add: printable_def)
  have j: "int ?j = 2 * getFSMSize f - 2" using n by linarith
  have "p \<in> dom (sm_find (FSM2 f))" unfolding orderedD(1)[OF assms(2)] by (rule assms(4))
  then obtain t where t: "sm_find (FSM2 f) p = Some t" unfolding dom_def by blast
  note range = time_range[OF assms(1,2) t]
  have "p \<in> set (rows_at f t)" using rows_at_iff[OF assms(1,2)] t by blast
  then have read: "Read_mem p (p div 4) \<in> set (phase_statements m f (2 * t))" by (simp add: phase_statements_def)
  assume "clock_periods (array_items m f) (pulse ?j) st \<noteq> None"
  then obtain s1 st' where s: "clock_period (array_items m f) (0 = (0::int)) st = Some s1"
    "clock_periods (array_items m f) (replicate ?j False) s1 = Some st'"
    by (auto simp: pulse_def split: bind_splits)
  have phase0: "at_phase f 0 st" using assms(3) by (simp add: at_phase_def after_reset_def)
  note first = period_success[OF assms(1) order.refl _ phase0 s(1)]
  have "cell p < length (hw_mem st)"
  proof (cases "t = 0")
    case True
    then show ?thesis using first(3)[of p "p div 4"] read n by simp
  next
    case False
    have one: "at_phase f 1 s1" using first(1) n by simp
    have "cell p < length (hw_mem s1)"
      by (rule periods_success[OF assms(1) _ _ one s(2) _ _ read]) (use False range n j in simp_all)
    then show ?thesis using first(2) n by simp
  qed
  then show False using assms(5) by simp
qed

section \<open>Properties\<close>

text \<open>
  C3: the printed hardware runs to its end with the right values, if all its rows are memory rows or have a
  bitwise operator of two inputs (\<open>printable\<close>, so no multiplexer, and \<open>without_sums\<close>, since a file with a
  sum does not elaborate), if the times of the state machine follow the connections (\<open>ordered\<close>), if \<open>RST\<close>
  and \<open>EN\<close> stay 0, and if the memory has a cell for every row (\<open>fits\<close>; the memory that is printed need not
  have one, see \<open>printVhdl_outside\<close>). Whatever is in the memory, the architecture that is written then
  computes, after a pulse of \<open>GO\<close>, the values that the rows and their connections say; \<open>DONE\<close> is raised
  after twice as many periods as there are times, less two, and not before.
\<close>

theorem printVhdl_computes:
  assumes "printable m f" "ordered m f" "without_sums m" "after_reset st" "fits m (length (hw_mem st))"
  shows "\<exists>out val st'. printVhdl m f = Inr out \<and> solves m f (hw_mem st) val \<and>
    clock_periods (compInst (v_arch out)) (pulse (2 * nat (getFSMSize f) - 2)) st = Some st' \<and>
    hw_active st' DONE \<and> (\<forall>p \<in> dom (sm_find m). hw_mem st' ! cell p = val p) \<and>
    (\<forall>j < 2 * nat (getFSMSize f) - 2. \<exists>u. clock_periods (compInst (v_arch out)) (pulse j) st = Some u \<and> \<not> hw_active u DONE)"
proof -
  obtain out where out: "printVhdl m f = Inr out" "compInst (v_arch out) = array_items m f"
    by (rule printVhdl_printable[OF assms(1)])
  obtain val where val: "solves m f (hw_mem st) val" using solution_exists[OF assms(1-3)] by blast
  from hardware_result[OF assms(1,2) val assms(5,4)] show ?thesis using out val by auto
qed

text \<open>
  The printed hardware stops with an index error when a row has no cell in the memory, whatever the
  values are.
\<close>

theorem printVhdl_outside:
  assumes "printable m f" "ordered m f" "after_reset st" "p \<in> dom (sm_find m)" "length (hw_mem st) \<le> cell p"
  shows "\<exists>out. printVhdl m f = Inr out \<and>
    clock_periods (compInst (v_arch out)) (pulse (2 * nat (getFSMSize f) - 2)) st = None"
proof -
  obtain out where "printVhdl m f = Inr out" "compInst (v_arch out) = array_items m f"
    by (rule printVhdl_printable[OF assms(1)])
  then show ?thesis using run_outside[OF assms] by auto
qed

lemma and_ordered: "ordered and_array and_fsm"
proof -
  have "dom (sm_find and_array) = dom (sm_find (FSM2 and_fsm))" by (auto simp: and_finds dom_def split: if_splits)
  then show ?thesis
    unfolding ordered_def by (auto simp: and_fed and_finds row_source_def split: if_splits) (simp_all add: and_array_def)
qed

definition and_start :: hw where
  "and_start = \<lparr>hw_active = \<lambda>_. False, hw_mem = [12, 10, 0], hw_rd = \<lambda>_. 0\<rparr>"

theorem printVhdl_computes_witness:
  "\<exists>out st'. printVhdl and_array and_fsm = Inr out \<and>
    clock_periods (compInst (v_arch out)) (pulse 2) and_start = Some st' \<and> hw_active st' DONE \<and> hw_mem st' ! 2 = 8"
proof -
  have reset: "after_reset and_start" by (simp add: after_reset_def and_start_def)
  have dom: "dom (sm_find and_array) = {0, 4, 8}" by (auto simp: and_finds dom_def split: if_splits)
  then have fits: "fits and_array (length (hw_mem and_start))" by (simp add: fits_def and_start_def)
  have n: "2 * nat (getFSMSize and_fsm) - 2 = 2" by (simp add: getFSMSize_def and_fsm_def)
  have sums: "without_sums and_array" by (simp add: without_sums_def and_array_def)
  obtain out val st' where r: "printVhdl and_array and_fsm = Inr out" "solves and_array and_fsm (hw_mem and_start) val"
    "clock_periods (compInst (v_arch out)) (pulse 2) and_start = Some st'" "hw_active st' DONE"
    "\<forall>p \<in> dom (sm_find and_array). hw_mem st' ! cell p = val p"
    using printVhdl_computes[OF and_printable and_ordered sums reset fits] unfolding n by blast
  have "val 0 = 12" "val 4 = 10" using r(2) by (simp_all add: solves_def and_finds and_start_def)
  moreover have "row_value (snd (and_array ! 1)) (val 4) (val (row_source (snd (and_array ! 1)))) = Some (val 8)"
    by (rule solvesD(2)[OF r(2), of 8 1]) (simp_all add: and_finds and_fed)
  ultimately have "val 8 = 8" by (simp add: and_array_def row_source_def row_value_def gate_def gates_def)
  then have "hw_mem st' ! 2 = 8" using r(5) dom by auto
  then show ?thesis using r(1,3,4) by blast
qed

theorem printVhdl_outside_witness:
  "\<exists>out. printVhdl and_array and_fsm = Inr out \<and>
    clock_periods (compInst (v_arch out)) (pulse 2) (and_start\<lparr>hw_mem := [12, 10]\<rparr>) = None"
proof -
  have reset: "after_reset (and_start\<lparr>hw_mem := [12, 10]\<rparr>)" by (simp add: after_reset_def and_start_def)
  have n: "2 * nat (getFSMSize and_fsm) - 2 = 2" by (simp add: getFSMSize_def and_fsm_def)
  have "8 \<in> dom (sm_find and_array)" by (simp add: domIff and_finds)
  from printVhdl_outside[OF and_printable and_ordered reset this] show ?thesis unfolding n by simp
qed

end
