(* ===== verification/Straight_Hardware.thy ===== *)
theory Straight_Hardware
  imports Straight_Line Vhdl_Semantics
begin

text \<open>
  From the binder to the hardware: the arrays and the state machines that the binder makes of
  straight-line code on scalar variables can be printed, and the hardware that is printed for them
  computes the operations of the code.
\<close>

section \<open>One operation, exactly\<close>

text \<open>The row of the second operand becomes the LiM row, and a new row takes its output.\<close>

lemma bind_fresh_operand:
  assumes "binder_inv b" "b_operation b \<noteq> ''load''" "\<not> is_shift (b_operation b)"
    and "srcReg1Type (b_instr b) = singleVariable" "srcReg2Type (b_instr b) = singleVariable"
    and "sm_find (b_arrayNamesMap b) (sourceReg1 (b_instr b)) = Some [r1]"
    and "sm_find (b_arrayNamesMap b) (sourceReg2 (b_instr b)) = Some [r2]"
    and "r2 \<notin> dom (sm_find (b_lastDestMap b))"
    and "sm_find (b_MemArray b) r2 = Some row2" "rowType row2 = ''load''" "additionalLogic row2 = []"
    and "length (inputConnections row2) = 1"
    and "sm_find (FSM2 (b_FSMLim b)) r1 = Some t1" "sm_find (FSM2 (b_FSMLim b)) r2 = Some t2"
  shows "\<exists>b' lrow. handleFPOperationBindingProcess b = Inr b' \<and>
    rowType lrow = b_operation b \<and> inputConnections lrow = inputConnections row2 @ [r1] \<and>
    inputConnectionsType lrow = inputConnectionsType row2 @ [''OC''] \<and>
    b_MemArray b' = addNewResultRow (b_zeroAddr b) (b_par b) r2 ''OLiM'' (sm_modify r2 (\<lambda>_. lrow) (b_MemArray b)) \<and>
    b_FSMLim b' = addNewInstruction (max t1 t2 + 1) (b_zeroAddr b) (b_FSMLim b) \<and>
    b_zeroAddr b' = b_zeroAddr b + 8 \<and>
    b_lastDestMap b' = sm_insert r2 (b_zeroAddr b) (sm_insert r1 (b_zeroAddr b) (b_lastDestMap b)) \<and>
    b_arrayNamesMap b' = b_arrayNamesMap (addNewItem (b_destReg b) (b_zeroAddr b) b)"
proof -
  let ?d = "b_zeroAddr b"
  let ?b1 = "b\<lparr>b_zeroAddr := ptr_incr (b_zeroAddr b), b_addrListSrc1 := [r1], b_addrListSrc2 := [r2]\<rparr>"
  let ?s = "fp_state ?d r1 r2 ?b1"
  have f: "b_zeroAddr ?s = ptr_incr ?d" "b_par ?s = b_par b"
    "b_arrayNamesMap ?s = b_arrayNamesMap (addNewItem (b_destReg b) ?d b)" by (simp_all add: fp_state_def addNewItem_def)
  have none: "common_dest ?s = None" using assms(8) by (auto simp: common_dest_def split: option.split)
  let ?spec = "b_specifications b"
  let ?c = "\<lambda>row. row\<lparr>rowType := b_operation b, additionalLogic := (if ?spec \<noteq> [] then ?spec else additionalLogic row)\<rparr>"
  let ?a = "\<lambda>row. row\<lparr>inputConnections := inputConnections row @ [r1], inputConnectionsType := inputConnectionsType row @ [''OC'']\<rparr>"
  let ?lrow = "?a (?c row2)"
  have inv: "sm_inv (b_MemArray b)" using binder_invD(8)[OF assms(1)] by blast
  have change: "changeLiMRowType r2 (b_operation b) ?spec (b_MemArray b) = Inr (True, sm_modify r2 ?c (b_MemArray b))"
    using assms(9-11) by (simp add: changeLiMRowType_def findRow_def checkIfRowIsLiM_def)
  have connect: "addNewInputConnection r2 r1 ''OC'' (sm_modify r2 ?c (b_MemArray b)) =
      Inr (sm_modify r2 ?a (sm_modify r2 ?c (b_MemArray b)))"
    using assms(9,12) by (simp add: addNewInputConnection_def findRow_def sm_find_modify)
  have "(p, row) \<in> set (b_MemArray b) \<Longrightarrow> p = r2 \<Longrightarrow> row = row2" for p row
    using assms(9) sm.entries_iff[OF inv] by auto
  then have both: "sm_modify r2 ?a (sm_modify r2 ?c (b_MemArray b)) = sm_modify r2 (\<lambda>_. ?lrow) (b_MemArray b)"
    by (auto simp: sm_modify_def)
  have bind: "bind_operands ?s = Inr (Plain r2, ?s\<lparr>b_MemArray := sm_modify r2 (\<lambda>_. ?lrow) (b_MemArray b)\<rparr>)"
    using change connect both by (simp add: bind_operands_def connect_operand_def)
  have time: "later_time (b_FSMLim b) r1 r2 = Inr (max t1 t2 + 1)"
    using assms(13,14) by (simp add: later_time_def fsm_getTime_def)
  let ?m = "addNewResultRow ?d (b_par b) r2 ''OLiM'' (sm_modify r2 (\<lambda>_. ?lrow) (b_MemArray b))"
  let ?b2 = "remember_dest (?s\<lparr>b_MemArray := ?m, b_FSMLim := addNewInstruction (max t1 t2 + 1) ?d (b_FSMLim b)\<rparr>)"
  have perform: "performBinding ?s = Inr ?b2"
    using none assms(3) bind time f(2) by (simp add: performBinding_def add_result_def Let_def)
  obtain e b3 where b3: "getNewName ?b2 = (e, b3)" by (cases "getNewName ?b2")
  have f3: "b_MemArray b3 = b_MemArray ?b2" "b_FSMLim b3 = b_FSMLim ?b2" "b_lastDestMap b3 = b_lastDestMap ?b2"
    "b_zeroAddr b3 = ptr_incr (b_zeroAddr ?b2)" "b_arrayNamesMap b3 = b_arrayNamesMap ?b2"
    using b3 by (auto simp: getNewName_def)
  have new: "getNewName b = (?d, b\<lparr>b_zeroAddr := ptr_incr ?d\<rparr>)" by (simp add: getNewName_def)
  have run: "handleFPOperationBindingProcess b = Inr b3"
    using new assms(4-7) perform b3
    by (simp add: handleFPOperationBindingProcess_def Let_def findInANM_def operand_list_def for_loop_upt
        fp_step_run list_at_def)
  show ?thesis
    by (rule exI[of _ b3], rule exI[of _ ?lrow])
      (use run f in \<open>simp add: f3 remember_dest_def ptr_incr_def\<close>)
qed

lemma bind_scalar_load:
  assumes "\<not> isArray (b_InfoCollection b) (b_destReg b)"
  shows "\<exists>b'. handleLoadOperationBindingProcess b = Inr b' \<and>
    b_MemArray b' = addNewRow (b_zeroAddr b) ''load'' (b_par b) (b_MemArray b) \<and>
    b_FSMLim b' = addNewInstruction (ti (b_instr b)) (b_zeroAddr b) (b_FSMLim b) \<and>
    b_zeroAddr b' = b_zeroAddr b + 4 \<and> b_lastDestMap b' = b_lastDestMap b \<and>
    b_arrayNamesMap b' = b_arrayNamesMap (addNewItem (b_destReg b) (b_zeroAddr b) b)"
  using assms
  by (simp add: handleLoadOperationBindingProcess_def for_loop_upt bind_load_row_def getNewName_def ptr_incr_def)
    (simp add: addNewItem_def)

section \<open>The invariant\<close>

text \<open>A row of a time after 0 comes from a LiM row that is written earlier, and so is the source of that row.\<close>

definition in_time :: "limArray \<Rightarrow> fsm \<Rightarrow> bool" where
  "in_time m f \<longleftrightarrow> (\<forall>p t. sm_find (FSM2 f) p = Some t \<longrightarrow> t \<noteq> 0 \<longrightarrow>
     (\<exists>c crow tc ts. fed_by m p c \<and> sm_find m c = Some crow \<and> sm_find (FSM2 f) c = Some tc \<and> tc < t \<and>
        sm_find (FSM2 f) (row_source crow) = Some ts \<and> ts < t))"

text \<open>The operations of the hardware: those that are printed, without the sums.\<close>

definition bitwise_logic :: "string set" where
  "bitwise_logic = printed_logic - {''add''}"

text \<open>A row: printable, no sum, connected to operands only, and a plain memory row as long as it is no operand.\<close>

definition tidy_row :: "lim_binder \<Rightarrow> ptr \<Rightarrow> LiMRow \<Rightarrow> bool" where
  "tidy_row b p row \<longleftrightarrow> printable_row (b_MemArray b) row \<and> rowType row \<noteq> ''add'' \<and>
     set (inputConnections row) \<subseteq> {no_input} \<union> dom (sm_find (b_lastDestMap b)) \<and>
     (p \<notin> dom (sm_find (b_lastDestMap b)) \<longrightarrow>
        rowType row = ''load'' \<and> additionalLogic row = [] \<and> length (inputConnections row) = 1)"

text \<open>The state after \<open>k\<close> operations; each of them takes two names.\<close>

definition tidy :: "nat \<Rightarrow> lim_binder \<Rightarrow> bool" where
  "tidy k b \<longleftrightarrow> selectionSignalsList (b_FSMLim b) = [] \<and> b_zeroAddr b = 4 * int (length (b_MemArray b) + k) \<and>
     (k \<noteq> 0 \<longrightarrow> 1 \<in> ran (sm_find (FSM2 (b_FSMLim b)))) \<and>
     (\<forall>p row. sm_find (b_MemArray b) p = Some row \<longrightarrow> tidy_row b p row) \<and>
     (\<forall>t \<in> ran (sm_find (FSM2 (b_FSMLim b))). 0 \<le> t \<and> {0..t} \<subseteq> ran (sm_find (FSM2 (b_FSMLim b)))) \<and>
     in_time (b_MemArray b) (b_FSMLim b)"

lemma printable_row_mono: "printable_row m row \<Longrightarrow> dom (sm_find m) \<subseteq> dom (sm_find m') \<Longrightarrow> printable_row m' row"
  unfolding printable_row_def by blast

lemma lim_row_extends:
  assumes "array_extends m m'" "sm_find m c = Some crow" "printable_row m crow" "rowType crow \<noteq> ''load''"
  shows "\<exists>crow'. sm_find m' c = Some crow' \<and> rowType crow' = rowType crow \<and> row_source crow' = row_source crow"
proof -
  obtain crow' where c: "sm_find m' c = Some crow'" "row_extends crow crow'"
    using assms(1,2) by (auto simp: array_extends_def)
  moreover have "inputConnections crow' ! 1 = inputConnections crow ! 1"
    using c(2) assms(3,4) by (auto simp: row_extends_def printable_row_def prefix_def)
  ultimately show ?thesis using assms(4) by (auto simp: row_extends_def row_source_def)
qed

lemma fed_by_extends:
  assumes "array_extends m m'" "fed_by m p c"
  shows "fed_by m' p c"
proof -
  obtain row cs tys crow where r: "sm_find m p = Some row" "inputConnections row = c # cs"
    "inputConnectionsType row = ''OLiM'' # tys" "sm_find m c = Some crow" "rowType crow \<noteq> ''load''"
    using assms(2) by (auto simp: fed_by_def)
  obtain row' crow' where r': "sm_find m' p = Some row'" "row_extends row row'" "sm_find m' c = Some crow'" "row_extends crow crow'"
    using assms(1) r(1,4) unfolding array_extends_def by blast
  then show ?thesis using r by (auto simp: fed_by_def row_extends_def prefix_def)
qed

lemma in_time_extends:
  assumes "in_time m f" "store_grows m f m' f'" "\<And>p row. sm_find m p = Some row \<Longrightarrow> printable_row m row"
    and "sm_find (FSM2 f) p = Some t" "t \<noteq> 0"
  shows "\<exists>c crow tc ts. fed_by m' p c \<and> sm_find m' c = Some crow \<and> sm_find (FSM2 f') c = Some tc \<and> tc < t \<and>
    sm_find (FSM2 f') (row_source crow) = Some ts \<and> ts < t"
proof -
  have ext: "array_extends m m'" and times: "\<And>p t. sm_find (FSM2 f) p = Some t \<Longrightarrow> sm_find (FSM2 f') p = Some t"
    using assms(2) by (simp_all add: store_grows_def)
  obtain c crow tc ts where c: "fed_by m p c" "sm_find m c = Some crow" "sm_find (FSM2 f) c = Some tc" "tc < t"
    "sm_find (FSM2 f) (row_source crow) = Some ts" "ts < t"
    using assms(1,4,5) unfolding in_time_def by blast
  have "rowType crow \<noteq> ''load''" using c(1,2) by (auto simp: fed_by_def)
  from lim_row_extends[OF ext c(2) assms(3)[OF c(2)] this] obtain crow' where
    "sm_find m' c = Some crow'" "row_source crow' = row_source crow" by blast
  then show ?thesis using fed_by_extends[OF ext c(1)] times[OF c(3)] times[OF c(5)] c(4,6) by metis
qed

lemma tidy_row_grows:
  assumes "tidy_row b p row" "dom (sm_find (b_MemArray b)) \<subseteq> dom (sm_find (b_MemArray b'))"
    and "dom (sm_find (b_lastDestMap b)) \<subseteq> dom (sm_find (b_lastDestMap b'))"
  shows "tidy_row b' p row"
  using assms printable_row_mono[OF _ assms(2)] unfolding tidy_row_def by blast

lemma length_sm_insert: "sm_find m k = None \<Longrightarrow> length (sm_insert k v m) = Suc (length m)"
  by (induction k v m rule: sm_insert.induct) (auto split: if_splits)

lemma length_sm_modify [simp]: "length (sm_modify k f m) = length m"
  by (simp add: sm_modify_def)

lemma ran_insert_fresh: "sm_inv m \<Longrightarrow> sm_find m k = None \<Longrightarrow> ran (sm_find (sm_insert k v m)) = insert v (ran (sm_find m))"
proof -
  assume m: "sm_inv m" "sm_find m k = None"
  then have "sm_find (sm_insert k v m) = (sm_find m)(k \<mapsto> v)" by (auto simp: fun_eq_iff sm_find_insert)
  then show ?thesis using m(2) by simp
qed

lemma tidyD:
  assumes "tidy k b"
  shows "selectionSignalsList (b_FSMLim b) = []" "b_zeroAddr b = 4 * int (length (b_MemArray b) + k)"
    "k \<noteq> 0 \<Longrightarrow> 1 \<in> ran (sm_find (FSM2 (b_FSMLim b)))"
    "sm_find (b_MemArray b) p = Some row \<Longrightarrow> tidy_row b p row"
    "t \<in> ran (sm_find (FSM2 (b_FSMLim b))) \<Longrightarrow> 0 \<le> t \<and> {0..t} \<subseteq> ran (sm_find (FSM2 (b_FSMLim b)))"
    "in_time (b_MemArray b) (b_FSMLim b)"
  using assms unfolding tidy_def by blast+

lemma fresh_name:
  assumes "binder_inv b"
  shows "sm_find (b_MemArray b) (b_zeroAddr b) = None" "sm_find (FSM2 (b_FSMLim b)) (b_zeroAddr b) = None"
    "sm_inv (FSM2 (b_FSMLim b))" "sm_inv (b_MemArray b)"
proof -
  note i = binder_invD[OF assms]
  show none: "sm_find (b_MemArray b) (b_zeroAddr b) = None" using rows.fresh[OF i(7)] .
  then have "b_zeroAddr b \<notin> dom (sm_find (FSM2 (b_FSMLim b)))" unfolding i(9) by (simp add: domIff)
  then show "sm_find (FSM2 (b_FSMLim b)) (b_zeroAddr b) = None" by (simp add: domIff)
  show "sm_inv (FSM2 (b_FSMLim b))" using store_ok_fsm(1)[OF i(1)] by (simp add: fsm_inv_def)
  show "sm_inv (b_MemArray b)" using i(8) by blast
qed

text \<open>Adding a time to a gapless set of times.\<close>

lemma gapless_insert:
  assumes "\<And>t. t \<in> A \<Longrightarrow> 0 \<le> t \<and> {0..t} \<subseteq> A" "s = 0 \<or> s - 1 \<in> A" "t \<in> insert s A"
  shows "0 \<le> t \<and> {0..t} \<subseteq> insert s (A :: int set)"
proof (cases "t \<in> A")
  case True
  then show ?thesis using assms(1) by blast
next
  case False
  then have t: "t = s" using assms(3) by simp
  show ?thesis
  proof (cases "s = 0")
    case True
    then show ?thesis using t by simp
  next
    case False
    then have a: "0 \<le> s - 1" "{0..s - 1} \<subseteq> A" using assms(1,2) by blast+
    have "{0..s} = insert s {0..s - 1}" using a(1) by auto
    then show ?thesis using a t by auto
  qed
qed

lemma tidy_load:
  assumes "binder_inv b" "tidy k b" "\<not> isArray (b_InfoCollection b) (b_destReg b)" "ti (b_instr b) = 0"
    and "handleLoadOperationBindingProcess b = Inr b'" "store_grows (b_MemArray b) (b_FSMLim b) (b_MemArray b') (b_FSMLim b')"
  shows "tidy k b' \<and> sm_find (FSM2 (b_FSMLim b')) (b_zeroAddr b) = Some 0 \<and>
    b_arrayNamesMap b' = b_arrayNamesMap (addNewItem (b_destReg b) (b_zeroAddr b) b) \<and>
    b_lastDestMap b' = b_lastDestMap b \<and>
    dom (sm_find (b_MemArray b')) = insert (b_zeroAddr b) (dom (sm_find (b_MemArray b))) \<and>
    b_zeroAddr b' = b_zeroAddr b + 4"
proof -
  let ?d = "b_zeroAddr b"
  have b': "b_MemArray b' = addNewRow ?d ''load'' (b_par b) (b_MemArray b)"
    "b_FSMLim b' = addNewInstruction 0 ?d (b_FSMLim b)" "b_zeroAddr b' = ?d + 4" "b_lastDestMap b' = b_lastDestMap b"
    "b_arrayNamesMap b' = b_arrayNamesMap (addNewItem (b_destReg b) ?d b)"
    using bind_scalar_load[OF assms(3)] assms(4,5) by auto
  note fresh = fresh_name[OF assms(1)] and t = tidyD[OF assms(2)]
  have m': "sm_find (b_MemArray b') p = (if p = ?d then Some \<lparr>rowType = ''load'', rowLength = b_par b,
      inputConnections = [no_input], inputConnectionsType = [''none''], additionalLogic = []\<rparr>
      else sm_find (b_MemArray b) p)" for p
    using fresh(1,4) by (simp add: b'(1) addNewRow_def sm_find_insert)
  have f': "sm_find (FSM2 (b_FSMLim b')) p = (if p = ?d then Some 0 else sm_find (FSM2 (b_FSMLim b)) p)" for p
    using fresh(2,3) by (simp add: b'(2) addNewInstruction_def sm_find_insert)
  have ran: "ran (sm_find (FSM2 (b_FSMLim b'))) = insert 0 (ran (sm_find (FSM2 (b_FSMLim b))))"
    using ran_insert_fresh[OF fresh(3,2)] by (simp add: b'(2) addNewInstruction_def)
  have "tidy_row b' p row" if p: "sm_find (b_MemArray b') p = Some row" for p row
  proof (cases "p = ?d")
    case True
    then show ?thesis using p by (auto simp: m' tidy_row_def printable_row_def)
  next
    case False
    then have "tidy_row b p row" using p t(4) by (simp add: m')
    then show ?thesis by (rule tidy_row_grows) (auto simp: m' b'(4))
  qed
  moreover have "in_time (b_MemArray b') (b_FSMLim b')"
    unfolding in_time_def
  proof (intro allI impI)
    fix p s assume p: "sm_find (FSM2 (b_FSMLim b')) p = Some s" "s \<noteq> 0"
    then have "sm_find (FSM2 (b_FSMLim b)) p = Some s" by (simp add: f' split: if_splits)
    from in_time_extends[OF t(6) assms(6) _ this p(2)] show
      "\<exists>c crow tc ts. fed_by (b_MemArray b') p c \<and> sm_find (b_MemArray b') c = Some crow \<and>
         sm_find (FSM2 (b_FSMLim b')) c = Some tc \<and> tc < s \<and> sm_find (FSM2 (b_FSMLim b')) (row_source crow) = Some ts \<and> ts < s"
      using t(4) unfolding tidy_row_def by blast
  qed
  moreover have "length (b_MemArray b') = Suc (length (b_MemArray b))"
    using fresh(1) by (simp add: b'(1) addNewRow_def length_sm_insert)
  then have "b_zeroAddr b' = 4 * int (length (b_MemArray b') + k)" using t(2) by (simp add: b'(3))
  moreover have "selectionSignalsList (b_FSMLim b') = []" using t(1) by (simp add: b'(2) addNewInstruction_def)
  moreover have "0 \<le> s \<and> {0..s} \<subseteq> ran (sm_find (FSM2 (b_FSMLim b')))" if "s \<in> ran (sm_find (FSM2 (b_FSMLim b')))" for s
    using gapless_insert[OF t(5), of 0 s] that unfolding ran by blast
  moreover have "k \<noteq> 0 \<longrightarrow> 1 \<in> ran (sm_find (FSM2 (b_FSMLim b')))" using t(3) unfolding ran by blast
  ultimately have "tidy k b'" unfolding tidy_def by blast
  moreover have "dom (sm_find (b_MemArray b')) = insert ?d (dom (sm_find (b_MemArray b)))" by (auto simp: m')
  ultimately show ?thesis using b'(3-5) f' by simp
qed

text \<open>The row \<open>p\<close> gets the operation of the rows \<open>x\<close> and \<open>y\<close>.\<close>

definition feeds :: "limArray \<Rightarrow> fsm \<Rightarrow> string \<Rightarrow> ptr \<Rightarrow> ptr \<Rightarrow> ptr \<Rightarrow> bool" where
  "feeds m f op x y p \<longleftrightarrow> fed_by m p y \<and>
     (\<exists>crow. sm_find m y = Some crow \<and> rowType crow = op \<and> row_source crow = x) \<and>
     (\<exists>t. sm_find (FSM2 f) p = Some t \<and> t \<noteq> 0)"

lemma bitwise_no_load: "op \<in> bitwise_logic \<Longrightarrow> op \<noteq> ''load'' \<and> \<not> is_shift op"
  by (auto simp: bitwise_logic_def printed_logic_def is_shift_def)

lemma tidy_operation:
  assumes "binder_inv b" "tidy k b" "b_operation b \<in> bitwise_logic"
    and "srcReg1Type (b_instr b) = singleVariable" "srcReg2Type (b_instr b) = singleVariable"
    and "sm_find (b_arrayNamesMap b) (sourceReg1 (b_instr b)) = Some [r1]"
    and "sm_find (b_arrayNamesMap b) (sourceReg2 (b_instr b)) = Some [r2]"
    and "r1 \<in> dom (sm_find (b_MemArray b))" "r2 \<in> dom (sm_find (b_MemArray b))"
    and "r2 \<notin> dom (sm_find (b_lastDestMap b))" "dom (sm_find (b_lastDestMap b)) \<subseteq> dom (sm_find (b_MemArray b))"
    and "handleFPOperationBindingProcess b = Inr b'" "store_grows (b_MemArray b) (b_FSMLim b) (b_MemArray b') (b_FSMLim b')"
  shows "tidy (Suc k) b' \<and> feeds (b_MemArray b') (b_FSMLim b') (b_operation b) r1 r2 (b_zeroAddr b) \<and>
    b_arrayNamesMap b' = b_arrayNamesMap (addNewItem (b_destReg b) (b_zeroAddr b) b) \<and>
    b_zeroAddr b \<in> dom (sm_find (b_MemArray b')) - dom (sm_find (b_lastDestMap b')) \<and>
    dom (sm_find (b_MemArray b')) = insert (b_zeroAddr b) (dom (sm_find (b_MemArray b))) \<and>
    b_zeroAddr b' = b_zeroAddr b + 8"
proof -
  let ?d = "b_zeroAddr b"
  note fresh = fresh_name[OF assms(1)] and t = tidyD[OF assms(2)] and i = binder_invD[OF assms(1)]
  have op: "b_operation b \<noteq> ''load''" "\<not> is_shift (b_operation b)" using bitwise_no_load[OF assms(3)] by simp_all
  obtain row2 where row2: "sm_find (b_MemArray b) r2 = Some row2" using assms(9) by blast
  have plain: "rowType row2 = ''load''" "additionalLogic row2 = []" "length (inputConnections row2) = 1"
    and conns: "set (inputConnections row2) \<subseteq> {no_input} \<union> dom (sm_find (b_lastDestMap b))"
    using t(4)[OF row2] assms(10) by (simp_all add: tidy_row_def)
  obtain c where c: "inputConnections row2 = [c]" using plain(3) by (cases "inputConnections row2") auto
  have "row_wf row2" using i(8) row2 by (simp add: array_inv_def)
  then obtain ty where ty: "inputConnectionsType row2 = [ty]"
    using plain(3) by (cases "inputConnectionsType row2") (auto simp: row_wf_def)
  obtain t1 t2 where times: "sm_find (FSM2 (b_FSMLim b)) r1 = Some t1" "sm_find (FSM2 (b_FSMLim b)) r2 = Some t2"
    using assms(8,9) unfolding i(9)[symmetric] by blast
  let ?t = "max t1 t2 + 1"
  have "t1 \<in> ran (sm_find (FSM2 (b_FSMLim b)))" "t2 \<in> ran (sm_find (FSM2 (b_FSMLim b)))"
    using times by (auto simp: ran_def)
  then have tmax: "max t1 t2 \<in> ran (sm_find (FSM2 (b_FSMLim b)))" by (simp add: max_def)
  then have t0: "0 \<le> max t1 t2" "{0..max t1 t2} \<subseteq> ran (sm_find (FSM2 (b_FSMLim b)))" using t(5) by blast+
  obtain lrow where b': "rowType lrow = b_operation b" "inputConnections lrow = [c, r1]" "inputConnectionsType lrow = [ty, ''OC'']"
    "b_MemArray b' = addNewResultRow ?d (b_par b) r2 ''OLiM'' (sm_modify r2 (\<lambda>_. lrow) (b_MemArray b))"
    "b_FSMLim b' = addNewInstruction ?t ?d (b_FSMLim b)" "b_zeroAddr b' = ?d + 8"
    "b_lastDestMap b' = sm_insert r2 ?d (sm_insert r1 ?d (b_lastDestMap b))"
    "b_arrayNamesMap b' = b_arrayNamesMap (addNewItem (b_destReg b) ?d b)"
    using bind_fresh_operand[OF assms(1) op assms(4-7,10) row2 plain times] assms(12) c ty by auto
  have neq: "r1 \<noteq> ?d" "r2 \<noteq> ?d" using assms(8,9) fresh(1) by (auto simp: domIff)
  have m': "sm_find (b_MemArray b') p = (if p = ?d then Some \<lparr>rowType = ''load'', rowLength = b_par b,
      inputConnections = [r2], inputConnectionsType = [''OLiM''], additionalLogic = []\<rparr>
      else if p = r2 then Some lrow else sm_find (b_MemArray b) p)" for p
    using fresh(1,4) row2 by (simp add: b'(4) addNewResultRow_def sm_find_insert sm_find_modify)
  have f': "sm_find (FSM2 (b_FSMLim b')) p = (if p = ?d then Some ?t else sm_find (FSM2 (b_FSMLim b)) p)" for p
    using fresh(2,3) by (simp add: b'(5) addNewInstruction_def sm_find_insert)
  have ran: "ran (sm_find (FSM2 (b_FSMLim b'))) = insert ?t (ran (sm_find (FSM2 (b_FSMLim b))))"
    using ran_insert_fresh[OF fresh(3,2)] by (simp add: b'(5) addNewInstruction_def)
  have "sm_inv (b_lastDestMap b)" using i(2) by (simp add: last_dest_ok_def)
  then have last: "dom (sm_find (b_lastDestMap b')) = {r1, r2} \<union> dom (sm_find (b_lastDestMap b))"
    by (auto simp: b'(7) sm.dom_insert)
  have dom: "dom (sm_find (b_MemArray b)) \<subseteq> dom (sm_find (b_MemArray b'))" by (auto simp: m')
  have source: "row_source lrow = r1" by (simp add: row_source_def b'(2))
  have fed: "fed_by (b_MemArray b') ?d r2" using neq b'(1) op(1) by (simp add: fed_by_def m')
  have "tidy_row b' p row" if p: "sm_find (b_MemArray b') p = Some row" for p row
  proof -
    consider "p = ?d" | "p \<noteq> ?d" "p = r2" | "p \<noteq> ?d" "p \<noteq> r2" by blast
    then show ?thesis
    proof cases
      case 1
      then have row: "rowType row = ''load''" "inputConnections row = [r2]" "additionalLogic row = []"
        using p unfolding m' by auto
      then show ?thesis by (simp add: tidy_row_def printable_row_def last)
    next
      case 2
      then have "row = lrow" using p neq(2) by (simp add: m')
      moreover have "r1 \<in> dom (sm_find (b_MemArray b'))" using dom assms(8) by blast
      ultimately show ?thesis
        using 2 b'(1-3) assms(3) conns c by (simp add: tidy_row_def printable_row_def last bitwise_logic_def)
    next
      case 3
      then have "tidy_row b p row" using p t(4) by (simp add: m')
      then show ?thesis by (rule tidy_row_grows[OF _ dom]) (auto simp: last)
    qed
  qed
  moreover have "in_time (b_MemArray b') (b_FSMLim b')"
    unfolding in_time_def
  proof (intro allI impI)
    fix p s assume p: "sm_find (FSM2 (b_FSMLim b')) p = Some s" "s \<noteq> 0"
    show "\<exists>c crow tc ts. fed_by (b_MemArray b') p c \<and> sm_find (b_MemArray b') c = Some crow \<and>
         sm_find (FSM2 (b_FSMLim b')) c = Some tc \<and> tc < s \<and> sm_find (FSM2 (b_FSMLim b')) (row_source crow) = Some ts \<and> ts < s"
    proof (cases "p = ?d")
      case True
      then have s: "s = ?t" using p(1) by (simp add: f')
      show ?thesis
        by (rule exI[of _ r2], rule exI[of _ lrow], rule exI[of _ t2], rule exI[of _ t1])
          (use True fed neq times s in \<open>simp add: m' f' source\<close>)
    next
      case False
      then have "sm_find (FSM2 (b_FSMLim b)) p = Some s" using p(1) by (simp add: f')
      from in_time_extends[OF t(6) assms(13) _ this p(2)] show ?thesis
        using t(4) unfolding tidy_row_def by blast
    qed
  qed
  moreover have "length (b_MemArray b') = Suc (length (b_MemArray b))"
    using fresh(1) neq(2) fresh(4) by (simp add: b'(4) addNewResultRow_def length_sm_insert sm_find_modify)
  then have "b_zeroAddr b' = 4 * int (length (b_MemArray b') + Suc k)" using t(2) by (simp add: b'(6))
  moreover have "selectionSignalsList (b_FSMLim b') = []" using t(1) by (simp add: b'(5) addNewInstruction_def)
  moreover have "0 \<le> s \<and> {0..s} \<subseteq> ran (sm_find (FSM2 (b_FSMLim b')))" if "s \<in> ran (sm_find (FSM2 (b_FSMLim b')))" for s
    using gapless_insert[OF t(5), of ?t s] that tmax unfolding ran by simp
  moreover have "1 \<in> ran (sm_find (FSM2 (b_FSMLim b')))"
  proof -
    have "1 \<in> {0..max t1 t2} \<or> 1 = ?t" using t0(1) by auto
    then show ?thesis using t0(2) unfolding ran by blast
  qed
  ultimately have "tidy (Suc k) b'" unfolding tidy_def by blast
  moreover have "feeds (b_MemArray b') (b_FSMLim b') (b_operation b) r1 r2 ?d"
    using fed neq t0(1) by (simp add: feeds_def m' f' b'(1) source)
  moreover have "?d \<notin> dom (sm_find (b_lastDestMap b))" using assms(11) fresh(1) by blast
  then have "?d \<in> dom (sm_find (b_MemArray b')) - dom (sm_find (b_lastDestMap b'))"
    unfolding last using neq by (simp add: domIff m')
  moreover have "dom (sm_find (b_MemArray b')) = insert ?d (dom (sm_find (b_MemArray b)))" using row2 by (auto simp: m' split: if_splits)
  ultimately show ?thesis using b'(6,8) by blast
qed

section \<open>Programs\<close>

lemma feeds_grows:
  assumes "feeds m f op x y p" "store_grows m f m' f'" "\<And>p row. sm_find m p = Some row \<Longrightarrow> printable_row m row"
  shows "feeds m' f' op x y p"
proof -
  have ext: "array_extends m m'" and times: "\<And>p t. sm_find (FSM2 f) p = Some t \<Longrightarrow> sm_find (FSM2 f') p = Some t"
    using assms(2) by (simp_all add: store_grows_def)
  obtain crow t where c: "fed_by m p y" "sm_find m y = Some crow" "rowType crow = op" "row_source crow = x"
    "sm_find (FSM2 f) p = Some t" "t \<noteq> 0"
    using assms(1) by (auto simp: feeds_def)
  have "rowType crow \<noteq> ''load''" using c(1,2) by (auto simp: fed_by_def)
  from lim_row_extends[OF ext c(2) assms(3)[OF c(2)] this] show ?thesis
    using fed_by_extends[OF ext c(1)] times[OF c(5)] c(3,4,6) by (auto simp: feeds_def)
qed

text \<open>The rows of the variables: loaded at time 0, or fed by the operation of the rows of the operands.\<close>

definition placed :: "instructionTable \<Rightarrow> ptr set \<Rightarrow> (ptr \<Rightarrow> ptr) \<Rightarrow> lim_binder \<Rightarrow> ptr \<Rightarrow> bool" where
  "placed it D R b v \<longleftrightarrow> (\<exists>d. sm_find (instructionMap it) v = Some d \<and>
     (operation d = ''load'' \<longrightarrow> sm_find (FSM2 (b_FSMLim b)) (R v) = Some 0) \<and>
     (operation d \<noteq> ''load'' \<longrightarrow> sourceReg1 d \<in> D \<and> sourceReg2 d \<in> D \<and>
        feeds (b_MemArray b) (b_FSMLim b) (operation d) (R (sourceReg1 d)) (R (sourceReg2 d)) (R v)))"

lemma placed_grows:
  assumes "placed it D R b v" "store_grows (b_MemArray b) (b_FSMLim b) (b_MemArray b') (b_FSMLim b')" "tidy k b"
    and "w \<notin> D" "v \<noteq> w"
  shows "placed it (insert w D) (R(w := r)) b' v"
proof -
  have rows: "printable_row (b_MemArray b) row" if "sm_find (b_MemArray b) p = Some row" for p row
    using tidyD(4)[OF assms(3) that] by (simp add: tidy_row_def)
  obtain d where d: "sm_find (instructionMap it) v = Some d"
    "operation d = ''load'' \<Longrightarrow> sm_find (FSM2 (b_FSMLim b)) (R v) = Some 0"
    "operation d \<noteq> ''load'' \<Longrightarrow> sourceReg1 d \<in> D \<and> sourceReg2 d \<in> D \<and>
        feeds (b_MemArray b) (b_FSMLim b) (operation d) (R (sourceReg1 d)) (R (sourceReg2 d)) (R v)"
    using assms(1) unfolding placed_def by blast
  show ?thesis
  proof (cases "operation d = ''load''")
    case True
    then have "sm_find (FSM2 (b_FSMLim b')) (R v) = Some 0" using d(2) assms(2) by (simp add: store_grows_def)
    then show ?thesis using d(1) True assms(5) by (simp add: placed_def)
  next
    case False
    then have "sourceReg1 d \<noteq> w" "sourceReg2 d \<noteq> w" using d(3) assms(4) by auto
    moreover have "feeds (b_MemArray b') (b_FSMLim b') (operation d) (R (sourceReg1 d)) (R (sourceReg2 d)) (R v)"
      by (rule feeds_grows[OF _ assms(2)]) (use d(3) False rows in blast)+
    ultimately show ?thesis using d(1,3) False assms(5) by (simp add: placed_def)
  qed
qed

text \<open>Loads are scheduled at time 0, and the operations are bitwise.\<close>

definition printable_entry :: "instructionTable \<Rightarrow> ptr \<Rightarrow> bool" where
  "printable_entry it v \<longleftrightarrow> (\<forall>d. sm_find (instructionMap it) v = Some d \<longrightarrow>
     (if operation d = ''load'' then ti d = 0 else operation d \<in> bitwise_logic))"

definition operations :: "(ptr \<times> string) list \<Rightarrow> instructionTable \<Rightarrow> nat" where
  "operations es it = length (filter (\<lambda>e. case sm_find (instructionMap it) (fst e) of
     Some d \<Rightarrow> operation d \<noteq> ''load'' | None \<Rightarrow> False) es)"

definition hardware_state ::
  "collectInfo \<Rightarrow> instructionTable \<Rightarrow> ptr set \<Rightarrow> ptr set \<Rightarrow> (ptr \<Rightarrow> ptr) \<Rightarrow> nat \<Rightarrow> lim_binder \<Rightarrow> bool" where
  "hardware_state info it D U R k b \<longleftrightarrow> scalar_state info it D U R b \<and> tidy k b \<and> (\<forall>v \<in> D. placed it D R b v) \<and>
     dom (sm_find (b_MemArray b)) = R ` D \<and>
     (D \<noteq> {} \<longrightarrow> dom (sm_find (b_MemArray b)) - dom (sm_find (b_lastDestMap b)) \<noteq> {} \<and>
        (\<exists>p \<in> dom (sm_find (b_MemArray b)). b_zeroAddr b \<le> p + 8))"

lemma operations_Cons:
  assumes "sm_find (instructionMap it) (fst e) = Some d"
  shows "operations (e # es) it = (if operation d = ''load'' then 0 else 1) + operations es it"
  using assms by (simp add: operations_def)

lemma same_update:
  assumes "sm_find (b_arrayNamesMap b') v = Some [(R(v := r)) v]"
    and "b_arrayNamesMap b' = b_arrayNamesMap (addNewItem v d b)" "sm_find (b_arrayNamesMap b) v = None"
    and "sm_inv (b_arrayNamesMap b)"
  shows "r = d"
  using assms by (simp add: addNewItem_find)

lemma placed_all_insert:
  assumes "\<forall>w \<in> D. placed it D R b w" "store_grows (b_MemArray b) (b_FSMLim b) (b_MemArray b') (b_FSMLim b')" "tidy k b"
    and "v \<notin> D" "placed it (insert v D) (R(v := r)) b' v"
  shows "\<forall>w \<in> insert v D. placed it (insert v D) (R(v := r)) b' w"
proof
  fix w assume "w \<in> insert v D"
  then consider "w = v" | "w \<in> D" "w \<noteq> v" using assms(4) by blast
  then show "placed it (insert v D) (R(v := r)) b' w"
  proof cases
    case 2
    then show ?thesis using placed_grows[OF _ assms(2-4)] assms(1) by blast
  qed (use assms(5) in simp)
qed

definition last_is_operation :: "instructionTable \<Rightarrow> (ptr \<times> string) list \<Rightarrow> bool" where
  "last_is_operation it es \<longleftrightarrow> es \<noteq> [] \<and>
     (\<exists>d. sm_find (instructionMap it) (fst (last es)) = Some d \<and> operation d \<noteq> ''load'')"

text \<open>After an operation the last two names are no names of rows: one of them is never used.\<close>

lemma hardware_step:
  assumes "hardware_state info it D U R k b" "straight_line info it D U (e # es)" "printable_entry it (fst e)"
  shows "\<exists>b' R' U' k'. bind_instruction e b = Inr b' \<and> hardware_state info it (insert (fst e) D) U' R' k' b' \<and>
    straight_line info it (insert (fst e) D) U' es \<and> k' + operations es it = k + operations (e # es) it \<and>
    (last_is_operation it [e] \<longrightarrow> (\<forall>p \<in> dom (sm_find (b_MemArray b')). p + 8 \<le> b_zeroAddr b'))"
proof -
  have h: "scalar_state info it D U R b" "tidy k b" "\<forall>v \<in> D. placed it D R b v" "dom (sm_find (b_MemArray b)) = R ` D"
    using assms(1) unfolding hardware_state_def by blast+
  obtain d where d: "sm_find (instructionMap it) (fst e) = Some d" "fst e \<notin> D"
    "if operation d = ''load'' then \<not> isArray info (fst e) \<and> straight_line info it (insert (fst e) D) U es
     else scalar_operation d \<and> sourceReg1 d \<in> D \<and> sourceReg2 d \<in> D - U \<and> sourceReg1 d \<noteq> sourceReg2 d \<and>
       straight_line info it (insert (fst e) D) ({sourceReg1 d, sourceReg2 d} \<union> U) es"
    using assms(2) by (auto split: option.splits)
  let ?v = "fst e" and ?b = "b\<lparr>b_instr := d\<lparr>destinationReg := fst e\<rparr>\<rparr>"
  have inv: "binder_inv b" and it: "b_IM b = it" and names: "\<And>w. sm_find (b_arrayNamesMap b) w = (if w \<in> D then Some [R w] else None)"
    and info: "b_InfoCollection b = info" and inj: "inj_on R D" and last: "dom (sm_find (b_lastDestMap b)) \<subseteq> R ` U" and sub: "U \<subseteq> D"
    using h(1) by (simp_all add: scalar_state_def)
  have invb: "binder_inv ?b" by (rule binder_inv_cong[OF inv]) (use inv in \<open>simp_all add: binder_inv_def\<close>)
  have st: "scalar_state info it D U R ?b" using h(1) invb by (simp add: scalar_state_def)
  have tidyb: "tidy k ?b" using h(2) by (simp add: tidy_def tidy_row_def)
  have sm: "sm_inv (b_arrayNamesMap b)" using binder_invD(3)[OF inv] .
  have none: "sm_find (b_arrayNamesMap b) ?v = None" using names d(2) by simp
  have entry: "if operation d = ''load'' then ti d = 0 else operation d \<in> bitwise_logic"
    using assms(3) d(1) by (simp add: printable_entry_def)
  have image: "insert r (R ` D) = (R(?v := r)) ` insert ?v D" for r
    using d(2) by (auto intro: image_eqI)
  show ?thesis
  proof (cases "operation d = ''load''")
    case True
    have nA: "\<not> isArray info ?v" and rest: "straight_line info it (insert ?v D) U es"
      using d(3) True by simp_all
    obtain b' r where b': "handleLoadOperationBindingProcess ?b = Inr b'" "scalar_state info it (insert ?v D) U (R(?v := r)) b'"
      "store_grows (b_MemArray b) (b_FSMLim b) (b_MemArray b') (b_FSMLim b')"
      using scalar_load_step[OF st d(2) nA] by auto
    have "tidy k b' \<and> sm_find (FSM2 (b_FSMLim b')) (b_zeroAddr b) = Some 0 \<and>
        b_arrayNamesMap b' = b_arrayNamesMap (addNewItem ?v (b_zeroAddr b) ?b) \<and> b_lastDestMap b' = b_lastDestMap b \<and>
        dom (sm_find (b_MemArray b')) = insert (b_zeroAddr b) (dom (sm_find (b_MemArray b))) \<and> b_zeroAddr b' = b_zeroAddr b + 4"
      using tidy_load[OF invb tidyb _ _ b'(1)] nA info entry True b'(3) by simp
    then have t: "tidy k b'" "sm_find (FSM2 (b_FSMLim b')) (b_zeroAddr b) = Some 0"
      "b_arrayNamesMap b' = b_arrayNamesMap (addNewItem ?v (b_zeroAddr b) b)" "b_lastDestMap b' = b_lastDestMap b"
      "dom (sm_find (b_MemArray b')) = insert (b_zeroAddr b) (dom (sm_find (b_MemArray b)))" "b_zeroAddr b' \<le> b_zeroAddr b + 8"
      by (simp_all add: addNewItem_def)
    have top: "\<exists>p \<in> dom (sm_find (b_MemArray b')). b_zeroAddr b' \<le> p + 8" using t(5,6) by blast
    have "sm_find (b_arrayNamesMap b') ?v = Some [(R(?v := r)) ?v]" using b'(2) by (simp add: scalar_state_def)
    from same_update[OF this t(3) none sm] have r: "r = b_zeroAddr b" .
    have "placed it (insert ?v D) (R(?v := r)) b' ?v" using d(1) True t(2) r by (simp add: placed_def)
    from placed_all_insert[OF h(3) b'(3) h(2) d(2) this]
    have all: "\<forall>w \<in> insert ?v D. placed it (insert ?v D) (R(?v := r)) b' w" .
    have "b_zeroAddr b \<notin> dom (sm_find (b_MemArray b))" using fresh_name(1)[OF inv] by (simp add: domIff)
    then have "b_zeroAddr b \<in> dom (sm_find (b_MemArray b')) - dom (sm_find (b_lastDestMap b'))"
      using last sub h(4) unfolding t(4,5) by blast
    moreover have "dom (sm_find (b_MemArray b')) = (R(?v := r)) ` insert ?v D" unfolding t(5) h(4) r by (rule image)
    ultimately have "hardware_state info it (insert ?v D) U (R(?v := r)) k b'"
      using b'(2) t(1) all top unfolding hardware_state_def by blast
    moreover have "bind_instruction e b = Inr b'"
      using b'(1) True d(1) it by (simp add: bind_instruction_def Let_def)
    moreover have "k + operations es it = k + operations (e # es) it" using operations_Cons[OF d(1)] True by simp
    moreover have "\<not> last_is_operation it [e]" using d(1) True by (simp add: last_is_operation_def)
    ultimately show ?thesis using rest by blast
  next
    case False
    then have op: "scalar_operation d" "sourceReg1 d \<in> D" "sourceReg2 d \<in> D - U" "sourceReg1 d \<noteq> sourceReg2 d"
      and rest: "straight_line info it (insert ?v D) ({sourceReg1 d, sourceReg2 d} \<union> U) es"
      using d(3) by simp_all
    let ?r1 = "R (sourceReg1 d)" and ?r2 = "R (sourceReg2 d)"
    obtain b' r where b': "handleFPOperationBindingProcess ?b = Inr b'"
      "scalar_state info it (insert ?v D) ({sourceReg1 d, sourceReg2 d} \<union> U) (R(?v := r)) b'"
      "store_grows (b_MemArray b) (b_FSMLim b) (b_MemArray b') (b_FSMLim b')"
      using scalar_operation_step[OF st d(2) _ d(1) op] by auto
    have unused: "?r2 \<notin> dom (sm_find (b_lastDestMap b))"
    proof
      assume "?r2 \<in> dom (sm_find (b_lastDestMap b))"
      then obtain u where u: "u \<in> U" "?r2 = R u" using last by blast
      then have "sourceReg2 d = u" using inj_onD[OF inj u(2)] op(3) sub by blast
      then show False using u(1) op(3) by blast
    qed
    have "tidy (Suc k) b' \<and> feeds (b_MemArray b') (b_FSMLim b') (operation d) ?r1 ?r2 (b_zeroAddr b) \<and>
        b_arrayNamesMap b' = b_arrayNamesMap (addNewItem ?v (b_zeroAddr b) ?b) \<and>
        b_zeroAddr b \<in> dom (sm_find (b_MemArray b')) - dom (sm_find (b_lastDestMap b')) \<and>
        dom (sm_find (b_MemArray b')) = insert (b_zeroAddr b) (dom (sm_find (b_MemArray b))) \<and> b_zeroAddr b' = b_zeroAddr b + 8"
      using tidy_operation[OF invb tidyb, of ?r1 ?r2 b'] entry False op names h(4) unused last sub b'(1,3)
      by (simp add: scalar_operation_def) blast
    then have t: "tidy (Suc k) b'" "feeds (b_MemArray b') (b_FSMLim b') (operation d) ?r1 ?r2 (b_zeroAddr b)"
      "b_arrayNamesMap b' = b_arrayNamesMap (addNewItem ?v (b_zeroAddr b) b)"
      "b_zeroAddr b \<in> dom (sm_find (b_MemArray b')) - dom (sm_find (b_lastDestMap b'))"
      "dom (sm_find (b_MemArray b')) = insert (b_zeroAddr b) (dom (sm_find (b_MemArray b)))" "b_zeroAddr b' \<le> b_zeroAddr b + 8"
      and zero': "b_zeroAddr b' = b_zeroAddr b + 8"
      by (simp_all add: addNewItem_def)
    have top: "\<exists>p \<in> dom (sm_find (b_MemArray b')). b_zeroAddr b' \<le> p + 8" using t(5,6) by blast
    have "sm_find (b_arrayNamesMap b') ?v = Some [(R(?v := r)) ?v]" using b'(2) by (simp add: scalar_state_def)
    from same_update[OF this t(3) none sm] have r: "r = b_zeroAddr b" .
    have "sourceReg1 d \<noteq> ?v" "sourceReg2 d \<noteq> ?v" using op d(2) by auto
    then have "placed it (insert ?v D) (R(?v := r)) b' ?v" using d(1) False t(2) r op by (simp add: placed_def)
    from placed_all_insert[OF h(3) b'(3) h(2) d(2) this]
    have all: "\<forall>w \<in> insert ?v D. placed it (insert ?v D) (R(?v := r)) b' w" .
    have "dom (sm_find (b_MemArray b')) = (R(?v := r)) ` insert ?v D" unfolding t(5) h(4) r by (rule image)
    then have "hardware_state info it (insert ?v D) ({sourceReg1 d, sourceReg2 d} \<union> U) (R(?v := r)) (Suc k) b'"
      using b'(2) t(1,4) all top unfolding hardware_state_def by blast
    moreover have "bind_instruction e b = Inr b'"
      using b'(1) False d(1) it op(1) by (simp add: bind_instruction_def scalar_operation_def Let_def)
    moreover have "Suc k + operations es it = k + operations (e # es) it" using operations_Cons[OF d(1)] False by simp
    moreover have "p + 8 \<le> b_zeroAddr b'" if "p \<in> dom (sm_find (b_MemArray b'))" for p
    proof (cases "p = b_zeroAddr b")
      case False
      then have "p \<in> dom (sm_find (b_MemArray b))" using that t(5) by blast
      then have "row_name (b_zeroAddr b) p" using binder_invD(7)[OF inv] unfolding rows.names_below_def by blast
      then show ?thesis by (simp add: zero' row_name_def)
    qed (simp add: zero')
    ultimately show ?thesis using rest by blast
  qed
qed

lemma hardware_runs:
  "hardware_state info it D U R k b \<Longrightarrow> straight_line info it D U es \<Longrightarrow> \<forall>e \<in> set es. printable_entry it (fst e) \<Longrightarrow>
   \<exists>b' R' U'. bind_instructions es b = Inr b' \<and> hardware_state info it (D \<union> fst ` set es) U' R' (k + operations es it) b' \<and>
     (last_is_operation it es \<longrightarrow> (\<forall>p \<in> dom (sm_find (b_MemArray b')). p + 8 \<le> b_zeroAddr b'))"
proof (induction es arbitrary: D U R k b)
  case Nil
  then show ?case by (auto simp: bind_instructions_def operations_def last_is_operation_def)
next
  case (Cons e es)
  obtain b1 R1 U1 k1 where s: "bind_instruction e b = Inr b1" "hardware_state info it (insert (fst e) D) U1 R1 k1 b1"
    "straight_line info it (insert (fst e) D) U1 es" "k1 + operations es it = k + operations (e # es) it"
    "last_is_operation it [e] \<longrightarrow> (\<forall>p \<in> dom (sm_find (b_MemArray b1)). p + 8 \<le> b_zeroAddr b1)"
    using hardware_step[OF Cons.prems(1,2)] Cons.prems(3) by auto
  from Cons.IH[OF s(2,3)] Cons.prems(3) obtain b' R' U' where b': "bind_instructions es b1 = Inr b'"
    "hardware_state info it (insert (fst e) D \<union> fst ` set es) U' R' (k1 + operations es it) b'"
    "last_is_operation it es \<longrightarrow> (\<forall>p \<in> dom (sm_find (b_MemArray b')). p + 8 \<le> b_zeroAddr b')" by auto
  have "bind_instructions (e # es) b = Inr b'" using s(1) b'(1) by (simp add: bind_instructions_def)
  moreover have "last_is_operation it (e # es) \<longrightarrow> (\<forall>p \<in> dom (sm_find (b_MemArray b')). p + 8 \<le> b_zeroAddr b')"
  proof (cases "es = []")
    case True
    then have "b' = b1" using b'(1) by (simp add: bind_instructions_def)
    then show ?thesis using s(5) True by simp
  qed (use b'(3) in \<open>simp add: last_is_operation_def\<close>)
  ultimately show ?case using b'(2) unfolding s(4) by auto
qed

lemma hardware_start: "hardware_state info it {} {} R 0 (binder_start raw it info par target)"
  using binder_inv_start[of raw it info par target]
  by (simp add: hardware_state_def scalar_state_def tidy_def in_time_def binder_start_def nullptr_def empty_fsm_def ran_def
      fun_eq_iff)

section \<open>The array can be printed\<close>

lemma gapless_interval:
  assumes "finite A" "\<And>t. t \<in> A \<Longrightarrow> 0 \<le> t \<and> {0..t} \<subseteq> (A :: int set)"
  shows "A = {0..<int (card A)}"
proof (cases "A = {}")
  case False
  have m: "Max A \<in> A" using assms(1) False by simp
  have "A = {0..Max A}"
  proof
    show "A \<subseteq> {0..Max A}" using assms Max_ge[OF assms(1)] by auto
    show "{0..Max A} \<subseteq> A" using assms(2)[OF m] by simp
  qed
  moreover have "int (card {0..Max A}) = Max A + 1" using assms(2)[OF m] by simp
  ultimately have "A = {0..Max A}" "int (card A) = Max A + 1" by simp_all
  moreover have "{0..Max A} = {0..<Max A + 1}" by auto
  ultimately show ?thesis by simp
qed simp

lemma finite_dom_sm: "sm_inv m \<Longrightarrow> finite (dom (sm_find m))"
  using sm.dom_lookup[of m] by simp

lemma transformed:
  assumes "binder_inv b" "tidy k b" "k \<noteq> 0"
  shows "sm_inv (FSM (transform (b_FSMLim b)))" "fst ` set (FSM (transform (b_FSMLim b))) = {0..<getFSMSize (transform (b_FSMLim b))}"
    "2 \<le> getFSMSize (transform (b_FSMLim b))" "FSM2 (transform (b_FSMLim b)) = FSM2 (b_FSMLim b)"
    "(sm_find (FSM2 (b_FSMLim b)) p = Some t) = (\<exists>rows. sm_find (FSM (transform (b_FSMLim b))) t = Some rows \<and> p \<in> set rows)"
    "sm_find (FSM (transform (b_FSMLim b))) t = Some rows \<Longrightarrow> rows \<noteq> []"
proof -
  let ?f = "b_FSMLim b"
  have f: "fsm_inv ?f" "FSM ?f = []" using store_ok_fsm(1)[OF binder_invD(1)[OF assms(1)]] assms(1)
    by (simp_all add: binder_inv_def store_ok_def)
  have inv2: "sm_inv (FSM2 ?f)" using f(1) by (simp add: fsm_inv_def)
  have mem: "(p, t) \<in> set (FSM2 ?f) \<longleftrightarrow> sm_find (FSM2 ?f) p = Some t" for p t using sm.entries_iff[OF inv2] .
  have keys: "snd ` set (FSM2 ?f) = ran (sm_find (FSM2 ?f))" using mem by (force simp: ran_def)
  note F = transform_FSM[OF f]
  show inv: "sm_inv (FSM (transform ?f))" using fsm_inv_transform[OF f(1)] by (simp add: fsm_inv_def)
  show "FSM2 (transform ?f) = FSM2 ?f" by (simp add: transform_def)
  have dom: "dom (sm_find (FSM (transform ?f))) = ran (sm_find (FSM2 ?f))" unfolding F keys by (auto split: if_splits)
  have size: "getFSMSize (transform ?f) = int (card (ran (sm_find (FSM2 ?f))))"
    using sm_length_dom[OF inv] dom by (simp add: getFSMSize_def)
  have "finite (ran (sm_find (FSM2 ?f)))" unfolding keys[symmetric] by simp
  from gapless_interval[OF this tidyD(5)[OF assms(2)]]
  have interval: "ran (sm_find (FSM2 ?f)) = {0..<getFSMSize (transform ?f)}" unfolding size .
  show "fst ` set (FSM (transform ?f)) = {0..<getFSMSize (transform ?f)}"
    using sm.dom_lookup[OF inv] dom interval by simp
  have "1 \<in> {0..<getFSMSize (transform ?f)}" using tidyD(3)[OF assms(2,3)] unfolding interval .
  then show "2 \<le> getFSMSize (transform ?f)" by simp
  show "(sm_find (FSM2 ?f) p = Some t) = (\<exists>rows. sm_find (FSM (transform ?f)) t = Some rows \<and> p \<in> set rows)"
    unfolding F mem[symmetric] by (force simp: image_iff split: if_splits)
  show "rows \<noteq> []" if "sm_find (FSM (transform ?f)) t = Some rows"
    using that unfolding F by (fastforce simp: filter_empty_conv split: if_splits)
qed

lemma hardware_printable:
  assumes "hardware_state info it D U R k b" "D \<noteq> {}" "k \<noteq> 0" "b_zeroAddr b \<le> 2 ^ 31"
  shows "printable (b_MemArray b) (transform (b_FSMLim b)) \<and> ordered (b_MemArray b) (transform (b_FSMLim b)) \<and>
    without_sums (b_MemArray b)"
proof -
  let ?m = "b_MemArray b" and ?f = "transform (b_FSMLim b)"
  have h: "binder_inv b" "tidy k b" "dom (sm_find ?m) - dom (sm_find (b_lastDestMap b)) \<noteq> {}"
    using assms(1,2) unfolding hardware_state_def scalar_state_def by blast+
  note i = binder_invD[OF h(1)] and t = tidyD[OF h(2)] and f = transformed[OF h(1,2) assms(3)]
  have inv: "sm_inv ?m" using i(8) by blast
  have name: "row_name (b_zeroAddr b) p" if "p \<in> dom (sm_find ?m)" for p
    using i(7) that unfolding rows.names_below_def by blast
  have rows: "0 \<le> p \<and> p < 2 ^ 31 \<and> 4 dvd p \<and> printable_row ?m row" if "(p, row) \<in> set ?m" for p row
  proof -
    have find: "sm_find ?m p = Some row" using that sm.entries_iff[OF inv] by simp
    then have "row_name (b_zeroAddr b) p" using name by blast
    then show ?thesis using t(4)[OF find] assms(4) by (simp add: row_name_def tidy_row_def)
  qed
  obtain p row where p: "sm_find ?m p = Some row" "p \<notin> dom (sm_find (b_lastDestMap b))" using h(3) by blast
  have "is_result_row ?m (p, row)"
  proof -
    have "p \<notin> set (inputConnections other)" if "(q, other) \<in> set ?m" for q other
    proof -
      have "sm_find ?m q = Some other" using that sm.entries_iff[OF inv] by simp
      from t(4)[OF this] have "set (inputConnections other) \<subseteq> {no_input} \<union> dom (sm_find (b_lastDestMap b))"
        by (simp add: tidy_row_def)
      moreover have "row_name (b_zeroAddr b) p" using name p(1) by blast
      then have "p \<noteq> no_input" using no_input_is_no_name by metis
      ultimately show ?thesis using p(2) by blast
    qed
    moreover have "rowType row = ''load''" using t(4)[OF p(1)] p(2) by (simp add: tidy_row_def)
    ultimately show ?thesis by (auto simp: is_result_row_def list_all_iff)
  qed
  moreover have "(p, row) \<in> set ?m" using p(1) sm.entries_iff[OF inv] by simp
  ultimately have result: "resultRowList ?m \<noteq> []" by (force simp: resultRowList_def filter_empty_conv)
  have dom: "dom (sm_find (FSM2 ?f)) = dom (sm_find ?m)" unfolding f(4) by (rule i(9))
  have late: "\<exists>c crow tc ts. fed_by ?m p c \<and> sm_find ?m c = Some crow \<and> sm_find (FSM2 ?f) c = Some tc \<and> tc < t \<and>
        sm_find (FSM2 ?f) (row_source crow) = Some ts \<and> ts < t"
    if "sm_find (FSM2 ?f) p = Some t" "t \<noteq> 0" for p t
    using t(6) that unfolding f(4) in_time_def by blast
  have times: "rows \<noteq> [] \<and> set rows \<subseteq> dom (sm_find ?m) \<and> (t \<noteq> 0 \<longrightarrow> (\<forall>p \<in> set rows. \<exists>c. fed_by ?m p c))"
    if "(t, rows) \<in> set (FSM ?f)" for t rows
  proof -
    have find: "sm_find (FSM ?f) t = Some rows" using that sm.entries_iff[OF f(1)] by simp
    have time: "sm_find (FSM2 ?f) p = Some t" if "p \<in> set rows" for p
      unfolding f(4,5) using find that by blast
    then have "set rows \<subseteq> dom (sm_find ?m)" unfolding dom[symmetric] by blast
    moreover have "\<exists>c. fed_by ?m p c" if "t \<noteq> 0" "p \<in> set rows" for p using late[OF time[OF that(2)] that(1)] by blast
    ultimately show ?thesis using f(6)[OF find] by blast
  qed
  have "selectionSignalsList ?f = []" using t(1) by (simp add: transform_def)
  moreover have "int (length ?m) < 2 ^ 31" using t(2) assms(3,4) by simp
  moreover have "\<forall>(p, row) \<in> set ?m. 0 \<le> p \<and> p < 2 ^ 31 \<and> 4 dvd p \<and> printable_row ?m row" using rows by blast
  moreover have "\<forall>(t, rows) \<in> set (FSM ?f). rows \<noteq> [] \<and> set rows \<subseteq> dom (sm_find ?m) \<and>
      (t \<noteq> 0 \<longrightarrow> (\<forall>p \<in> set rows. \<exists>c. fed_by ?m p c))" using times by blast
  ultimately have "printable ?m ?f"
    unfolding printable_def using inv f(1-3) result by (intro conjI)
  moreover have "ordered ?m ?f"
    unfolding ordered_def
  proof (intro conjI allI impI)
    show "dom (sm_find (FSM2 ?f)) = dom (sm_find ?m)" by (rule dom)
    show "(sm_find (FSM2 ?f) p = Some t) = (\<exists>rows. sm_find (FSM ?f) t = Some rows \<and> p \<in> set rows)" for p t
      unfolding f(4) by (rule f(5))
    show "\<exists>tc ts. sm_find (FSM2 ?f) c = Some tc \<and> tc < t \<and> sm_find (FSM2 ?f) (row_source crow) = Some ts \<and> ts < t"
      if c: "sm_find (FSM2 ?f) p = Some t \<and> t \<noteq> 0 \<and> fed_by ?m p c \<and> sm_find ?m c = Some crow" for p c crow t
    proof -
      obtain c' crow' tc ts where o: "fed_by ?m p c'" "sm_find ?m c' = Some crow'" "sm_find (FSM2 ?f) c' = Some tc" "tc < t"
        "sm_find (FSM2 ?f) (row_source crow') = Some ts" "ts < t" using late[of p t] c by blast
      have "c' = c" using fed_by_unique o(1) c by blast
      then have "crow' = crow" using o(2) c by simp
      then show ?thesis using o(3-6) \<open>c' = c\<close> by blast
    qed
  qed
  moreover have "without_sums ?m"
    using t(4) sm.entries_iff[OF inv] by (fastforce simp: without_sums_def list_all_iff tidy_row_def)
  ultimately show ?thesis by blast
qed

section \<open>The values\<close>

lemma feeds_value:
  assumes "solves m f start val" "feeds m f op x y p"
  shows "gate op (val y) (val x) = Some (val p)"
proof -
  obtain crow t where c: "fed_by m p y" "sm_find m y = Some crow" "rowType crow = op" "row_source crow = x"
    "sm_find (FSM2 f) p = Some t" "t \<noteq> 0"
    using assms(2) by (auto simp: feeds_def)
  from solvesD(2)[OF assms(1) c(5,6,1,2)] show ?thesis by (simp add: row_value_def c(3,4))
qed

text \<open>
  Values of the variables: those of the loaded variables are what is in the memory, and the operations
  hold. The hardware applies an operator to the content of the row of the second operand first.
\<close>

definition table_values ::
  "instructionTable \<Rightarrow> ptr set \<Rightarrow> (ptr \<Rightarrow> byte) \<Rightarrow> (ptr \<Rightarrow> byte) \<Rightarrow> bool" where
  "table_values it V start val \<longleftrightarrow> (\<forall>v \<in> V. \<forall>d. sm_find (instructionMap it) v = Some d \<longrightarrow>
     (operation d = ''load'' \<longrightarrow> val v = start v) \<and>
     (operation d \<noteq> ''load'' \<longrightarrow> gate (operation d) (val (sourceReg2 d)) (val (sourceReg1 d)) = Some (val v)))"

lemma placed_values:
  assumes "\<forall>v \<in> D. placed it D R b v" "solves (b_MemArray b) f start val" "FSM2 f = FSM2 (b_FSMLim b)"
  shows "table_values it D (\<lambda>v. start ! cell (R v)) (\<lambda>v. val (R v))"
  unfolding table_values_def
proof (intro ballI allI impI conjI)
  fix v d assume v: "v \<in> D" "sm_find (instructionMap it) v = Some d"
  have p: "operation d = ''load'' \<longrightarrow> sm_find (FSM2 (b_FSMLim b)) (R v) = Some 0"
    "operation d \<noteq> ''load'' \<longrightarrow> feeds (b_MemArray b) (b_FSMLim b) (operation d) (R (sourceReg1 d)) (R (sourceReg2 d)) (R v)"
    using assms(1) v by (auto simp: placed_def)
  show "val (R v) = start ! cell (R v)" if "operation d = ''load''"
    using solvesD(1)[OF assms(2), of "R v" 0] p(1) that assms(3) by simp
  show "gate (operation d) (val (R (sourceReg2 d))) (val (R (sourceReg1 d))) = Some (val (R v))"
    if "operation d \<noteq> ''load''"
    by (rule feeds_value[OF assms(2)]) (use p(2) that assms(3) in \<open>simp add: feeds_def\<close>)
qed

text \<open>What the binder and the printer make of a table, and the hardware that results.\<close>

lemma straight_line_hardware:
  assumes "straight_line info it {} {} (instructionOrderVector it)" "\<forall>e \<in> set (instructionOrderVector it). printable_entry it (fst e)"
    and "0 < operations (instructionOrderVector it) it"
    and "4 * int (length (instructionOrderVector it) + operations (instructionOrderVector it) it) \<le> 2 ^ 31"
    and "distinct (map fst (instructionOrderVector it))"
  obtains b out R vhdl where
    "bind_instructions (instructionOrderVector it) (binder_start raw it info par target) = Inr b"
    "LiMBinder raw it info par target = Inr out" "out_binder out = b\<lparr>b_FSMLim := transform (b_FSMLim b)\<rparr>"
    "printVhdl (b_MemArray (out_binder out)) (b_FSMLim (out_binder out)) = Inr vhdl"
    "compInst (v_arch vhdl) = array_items (b_MemArray b) (transform (b_FSMLim b))"
    "printable (b_MemArray b) (transform (b_FSMLim b))" "ordered (b_MemArray b) (transform (b_FSMLim b))"
    "without_sums (b_MemArray b)"
    "\<forall>v \<in> fst ` set (instructionOrderVector it). placed it (fst ` set (instructionOrderVector it)) R b v \<and>
       names_of (out_binder out) v = [R v]"
    "dom (sm_find (b_MemArray b)) = R ` fst ` set (instructionOrderVector it)"
    "inj_on R (fst ` set (instructionOrderVector it))"
    "length (b_MemArray b) = length (instructionOrderVector it)"
    "b_zeroAddr b = 4 * int (length (instructionOrderVector it) + operations (instructionOrderVector it) it)"
    "\<forall>p \<in> dom (sm_find (b_MemArray b)). row_name (b_zeroAddr b) p"
    "\<exists>p \<in> dom (sm_find (b_MemArray b)). b_zeroAddr b \<le> p + 8"
    "last_is_operation it (instructionOrderVector it) \<longrightarrow> (\<forall>p \<in> dom (sm_find (b_MemArray b)). p + 8 \<le> b_zeroAddr b)"
proof -
  let ?es = "instructionOrderVector it" and ?V = "fst ` set (instructionOrderVector it)"
  obtain b R U where b: "bind_instructions ?es (binder_start raw it info par target) = Inr b"
    "hardware_state info it ?V U R (operations ?es it) b"
    "last_is_operation it ?es \<longrightarrow> (\<forall>p \<in> dom (sm_find (b_MemArray b)). p + 8 \<le> b_zeroAddr b)"
    using hardware_runs[OF hardware_start[where R = "\<lambda>_. 0" and raw = raw and par = par and target = target] assms(1,2)]
    by auto
  have ne: "?V \<noteq> {}" using assms(3) by (auto simp: operations_def)
  have h: "scalar_state info it ?V U R b" "tidy (operations ?es it) b" "\<forall>v \<in> ?V. placed it ?V R b v"
    "dom (sm_find (b_MemArray b)) = R ` ?V" "\<exists>p \<in> dom (sm_find (b_MemArray b)). b_zeroAddr b \<le> p + 8"
    using b(2) ne unfolding hardware_state_def by blast+
  have inv: "binder_inv b" and inj: "inj_on R ?V"
    and names: "\<And>v. sm_find (b_arrayNamesMap b) v = (if v \<in> ?V then Some [R v] else None)"
    using h(1) by (simp_all add: scalar_state_def)
  have "sm_inv (b_MemArray b)" using binder_invD(8)[OF inv] by blast
  then have "length (b_MemArray b) = card (R ` ?V)" using sm_length_dom h(4) by metis
  also have "\<dots> = card ?V" using inj by (rule card_image)
  also have "\<dots> = length ?es" using distinct_card[OF assms(5)] by simp
  finally have len: "length (b_MemArray b) = length ?es" .
  have zero: "b_zeroAddr b = 4 * int (length ?es + operations ?es it)" using tidyD(2)[OF h(2)] len by simp
  have k: "operations ?es it \<noteq> 0" using assms(3) by simp
  have pr: "printable (b_MemArray b) (transform (b_FSMLim b))" "ordered (b_MemArray b) (transform (b_FSMLim b))"
    "without_sums (b_MemArray b)"
    using hardware_printable[OF b(2) ne k] zero assms(4) by simp_all
  obtain vhdl where vhdl: "printVhdl (b_MemArray b) (transform (b_FSMLim b)) = Inr vhdl"
    "compInst (v_arch vhdl) = array_items (b_MemArray b) (transform (b_FSMLim b))"
  proof (rule printVhdl_printable[OF pr(1)])
    fix vhdl assume "printVhdl (b_MemArray b) (transform (b_FSMLim b)) = Inr vhdl"
      "compInst (v_arch vhdl) = array_items (b_MemArray b) (transform (b_FSMLim b))"
    then show thesis by (rule that)
  qed
  from ne obtain v where "v \<in> ?V" unfolding ex_in_conv[symmetric] by (elim exE)
  then obtain active total where "printFSMToFile (transform (b_FSMLim b)) = Inr (active, total)"
    using printFSM_succeeds[OF h(1)] by blast
  then obtain out where out: "LiMBinder raw it info par target = Inr out" "out_binder out = b\<lparr>b_FSMLim := transform (b_FSMLim b)\<rparr>"
    using b(1) by (simp add: LiMBinder_def Let_def)
  have "row_name (b_zeroAddr b) p" if "p \<in> dom (sm_find (b_MemArray b))" for p
    using binder_invD(7)[OF inv] that unfolding rows.names_below_def by blast
  moreover have "names_of (out_binder out) v = [R v]" if "v \<in> ?V" for v
    using names that by (simp add: names_of_def out(2))
  ultimately show thesis
    using that[OF b(1) out _ _ pr _ h(4) inj len zero _ h(5) b(3)] vhdl h(3) by (simp add: out(2))
qed

end
