(* ===== verification/Dependency_Detector.thy ===== *)
theory Dependency_Detector
  imports Instruction_Table Collect_Info LLVM_IR
begin

text \<open>
  \<open>Analysis/DependencyDetector\<close>: it walks over the instructions of the basic blocks the analysis
  has found to be useful and builds the instruction table. Between a load and the store that
  follows it, the operands and the operation are collected in member variables. For each variable
  the table \<open>lastUsedRegMap\<close> has the register that holds its current value.
\<close>

section \<open>State\<close>

text \<open>
  The members of the class that are read, and the local \<open>isNegated\<close> of \<open>detectDependencies\<close>.
  \<open>tmpAccumulationOp\<close>, \<open>tmpLogicOperatorDestReg\<close> and \<open>tmpSrcReg2\<close> are not initialised.
\<close>

record detector =
  d_IM :: instructionTable
  d_lastUsedRegMap :: "(ptr, ptr) smap"
  d_info :: collectInfo
  tmpAccumulationOp :: ptr
  accumulationValidityCount :: int
  tmpLogicOperatorDestReg :: ptr
  d_srcReg1 :: ptr
  d_srcReg2 :: ptr
  tmpSrcReg2 :: ptr
  d_destReg :: ptr
  isSrc1Array :: bool
  isSrc2Array :: bool
  d_srcReg1Type :: operandType
  d_srcReg2Type :: operandType
  d_destRegType :: operandType
  tmpPtrSrc1 :: ptr
  tmpPtrSrc2 :: ptr
  tmpPtrDest :: ptr
  loadCount :: int
  d_operation :: string
  isNegated :: bool

section \<open>Insertion of an instruction\<close>

definition operand_type_of :: "bool \<Rightarrow> operandType" where
  "operand_type_of is_array = (if is_array then arrayOperand else singleVariable)"

definition setRegType :: "bool \<Rightarrow> ptr \<Rightarrow> string \<Rightarrow> detector \<Rightarrow> detector" where
  "setRegType is_array reg operandType d =
     (if operandType = ''destRegType''
      then d\<lparr>d_IM := modifyGivenField reg operandType nullptr (operand_type_of is_array) (d_IM d)\<rparr>
      else if operandType = ''srcReg1Type'' then d\<lparr>d_srcReg1Type := operand_type_of is_array\<rparr>
      else d\<lparr>d_srcReg2Type := operand_type_of is_array\<rparr>)"

definition getRealSrcReg :: "ptr \<Rightarrow> detector \<Rightarrow> ptr" where
  "getRealSrcReg allocatedReg d =
     (case sm_find (d_lastUsedRegMap d) allocatedReg of Some r \<Rightarrow> r | None \<Rightarrow> allocatedReg)"

text \<open>An operand that is the result of the instruction before takes the free source register.\<close>

definition multi_operand :: "ptr \<Rightarrow> detector \<Rightarrow> detector" where
  "multi_operand x d =
     (if d_srcReg1 d = nullptr then
        setRegType (isSrc2Array d) (d_srcReg2 d) ''srcReg2Type''
          (d\<lparr>d_srcReg1 := x, d_srcReg1Type := d_destRegType d, tmpPtrSrc1 := tmpPtrDest d\<rparr>)
      else if d_srcReg2 d = nullptr then
        setRegType (isSrc1Array d) (d_srcReg1 d) ''srcReg1Type''
          (d\<lparr>d_srcReg2 := x, d_srcReg2Type := d_destRegType d, tmpPtrSrc2 := tmpPtrDest d\<rparr>)
      else d)"

definition is_array_type :: "operandType \<Rightarrow> bool" where
  "is_array_type t \<longleftrightarrow> t = arrayOperand \<or> t = fakeArray"

definition is_scalar_type :: "operandType \<Rightarrow> bool" where
  "is_scalar_type t \<longleftrightarrow> t = singleVariable \<or> t = constantOperand"

definition choose_dest_ptr :: "detector \<Rightarrow> detector res" where
  "choose_dest_ptr d =
     (if tmpPtrSrc1 d \<noteq> nullptr \<or> tmpPtrSrc2 d \<noteq> nullptr then
        (if is_array_type (d_srcReg1Type d) \<and> is_scalar_type (d_srcReg2Type d)
         then Inr (d\<lparr>tmpPtrDest := tmpPtrSrc1 d\<rparr>)
         else if is_scalar_type (d_srcReg1Type d) \<and> is_array_type (d_srcReg2Type d)
         then Inr (d\<lparr>tmpPtrDest := tmpPtrSrc2 d\<rparr>)
         else if is_array_type (d_srcReg1Type d) \<and> is_array_type (d_srcReg2Type d)
         then ebind (getPointerInfo (PIT (d_info d)) (tmpPtrSrc1 d)) (\<lambda>pisSrc1.
              ebind (getPointerInfo (PIT (d_info d)) (tmpPtrSrc2 d)) (\<lambda>pisSrc2.
                Inr (d\<lparr>tmpPtrDest := (if numberOfSubsets pisSrc2 > numberOfSubsets pisSrc1
                                      then tmpPtrSrc1 d else tmpPtrSrc2 d)\<rparr>)))
         else Inr d)
      else Inr d)"

definition two_operand :: "llvmValue \<Rightarrow> llvmValue \<Rightarrow> detector \<Rightarrow> detector" where
  "two_operand op0 op1 d =
     (let d = (if is_const op0
               then d\<lparr>d_srcReg1Type := constantOperand, d_srcReg1 := v_addr op0\<rparr>
               else (setRegType (isSrc1Array d) (d_srcReg1 d) ''srcReg1Type'' d)\<lparr>tmpPtrDest := tmpPtrSrc1 d\<rparr>)
      in if is_const op1
         then d\<lparr>d_srcReg2Type := constantOperand, d_srcReg2 := v_addr op1\<rparr>
         else (setRegType (isSrc2Array d) (d_srcReg2 d) ''srcReg2Type'' d)\<lparr>tmpPtrDest := tmpPtrSrc2 d\<rparr>)"

definition insert_collected :: "llvmInst \<Rightarrow> detector \<Rightarrow> detector" where
  "insert_collected I d =
     (let d = d\<lparr>d_destRegType := (if is_array_type (d_srcReg1Type d) \<or> is_array_type (d_srcReg2Type d)
                                 then fakeArray else singleVariable),
                d_destReg := i_addr I\<rparr>;
          data = \<lparr>ti = 0, di = 0, operation = d_operation d, specifications = [],
                  destinationReg = d_destReg d, destRegType = d_destRegType d, destRegPrt = tmpPtrDest d,
                  sourceReg1 = d_srcReg1 d, srcReg1Type = d_srcReg1Type d, srcReg1Ptr = tmpPtrSrc1 d,
                  sourceReg2 = d_srcReg2 d, srcReg2Type = d_srcReg2Type d, srcReg2Ptr = tmpPtrSrc2 d,
                  isInLoopBody = isLoopBody (d_info d) (i_parent I)\<rparr>
      in d\<lparr>d_IM := insertInstruction data (d_IM d),
           d_srcReg1 := nullptr, d_srcReg2 := nullptr, tmpPtrSrc1 := nullptr, tmpPtrSrc2 := nullptr,
           isSrc1Array := False, isSrc2Array := False,
           d_srcReg1Type := undefinedOperand, d_srcReg2Type := undefinedOperand\<rparr>)"

definition handleInstructionInserting ::
  "llvmInst \<Rightarrow> llvmValue \<Rightarrow> llvmValue \<Rightarrow> detector \<Rightarrow> detector res" where
  "handleInstructionInserting I op0 op1 d =
     (if d_operation d \<noteq> ''null'' \<and> d_operation d \<noteq> ''load'' then
        ebind (if v_addr op0 = d_destReg d \<or> v_addr op1 = d_destReg d
               then choose_dest_ptr (multi_operand (if v_addr op0 = d_destReg d then v_addr op0 else v_addr op1) d)
               else Inr (two_operand op0 op1 d)) (\<lambda>d.
          Inr (insert_collected I d))
      else Inr d)"

section \<open>Stores\<close>

definition set_dest :: "bool \<Rightarrow> ptr \<Rightarrow> detector \<Rightarrow> detector" where
  "set_dest is_array reg d =
     (let it = modifyGivenField reg ''destRegPtr'' (if is_array then tmpPtrDest d else nullptr) undefinedOperand (d_IM d)
      in d\<lparr>d_IM := modifyGivenField reg ''destRegType'' nullptr (operand_type_of is_array) it\<rparr>)"

definition store_accumulation :: "bool \<Rightarrow> detector \<Rightarrow> detector res" where
  "store_accumulation is_array d =
     ebind (or_fail (UB ''handleStoreInstruction reads the end of instructionMap'')
              (sm_find (instructionMap (d_IM d)) (d_destReg d))) (\<lambda>data.
       if isInLoopBody data then
         ebind (let it = addSpecToInstruction (d_destReg d) ''accumulation'' (d_IM d)
                in if loadCount d > 2 then swapOperands (d_destReg d) it else Inr it) (\<lambda>it.
           Inr (set_dest is_array (d_destReg d) (d\<lparr>d_IM := it\<rparr>)))
       else Inr d)"

text \<open>An assignment of a variable: the load that was inserted gets the destination.\<close>

definition store_assignment :: "bool \<Rightarrow> llvmValue \<Rightarrow> detector \<Rightarrow> detector" where
  "store_assignment is_array op0 d0 =
     (let d = set_dest is_array (d_srcReg1 d0) (d0\<lparr>d_destReg := v_addr op0\<rparr>);
          it = modifyGivenField (d_srcReg1 d) ''srcReg2Type'' nullptr (operand_type_of is_array) (d_IM d)
      in d\<lparr>d_IM := modifyGivenField (d_srcReg1 d) ''destReg'' (v_addr op0) undefinedOperand it\<rparr>)"

definition reset_collected :: "detector \<Rightarrow> detector" where
  "reset_collected d =
     d\<lparr>accumulationValidityCount := 0, loadCount := 0, d_srcReg1 := nullptr, d_srcReg2 := nullptr,
       d_destReg := nullptr, tmpPtrSrc1 := nullptr, tmpPtrSrc2 := nullptr, tmpPtrDest := nullptr,
       d_operation := ''null'', d_srcReg1Type := undefinedOperand, d_srcReg2Type := undefinedOperand,
       d_destRegType := undefinedOperand, isSrc1Array := False, isSrc2Array := False\<rparr>"

definition set_last_used :: "ptr \<Rightarrow> detector \<Rightarrow> detector" where
  "set_last_used allocatedReg d =
     d\<lparr>d_lastUsedRegMap :=
       (if sm_find (d_lastUsedRegMap d) allocatedReg = None
        then sm_insert allocatedReg (d_destReg d) (d_lastUsedRegMap d)
        else sm_modify allocatedReg (\<lambda>_. d_destReg d) (d_lastUsedRegMap d))\<rparr>"

definition handleStoreInstruction :: "llvmValue \<Rightarrow> llvmValue \<Rightarrow> detector \<Rightarrow> detector res" where
  "handleStoreInstruction op0 op1 d0 =
     (let storeDest = v_addr op1;
          reg = getAllocatedReg (d_info d0) storeDest;
          is_array = isArray (d_info d0) reg;
          allocatedReg = (if is_array then reg else storeDest);
          d = (if is_array then d0\<lparr>tmpPtrDest := storeDest\<rparr> else d0)
      in if d_operation d = ''null'' then Inr d
         else ebind
           (if loadCount d \<ge> 2 then
              (if accumulationValidityCount d \<ge> 2 \<and> tmpAccumulationOp d = storeDest
               then store_accumulation is_array d
               else Inr (set_dest is_array (d_destReg d) d))
            else if loadCount d = 1 then
              (if d_operation d = ''load'' then Inr (store_assignment is_array op0 d)
               else Inr (set_dest is_array (d_destReg d) d))
            else Inr d) (\<lambda>d.
            Inr (reset_collected (set_last_used allocatedReg d))))"

section \<open>Binary operators and loads\<close>

text \<open>
  The operators whose negation is looked for: an operand of constant -1 starts a negation, and the
  operator that has the negated value as its second operand ends it.
\<close>

definition negatable :: "string \<Rightarrow> string \<Rightarrow> bool \<Rightarrow> llvmInst \<Rightarrow> llvmValue \<Rightarrow> llvmValue \<Rightarrow> detector \<Rightarrow> detector" where
  "negatable name negated_name keeps_source I op0 op1 d0 =
     (let d = d0\<lparr>d_operation := name\<rparr> in
      case v_const op1 of
        Some c \<Rightarrow>
          if c = -1
          then (let d = d\<lparr>isNegated := True, tmpLogicOperatorDestReg := i_addr I\<rparr>
                in if keeps_source then d\<lparr>tmpSrcReg2 := v_addr op0\<rparr> else d)
          else d
      | None \<Rightarrow>
          if isNegated d \<and> tmpLogicOperatorDestReg d = v_addr op1
          then (let d = (if keeps_source then d\<lparr>d_srcReg2 := tmpSrcReg2 d\<rparr> else d)
                in d\<lparr>d_operation := negated_name, isNegated := False\<rparr>)
          else d)"

definition set_operation :: "opcode \<Rightarrow> llvmInst \<Rightarrow> llvmValue \<Rightarrow> llvmValue \<Rightarrow> detector \<Rightarrow> detector" where
  "set_operation oc I op0 op1 d =
     (case oc of
        OpAdd \<Rightarrow>
          d\<lparr>d_operation := ''add'',
            accumulationValidityCount := (if accumulationValidityCount d = 1 then 2 else accumulationValidityCount d)\<rparr>
      | OpSDiv \<Rightarrow> d\<lparr>d_operation := ''sdiv''\<rparr>
      | OpMul \<Rightarrow> d\<lparr>d_operation := ''mul''\<rparr>
      | OpShl \<Rightarrow> d\<lparr>d_operation := ''shl''\<rparr>
      | OpLShr \<Rightarrow> d\<lparr>d_operation := ''lshr''\<rparr>
      | OpAShr \<Rightarrow> d\<lparr>d_operation := ''ashr''\<rparr>
      | OpSub \<Rightarrow> d\<lparr>d_operation := ''sub''\<rparr>
      | OpXor \<Rightarrow> negatable ''xor'' ''xnor'' False I op0 op1 d
      | OpAnd \<Rightarrow> negatable ''and'' ''nand'' True I op0 op1 d
      | OpOr \<Rightarrow> negatable ''or'' ''nor'' True I op0 op1 d
      | OpOther \<Rightarrow> d)"

definition detect_binary :: "opcode \<Rightarrow> llvmInst \<Rightarrow> llvmValue \<Rightarrow> llvmValue \<Rightarrow> detector \<Rightarrow> detector res" where
  "detect_binary oc I op0 op1 d0 =
     (let d = set_operation oc I op0 op1 d0
      in if \<not> isNegated d then handleInstructionInserting I op0 op1 d else Inr d)"

definition detect_load :: "llvmValue \<Rightarrow> detector \<Rightarrow> detector" where
  "detect_load op0 d0 =
     (let allocatedReg = getAllocatedReg (d_info d0) (v_addr op0);
          is_array = isArray (d_info d0) allocatedReg;
          d = d0\<lparr>d_operation := ''load'', tmpAccumulationOp := v_addr op0,
                 accumulationValidityCount := accumulationValidityCount d0 + 1,
                 d_IM := insertLoadInstruction allocatedReg (operand_type_of is_array) (d_IM d0)\<rparr>;
          d = (if loadCount d mod 2 = 0
               then (if is_array then d\<lparr>tmpPtrSrc1 := v_addr op0, isSrc1Array := True\<rparr> else d)
                      \<lparr>d_srcReg1 := getRealSrcReg allocatedReg d\<rparr>
               else (if is_array then d\<lparr>tmpPtrSrc2 := v_addr op0, isSrc2Array := True\<rparr> else d)
                      \<lparr>d_srcReg2 := getRealSrcReg allocatedReg d\<rparr>)
      in d\<lparr>loadCount := loadCount d + 1\<rparr>)"

section \<open>The walk\<close>

definition detect_step :: "llvmInst \<Rightarrow> detector \<Rightarrow> detector res" where
  "detect_step I d =
     (if \<not> isValidInst (d_info d) I then Inr d
      else case i_kind I of
        BinaryOperator oc op0 op1 \<Rightarrow> detect_binary oc I op0 op1 d
      | LoadInst op0 \<Rightarrow> Inr (detect_load op0 d)
      | StoreInst op0 op1 \<Rightarrow> handleStoreInstruction op0 op1 d
      | _ \<Rightarrow> Inr d)"

definition detector_start :: "detector \<Rightarrow> collectInfo \<Rightarrow> detector" where
  "detector_start raw info =
     raw\<lparr>d_IM := empty_IT, d_lastUsedRegMap := [], d_info := info, accumulationValidityCount := 0,
         d_srcReg1 := nullptr, d_srcReg2 := nullptr, d_destReg := nullptr,
         isSrc1Array := False, isSrc2Array := False, d_srcReg1Type := undefinedOperand,
         d_srcReg2Type := undefinedOperand, d_destRegType := undefinedOperand,
         tmpPtrSrc1 := nullptr, tmpPtrSrc2 := nullptr, tmpPtrDest := nullptr,
         loadCount := 0, d_operation := ''null'', isNegated := False\<rparr>"

definition detectDependencies :: "detector \<Rightarrow> collectInfo \<Rightarrow> llvmInst list list \<Rightarrow> instructionTable res" where
  "detectDependencies raw info basicBlocksToSchedule =
     ebind (efold detect_step (concat basicBlocksToSchedule) (detector_start raw info)) (\<lambda>d.
       Inr (reorderInstructionVector (d_IM d)))"

end
