(* ===== verification/Detector_Proofs.thy ===== *)
theory Detector_Proofs
  imports Dependency_Detector
begin

text \<open>
  The dependency detection works on the instruction table through the operations of the table only,
  so that its result has the table's invariant; and what becomes of negated operators.
\<close>

section \<open>The table is only changed by its operations\<close>

definition table_run :: "instructionTable \<Rightarrow> instructionTable \<Rightarrow> bool" where
  "table_run it it' \<longleftrightarrow> (\<exists>ops. efold it_apply ops it = Inr it')"

lemma table_run_refl [simp, intro]: "table_run it it"
  unfolding table_run_def by (rule exI[of _ "[]"]) simp

lemma table_run_trans:
  assumes "table_run a b" "table_run b c"
  shows "table_run a c"
proof -
  obtain ops ops' where "efold it_apply ops a = Inr b" "efold it_apply ops' b = Inr c"
    using assms by (auto simp: table_run_def)
  then have "efold it_apply (ops @ ops') a = Inr c" by simp
  then show ?thesis unfolding table_run_def by blast
qed

lemma table_run_step:
  assumes "table_run it u" "it_apply op u = Inr it'"
  shows "table_run it it'"
proof -
  have "efold it_apply [op] u = Inr it'" using assms(2) by simp
  then have "table_run u it'" unfolding table_run_def by blast
  then show ?thesis by (rule table_run_trans[OF assms(1)])
qed

lemma table_run_ops [simp]:
  "table_run it u \<Longrightarrow> table_run it (insertInstruction d u)"
  "table_run it u \<Longrightarrow> table_run it (insertLoadInstruction k oT u)"
  "table_run it u \<Longrightarrow> table_run it (addSpecToInstruction k sp u)"
  "table_run it u \<Longrightarrow> table_run it (modifyGivenField k f p oT u)"
  "table_run it u \<Longrightarrow> table_run it (reorderInstructionVector u)"
  by (rule table_run_step[where op = "Op_insert d"] table_run_step[where op = "Op_insertLoad k oT"]
    table_run_step[where op = "Op_addSpec k sp"] table_run_step[where op = "Op_modifyField k f p oT"]
    table_run_step[where op = Op_reorder], assumption, simp)+

lemma table_run_swap: "table_run it u \<Longrightarrow> swapOperands k u = Inr v \<Longrightarrow> table_run it v"
  by (rule table_run_step[where op = "Op_swap k"]) simp_all

lemma table_run_inv:
  assumes "table_run it it'" "it_inv it"
  shows "it_inv it' \<and> dom (sm_find (instructionMap it)) \<subseteq> dom (sm_find (instructionMap it'))"
proof -
  obtain ops where ops: "efold it_apply ops it = Inr it'" using assms(1) by (auto simp: table_run_def)
  show ?thesis
  proof (rule efold_invariant[OF ops])
    show "it_inv it \<and> dom (sm_find (instructionMap it)) \<subseteq> dom (sm_find (instructionMap it))" using assms(2) by simp
    show "it_inv v \<and> dom (sm_find (instructionMap it)) \<subseteq> dom (sm_find (instructionMap v))"
      if "it_inv u \<and> dom (sm_find (instructionMap it)) \<subseteq> dom (sm_find (instructionMap u))" "it_apply op u = Inr v" for op u v
      using that it_apply_inv it_apply_dom subset_trans by blast
  qed
qed

text \<open>The collected operands do not touch the table.\<close>

lemma setRegType_fields:
  "operandType = ''srcReg1Type'' \<or> operandType = ''srcReg2Type'' \<Longrightarrow> d_IM (setRegType b r operandType d) = d_IM d"
  "d_info (setRegType b r operandType d) = d_info d"
  by (auto simp: setRegType_def)

lemma multi_operand_fields: "d_IM (multi_operand x d) = d_IM d" "d_info (multi_operand x d) = d_info d"
  by (simp_all add: multi_operand_def setRegType_fields)

lemma two_operand_fields: "d_IM (two_operand a b d) = d_IM d" "d_info (two_operand a b d) = d_info d"
  by (simp_all add: two_operand_def setRegType_fields Let_def)

lemma choose_dest_ptr_fields:
  assumes "choose_dest_ptr d = Inr d'"
  shows "d_IM d' = d_IM d \<and> d_info d' = d_info d"
proof -
  have "d' = d \<or> (\<exists>p. d' = d\<lparr>tmpPtrDest := p\<rparr>)"
    using assms unfolding choose_dest_ptr_def
    by (cases "getPointerInfo (PIT (d_info d)) (tmpPtrSrc1 d)"; cases "getPointerInfo (PIT (d_info d)) (tmpPtrSrc2 d)")
      (force split: if_split_asm)+
  then show ?thesis by (elim disjE exE) simp_all
qed

lemma insert_collected_run: "table_run (d_IM d) (d_IM (insert_collected I d))"
  by (auto simp: insert_collected_def Let_def)

lemma insert_collected_info: "d_info (insert_collected I d) = d_info d"
  by (simp add: insert_collected_def Let_def)

lemma handleInstructionInserting_run:
  assumes "handleInstructionInserting I op0 op1 d = Inr d'"
  shows "table_run (d_IM d) (d_IM d') \<and> d_info d' = d_info d"
proof -
  have "table_run (d_IM d) (d_IM (insert_collected I u)) \<and> d_info (insert_collected I u) = d_info d"
    if "d_IM u = d_IM d" "d_info u = d_info d" for u
    using insert_collected_run[of u I] insert_collected_info[of I u] that by simp
  then show ?thesis
    using assms
    by (auto simp: handleInstructionInserting_def res_simps multi_operand_fields two_operand_fields
        dest!: choose_dest_ptr_fields split: if_splits)
qed

lemma set_dest_run: "table_run (d_IM d) (d_IM (set_dest b r d)) \<and> d_info (set_dest b r d) = d_info d"
  by (auto simp: set_dest_def Let_def)

lemma store_accumulation_run:
  assumes "store_accumulation b d = Inr d'"
  shows "table_run (d_IM d) (d_IM d') \<and> d_info d' = d_info d"
proof -
  have run: "table_run (d_IM d) it" if "(if loadCount d > 2 then swapOperands (d_destReg d) (addSpecToInstruction (d_destReg d) ''accumulation'' (d_IM d))
      else Inr (addSpecToInstruction (d_destReg d) ''accumulation'' (d_IM d))) = Inr it" for it
    using that table_run_swap[OF table_run_ops(3)[OF table_run_refl]] by (auto split: if_splits)
  have "table_run (d_IM d) (d_IM (set_dest b r (d\<lparr>d_IM := it\<rparr>))) \<and> d_info (set_dest b r (d\<lparr>d_IM := it\<rparr>)) = d_info d"
    if "table_run (d_IM d) it" for it r
    using set_dest_run[of "d\<lparr>d_IM := it\<rparr>" b r] table_run_trans[OF that] by simp
  then show ?thesis
    using assms run by (auto simp: store_accumulation_def Let_def res_simps split: if_splits)
qed

lemma store_assignment_run:
  "table_run (d_IM d) (d_IM (store_assignment b op0 d)) \<and> d_info (store_assignment b op0 d) = d_info d"
  using set_dest_run[of "d\<lparr>d_destReg := v_addr op0\<rparr>" b "d_srcReg1 d"]
  by (auto simp: store_assignment_def Let_def)

lemma handleStoreInstruction_run:
  assumes "handleStoreInstruction op0 op1 d = Inr d'"
  shows "table_run (d_IM d) (d_IM d') \<and> d_info d' = d_info d"
proof -
  let ?arr = "isArray (d_info d) (getAllocatedReg (d_info d) (v_addr op1))"
  let ?d = "if ?arr then d\<lparr>tmpPtrDest := v_addr op1\<rparr> else d"
  let ?reg = "if ?arr then getAllocatedReg (d_info d) (v_addr op1) else v_addr op1"
  have d: "d_IM ?d = d_IM d" "d_info ?d = d_info d" by simp_all
  have "d' = ?d \<or> (\<exists>u. d' = reset_collected (set_last_used ?reg u) \<and>
      (store_accumulation ?arr ?d = Inr u \<or> (\<exists>r. u = set_dest ?arr r ?d) \<or> u = store_assignment ?arr op0 ?d \<or> u = ?d))"
    using assms by (auto simp: handleStoreInstruction_def Let_def res_simps split: if_splits)
  then show ?thesis
  proof (elim disjE exE conjE)
    fix u assume "d' = reset_collected (set_last_used ?reg u)"
    then have d': "d_IM d' = d_IM u" "d_info d' = d_info u" by (simp_all add: reset_collected_def set_last_used_def)
    { assume "store_accumulation ?arr ?d = Inr u"
      from store_accumulation_run[OF this] show ?thesis using d d' by simp }
    { fix r assume "u = set_dest ?arr r ?d"
      then show ?thesis using set_dest_run[of ?d ?arr r] d d' by simp }
    { assume "u = store_assignment ?arr op0 ?d"
      then show ?thesis using store_assignment_run[of ?d ?arr op0] d d' by simp }
    { assume "u = ?d" then show ?thesis using d d' by simp }
  next
    assume "d' = ?d" then show ?thesis by simp
  qed
qed

lemma set_operation_fields: "d_IM (set_operation oc I op0 op1 d) = d_IM d" "d_info (set_operation oc I op0 op1 d) = d_info d"
  by (auto simp: set_operation_def negatable_def Let_def split: opcode.splits option.splits)

lemma detect_step_run:
  assumes "detect_step I d = Inr d'"
  shows "table_run (d_IM d) (d_IM d') \<and> d_info d' = d_info d"
proof (cases "isValidInst (d_info d) I")
  case False
  then show ?thesis using assms by (simp add: detect_step_def)
next
  case True
  show ?thesis
  proof (cases "i_kind I")
    case (LoadInst op0)
    then show ?thesis using assms True by (auto simp: detect_step_def detect_load_def Let_def)
  next
    case (StoreInst op0 op1)
    then show ?thesis using assms True handleStoreInstruction_run by (simp add: detect_step_def)
  next
    case (BinaryOperator oc op0 op1)
    then show ?thesis
      using assms True handleInstructionInserting_run[of I op0 op1 "set_operation oc I op0 op1 d" d'] set_operation_fields
      by (auto simp: detect_step_def detect_binary_def Let_def split: if_splits)
  qed (use assms True in \<open>simp_all add: detect_step_def\<close>)
qed

lemma detect_run:
  assumes "efold detect_step Is d = Inr d'"
  shows "table_run (d_IM d) (d_IM d') \<and> d_info d' = d_info d"
  using assms by (rule efold_invariant) (use detect_step_run table_run_trans in fastforce)+

section \<open>Negations\<close>

definition other_entries :: "instructionTable \<Rightarrow> (ptr \<times> string) list" where
  "other_entries it = filter (\<lambda>p. snd p \<noteq> ''load'') (instructionOrderVector it)"

lemma other_entries_ops [simp]:
  "other_entries (insertLoadInstruction k oT it) = other_entries it"
  "other_entries (modifyGivenField k f p oT it) = other_entries it"
  "other_entries (addSpecToInstruction k sp it) = other_entries it"
  "other_entries (reorderInstructionVector it) = other_entries it"
  by (simp_all add: other_entries_def insertLoadInstruction_def modifyGivenField_def addSpecToInstruction_def
      reorderInstructionVector_def)

lemma other_entries_swap: "swapOperands k it = Inr it' \<Longrightarrow> other_entries it' = other_entries it"
  by (auto simp: other_entries_def swapOperands_def split: if_splits)

lemma set_dest_kept:
  "other_entries (d_IM (set_dest b r d)) = other_entries (d_IM d) \<and> isNegated (set_dest b r d) = isNegated d \<and>
   tmpLogicOperatorDestReg (set_dest b r d) = tmpLogicOperatorDestReg d"
  by (simp add: set_dest_def Let_def)

lemma store_accumulation_kept:
  assumes "store_accumulation b d = Inr d'"
  shows "other_entries (d_IM d') = other_entries (d_IM d) \<and> isNegated d' = isNegated d \<and>
    tmpLogicOperatorDestReg d' = tmpLogicOperatorDestReg d"
proof -
  have swap: "other_entries it = other_entries (d_IM d)"
    if "swapOperands (d_destReg d) (addSpecToInstruction (d_destReg d) ''accumulation'' (d_IM d)) = Inr it" for it
    using other_entries_swap[OF that] by simp
  show ?thesis
    using assms swap
    by (auto simp: store_accumulation_def Let_def res_simps set_dest_kept split: if_split_asm)
qed

lemma handleStoreInstruction_kept:
  assumes "handleStoreInstruction op0 op1 d = Inr d'"
  shows "other_entries (d_IM d') = other_entries (d_IM d) \<and> isNegated d' = isNegated d \<and>
    tmpLogicOperatorDestReg d' = tmpLogicOperatorDestReg d"
proof -
  let ?arr = "isArray (d_info d) (getAllocatedReg (d_info d) (v_addr op1))"
  let ?d = "if ?arr then d\<lparr>tmpPtrDest := v_addr op1\<rparr> else d"
  let ?reg = "if ?arr then getAllocatedReg (d_info d) (v_addr op1) else v_addr op1"
  have d: "d_IM ?d = d_IM d" "isNegated ?d = isNegated d" "tmpLogicOperatorDestReg ?d = tmpLogicOperatorDestReg d"
    by simp_all
  have assign: "other_entries (d_IM (store_assignment ?arr op0 ?d)) = other_entries (d_IM ?d) \<and>
      isNegated (store_assignment ?arr op0 ?d) = isNegated ?d \<and>
      tmpLogicOperatorDestReg (store_assignment ?arr op0 ?d) = tmpLogicOperatorDestReg ?d"
    using set_dest_kept[of ?arr "d_srcReg1 ?d" "?d\<lparr>d_destReg := v_addr op0\<rparr>"]
    by (simp add: store_assignment_def Let_def)
  have "d' = ?d \<or> (\<exists>u. d' = reset_collected (set_last_used ?reg u) \<and>
      (store_accumulation ?arr ?d = Inr u \<or> (\<exists>r. u = set_dest ?arr r ?d) \<or> u = store_assignment ?arr op0 ?d \<or> u = ?d))"
    using assms by (auto simp: handleStoreInstruction_def Let_def res_simps split: if_splits)
  then show ?thesis
  proof (elim disjE exE conjE)
    fix u assume "d' = reset_collected (set_last_used ?reg u)"
    then have d': "d_IM d' = d_IM u" "isNegated d' = isNegated u" "tmpLogicOperatorDestReg d' = tmpLogicOperatorDestReg u"
      by (simp_all add: reset_collected_def set_last_used_def)
    { assume "store_accumulation ?arr ?d = Inr u"
      from store_accumulation_kept[OF this] show ?thesis using d d' by simp }
    { fix r assume "u = set_dest ?arr r ?d"
      then show ?thesis using set_dest_kept[of ?arr r ?d] d d' by simp }
    { assume "u = store_assignment ?arr op0 ?d"
      then show ?thesis using assign d d' by simp }
    { assume "u = ?d" then show ?thesis using d d' by simp }
  next
    assume "d' = ?d" then show ?thesis by simp
  qed
qed

text \<open>An operator that neither starts nor ends a negation.\<close>

definition leaves_negation :: "ptr \<Rightarrow> llvmInst \<Rightarrow> bool" where
  "leaves_negation p I \<longleftrightarrow> (case i_kind I of
     BinaryOperator oc op0 op1 \<Rightarrow> v_const op1 \<noteq> Some (-1) \<and> v_addr op1 \<noteq> p | _ \<Rightarrow> True)"

lemma negated_step:
  assumes "detect_step I d = Inr d'" "isNegated d" "leaves_negation (tmpLogicOperatorDestReg d) I"
  shows "isNegated d' \<and> tmpLogicOperatorDestReg d' = tmpLogicOperatorDestReg d \<and>
    other_entries (d_IM d') = other_entries (d_IM d)"
proof (cases "isValidInst (d_info d) I")
  case False
  then show ?thesis using assms by (simp add: detect_step_def)
next
  case True
  show ?thesis
  proof (cases "i_kind I")
    case (LoadInst op0)
    then show ?thesis using assms True by (auto simp: detect_step_def detect_load_def Let_def)
  next
    case (StoreInst op0 op1)
    then show ?thesis using assms True handleStoreInstruction_kept by (simp add: detect_step_def)
  next
    case (BinaryOperator oc op0 op1)
    let ?u = "set_operation oc I op0 op1 d"
    have "isNegated ?u" "tmpLogicOperatorDestReg ?u = tmpLogicOperatorDestReg d"
      using assms(2,3) BinaryOperator
      by (cases oc; cases "v_const op1"; simp add: set_operation_def negatable_def Let_def leaves_negation_def)+
    then show ?thesis
      using assms True BinaryOperator set_operation_fields[of oc I op0 op1 d] by (auto simp: detect_step_def detect_binary_def Let_def)
  qed (use assms True in \<open>simp_all add: detect_step_def\<close>)
qed

lemma negated_run:
  assumes "efold detect_step Is d = Inr d'" "isNegated d" "list_all (leaves_negation (tmpLogicOperatorDestReg d)) Is"
  shows "isNegated d' \<and> other_entries (d_IM d') = other_entries (d_IM d)"
proof -
  have "isNegated d' \<and> tmpLogicOperatorDestReg d' = tmpLogicOperatorDestReg d \<and> other_entries (d_IM d') = other_entries (d_IM d)"
    using assms(1)
  proof (rule efold_invariant)
    show "isNegated v \<and> tmpLogicOperatorDestReg v = tmpLogicOperatorDestReg d \<and> other_entries (d_IM v) = other_entries (d_IM d)"
      if "I \<in> set Is" "isNegated u \<and> tmpLogicOperatorDestReg u = tmpLogicOperatorDestReg d \<and> other_entries (d_IM u) = other_entries (d_IM d)"
        "detect_step I u = Inr v" for I u v
      using negated_step[OF that(3)] that(1,2) assms(3) by (simp add: list_all_iff)
  qed (use assms(2) in simp)
  then show ?thesis by blast
qed

section \<open>Properties\<close>

text \<open>
  Whatever the instructions of the function are, the table that the dependency detection hands to the
  scheduler is the result of a sequence of the table's own operations on the empty table, so that
  \<open>instruction_order\<close> applies to it.
\<close>

lemma detectDependencies_run:
  assumes "detectDependencies raw info bbs = Inr it"
  shows "\<exists>ops. efold it_apply (ops @ [Op_reorder]) empty_IT = Inr it"
proof -
  obtain d where d: "efold detect_step (concat bbs) (detector_start raw info) = Inr d"
    "it = reorderInstructionVector (d_IM d)"
    using assms by (auto simp: detectDependencies_def res_simps)
  have "d_IM (detector_start raw info) = empty_IT" by (simp add: detector_start_def)
  then obtain ops where "efold it_apply ops empty_IT = Inr (d_IM d)" using detect_run[OF d(1)] by (auto simp: table_run_def)
  then have "efold it_apply (ops @ [Op_reorder]) empty_IT = Inr it" by (simp add: d(2))
  then show ?thesis ..
qed

text \<open>
  C31: once the bitwise negation of a value has been seen (an operator \<open>xor\<close>, \<open>and\<close> or \<open>or\<close> with the
  constant -1), no operator at all is put into the instruction table any more, until an operator has
  the negated value as its second operand: whatever is computed in between is silently dropped.
\<close>

theorem negation_drops_operators:
  assumes "efold detect_step pre (detector_start raw info) = Inr d"
    and "isValidInst info N" "i_kind N = BinaryOperator oc x c" "oc \<in> {OpXor, OpAnd, OpOr}" "v_const c = Some (-1)"
    and "list_all (leaves_negation (i_addr N)) post"
    and "detectDependencies raw info [pre, N # post] = Inr it"
  shows "other_entries it = other_entries (d_IM d)"
proof -
  have info: "d_info d = info" using detect_run[OF assms(1)] by (simp add: detector_start_def)
  let ?n = "set_operation oc N x c d"
  have n: "isNegated ?n" "tmpLogicOperatorDestReg ?n = i_addr N"
    using assms(4,5) by (auto simp: set_operation_def negatable_def Let_def)
  have step: "detect_step N d = Inr ?n"
    using assms(2,3) n(1) info by (simp add: detect_step_def detect_binary_def Let_def)
  obtain d' where d': "efold detect_step post ?n = Inr d'" "it = reorderInstructionVector (d_IM d')"
    using assms(1,7) step by (auto simp: detectDependencies_def res_simps)
  show ?thesis
    using negated_run[OF d'(1) n(1)] assms(6) n(2) d'(2) set_operation_fields(1)[of oc N x c d] by simp
qed

text \<open>
  C32: the conjunction of a value with the negation of another one, \<open>a & ~b\<close>, is taken for a \<open>nand\<close>,
  and its second operand is a member that has not been set.
\<close>

theorem and_not_reads_uninitialised:
  assumes "getAllocatedReg info a = a" "getAllocatedReg info b = b" "\<not> isArray info a" "\<not> isArray info b"
    and "sm_find (iteratorsAliasMap info) a = None" "sm_find (iteratorsAliasMap info) b = None"
    and "distinct [nullptr, a, b, t1, t2, n, r]"
  shows "\<exists>it data. detectDependencies raw info
      [[\<lparr>i_addr = t1, i_parent = bb, i_kind = LoadInst (register a)\<rparr>,
        \<lparr>i_addr = t2, i_parent = bb, i_kind = LoadInst (register b)\<rparr>,
        \<lparr>i_addr = n, i_parent = bb, i_kind = BinaryOperator OpXor (register t2) \<lparr>v_addr = m, v_const = Some (-1)\<rparr>\<rparr>,
        \<lparr>i_addr = r, i_parent = bb, i_kind = BinaryOperator OpAnd (register t1) (register n)\<rparr>]] = Inr it \<and>
    sm_find (instructionMap it) r = Some data \<and> operation data = ''nand'' \<and>
    sourceReg1 data = a \<and> sourceReg2 data = tmpSrcReg2 raw"
proof -
  have "a \<noteq> b" "b \<noteq> a" "r \<noteq> a" "r \<noteq> b" "t1 \<noteq> nullptr" "n \<noteq> nullptr" "t2 \<noteq> nullptr" using assms(7) by auto
  then show ?thesis
    using assms(1-6)
    by (simp add: detectDependencies_def detector_start_def detect_step_def isValidInst_def detect_load_def
        detect_binary_def set_operation_def negatable_def handleInstructionInserting_def two_operand_def setRegType_def
        insert_collected_def getRealSrcReg_def is_const_def Let_def insertInstruction_def insertLoadInstruction_def
        empty_IT_def reorderInstructionVector_def sm_find_insert operand_type_of_def del: sm_insert.simps)
qed

end
