(* ===== verification/Synthesis.thy ===== *)
theory Synthesis
  imports Straight_Line Detector_Proofs
begin

text \<open>
  \<open>OctantisPass::runOnFunction\<close>, from the dependency detection to the binding; and the correctness of
  this pipeline on straight-line scalar source code, from assignments between variables to the rows
  of the memory array.
\<close>

section \<open>The pipeline\<close>

text \<open>
  The instruction table is a member of the pass: without the ASAP scheduling it is the one of the
  function before (empty for the first one).
\<close>

definition synthesise ::
  "detector \<Rightarrow> lim_binder \<Rightarrow> string \<Rightarrow> int \<Rightarrow> string \<Rightarrow> instructionTable \<Rightarrow> collectInfo \<Rightarrow> llvmInst list list
   \<Rightarrow> bindingOutput res" where
  "synthesise raw_d raw_b schedulingAlgorithm wordLength target previous info basicBlocks =
     ebind (detectDependencies raw_d info basicBlocks) (\<lambda>dependencyGraph.
     ebind (if schedulingAlgorithm = ''ASAP'' then scheduleFunction dependencyGraph else Inr previous)
       (\<lambda>instructionTable. LiMBinder raw_b instructionTable info wordLength target))"

section \<open>Source programs\<close>

text \<open>
  An assignment \<open>dest = left op right\<close> between variables, with the addresses of the LLVM values the
  compiler makes of it: two loads and the operation.
\<close>

record assignment =
  a_dest :: ptr
  a_left :: ptr
  a_op :: opcode
  a_right :: ptr
  a_load1 :: ptr
  a_load2 :: ptr
  a_result :: ptr
  a_block :: ptr

definition lower :: "assignment \<Rightarrow> llvmInst list" where
  "lower A =
     [\<lparr>i_addr = a_load1 A, i_parent = a_block A, i_kind = LoadInst (register (a_left A))\<rparr>,
      \<lparr>i_addr = a_load2 A, i_parent = a_block A, i_kind = LoadInst (register (a_right A))\<rparr>,
      \<lparr>i_addr = a_result A, i_parent = a_block A,
        i_kind = BinaryOperator (a_op A) (register (a_load1 A)) (register (a_load2 A))\<rparr>,
      \<lparr>i_addr = nullptr, i_parent = a_block A,
        i_kind = StoreInst (register (a_result A)) (register (a_dest A))\<rparr>]"

fun op_name :: "opcode \<Rightarrow> string" where
  "op_name OpAdd = ''add''"
| "op_name OpSub = ''sub''"
| "op_name OpMul = ''mul''"
| "op_name OpSDiv = ''sdiv''"
| "op_name OpAnd = ''and''"
| "op_name OpOr = ''or''"
| "op_name OpXor = ''xor''"
| "op_name OpShl = ''shl''"
| "op_name OpLShr = ''lshr''"
| "op_name OpAShr = ''ashr''"
| "op_name OpOther = ''''"

definition parallel_op :: "opcode \<Rightarrow> bool" where
  "parallel_op oc \<longleftrightarrow> oc \<in> {OpAdd, OpSub, OpMul, OpSDiv, OpAnd, OpOr, OpXor}"

definition scalar_variable :: "collectInfo \<Rightarrow> ptr \<Rightarrow> bool" where
  "scalar_variable info v \<longleftrightarrow> getAllocatedReg info v = v \<and> \<not> isArray info v \<and> sm_find (iteratorsAliasMap info) v = None"

definition scalar_assignment :: "collectInfo \<Rightarrow> assignment \<Rightarrow> bool" where
  "scalar_assignment info A \<longleftrightarrow> parallel_op (a_op A) \<and> a_load1 A \<noteq> nullptr \<and> a_load2 A \<noteq> nullptr \<and>
     a_result A \<notin> set (combinedIterators info) \<and> \<not> isLoopBody info (a_block A) \<and> \<not> isArray info (a_result A) \<and>
     scalar_variable info (a_dest A) \<and> scalar_variable info (a_left A) \<and> scalar_variable info (a_right A)"

definition program_variables :: "assignment list \<Rightarrow> ptr set" where
  "program_variables prog = (\<Union>A \<in> set prog. {a_dest A, a_left A, a_right A})"

definition scalar_program :: "collectInfo \<Rightarrow> assignment list \<Rightarrow> bool" where
  "scalar_program info prog \<longleftrightarrow> list_all (scalar_assignment info) prog \<and> distinct (map a_result prog) \<and>
     a_result ` set prog \<inter> program_variables prog = {}"

text \<open>
  What the program computes, in terms of values: the result, the operation and its two operands,
  each of which is the initial value of a variable or the result of an earlier assignment.
\<close>

type_synonym value_def = "ptr \<times> string \<times> ptr \<times> ptr"

fun resolve :: "(ptr \<Rightarrow> ptr) \<Rightarrow> assignment list \<Rightarrow> value_def list" where
  "resolve \<sigma> [] = []"
| "resolve \<sigma> (A # As) =
     (a_result A, op_name (a_op A), \<sigma> (a_left A), \<sigma> (a_right A)) # resolve (\<sigma>(a_dest A := a_result A)) As"

text \<open>No second operand has been an operand before, and the operands of an operation differ.\<close>

fun linear :: "ptr set \<Rightarrow> value_def list \<Rightarrow> bool" where
  "linear U [] = True"
| "linear U ((r, op, x, y) # q) = (x \<noteq> y \<and> y \<notin> U \<and> linear ({x, y} \<union> U) q)"

section \<open>The detector on one assignment\<close>

lemma ebind_efold_Nil: "ebind m (efold f []) = m"
  by (cases m) simp_all

lemma insertLoad_find:
  "it_inv it \<Longrightarrow> sm_find (instructionMap (insertLoadInstruction k oT it)) q =
     (if q = k \<and> sm_find (instructionMap it) k = None then Some (load_data k oT) else sm_find (instructionMap it) q)"
  by (simp add: insertLoadInstruction_def sm_find_insert it_inv_def)

lemma insertLoad_inv: "it_inv it \<Longrightarrow> it_inv (insertLoadInstruction k oT it)"
  using it_apply_inv[of it "Op_insertLoad k oT"] by simp

definition idle :: "collectInfo \<Rightarrow> (ptr \<Rightarrow> ptr) \<Rightarrow> detector \<Rightarrow> bool" where
  "idle info \<sigma> d \<longleftrightarrow> d_info d = info \<and> sm_inv (d_lastUsedRegMap d) \<and> (\<forall>v. getRealSrcReg v d = \<sigma> v) \<and>
     accumulationValidityCount d = 0 \<and> d_destReg d = nullptr \<and> \<not> isSrc1Array d \<and> \<not> isSrc2Array d \<and>
     tmpPtrSrc1 d = nullptr \<and> tmpPtrSrc2 d = nullptr \<and> tmpPtrDest d = nullptr \<and> loadCount d = 0 \<and> \<not> isNegated d"

definition assignment_data :: "string \<Rightarrow> ptr \<Rightarrow> ptr \<Rightarrow> ptr \<Rightarrow> instructionData" where
  "assignment_data op r x y =
     \<lparr>ti = 0, di = 0, operation = op, specifications = [], destinationReg = r, destRegType = singleVariable,
      destRegPrt = nullptr, sourceReg1 = x, srcReg1Type = singleVariable, srcReg1Ptr = nullptr,
      sourceReg2 = y, srcReg2Type = singleVariable, srcReg2Ptr = nullptr, isInLoopBody = False\<rparr>"

definition assignment_table :: "assignment \<Rightarrow> ptr \<Rightarrow> ptr \<Rightarrow> instructionTable \<Rightarrow> instructionTable" where
  "assignment_table A x y it =
     insertInstruction (assignment_data (op_name (a_op A)) (a_result A) x y)
       (insertLoadInstruction (a_right A) singleVariable (insertLoadInstruction (a_left A) singleVariable it))"

lemma assignment_table_find:
  assumes "it_inv it" "sm_find (instructionMap it) (a_result A) = None" "a_result A \<noteq> a_left A" "a_result A \<noteq> a_right A"
  shows "sm_find (instructionMap (assignment_table A x y it)) q =
    (if q = a_result A then Some (assignment_data (op_name (a_op A)) (a_result A) x y)
     else if q \<in> {a_left A, a_right A} \<and> sm_find (instructionMap it) q = None then Some (load_data q singleVariable)
     else sm_find (instructionMap it) q)"
proof -
  let ?it = "insertLoadInstruction (a_right A) singleVariable (insertLoadInstruction (a_left A) singleVariable it)"
  have inv: "it_inv ?it" using assms(1) by (intro insertLoad_inv)
  have find: "sm_find (instructionMap ?it) q =
      (if q \<in> {a_left A, a_right A} \<and> sm_find (instructionMap it) q = None then Some (load_data q singleVariable)
       else sm_find (instructionMap it) q)" for q
    using assms(1) by (auto simp: insertLoad_find insertLoad_inv)
  have new: "assignment_data op r x y\<lparr>specifications := []\<rparr> = assignment_data op r x y"
    "destinationReg (assignment_data op r x y) = r" for op r
    by (simp_all add: assignment_data_def)
  show ?thesis
    using inv assms(2-4) find
    by (simp add: assignment_table_def insertInstruction_def new it_invD sm_find_insert)
qed

definition loaded :: "ptr \<Rightarrow> ptr \<Rightarrow> (ptr \<Rightarrow> ptr) \<Rightarrow> detector \<Rightarrow> detector" where
  "loaded a b \<sigma> d =
     d\<lparr>d_operation := ''load'', tmpAccumulationOp := b, accumulationValidityCount := 2,
       d_IM := insertLoadInstruction b singleVariable (insertLoadInstruction a singleVariable (d_IM d)),
       d_srcReg1 := \<sigma> a, d_srcReg2 := \<sigma> b, loadCount := 2\<rparr>"

lemma detect_loads:
  assumes "idle info \<sigma> d" "scalar_variable info a" "scalar_variable info b"
  shows "efold detect_step [\<lparr>i_addr = t1, i_parent = bb, i_kind = LoadInst (register a)\<rparr>,
      \<lparr>i_addr = t2, i_parent = bb, i_kind = LoadInst (register b)\<rparr>] d = Inr (loaded a b \<sigma> d)"
proof -
  have d: "d_info d = info" "loadCount d = 0" "accumulationValidityCount d = 0" "\<And>v. getRealSrcReg v d = \<sigma> v"
    using assms(1) by (simp_all add: idle_def)
  have v: "getAllocatedReg info a = a" "\<not> isArray info a" "sm_find (iteratorsAliasMap info) a = None"
    "getAllocatedReg info b = b" "\<not> isArray info b" "sm_find (iteratorsAliasMap info) b = None"
    using assms(2,3) by (simp_all add: scalar_variable_def)
  let ?d1 = "d\<lparr>d_operation := ''load'', tmpAccumulationOp := a, accumulationValidityCount := 1,
       d_IM := insertLoadInstruction a singleVariable (d_IM d), d_srcReg1 := \<sigma> a, loadCount := 1\<rparr>"
  have real: "getRealSrcReg w u = \<sigma> w" if "d_lastUsedRegMap u = d_lastUsedRegMap d" for w u
    using that d(4)[of w] by (simp add: getRealSrcReg_def)
  have "detect_load (register a) d = ?d1"
    by (rule detector.equality) (simp_all add: detect_load_def Let_def d v real operand_type_of_def)
  moreover have "detect_load (register b) ?d1 = loaded a b \<sigma> d"
    by (rule detector.equality) (simp_all add: detect_load_def Let_def d v real operand_type_of_def loaded_def)
  ultimately show ?thesis by (simp add: detect_step_def isValidInst_def d v)
qed

definition operated :: "assignment \<Rightarrow> (ptr \<Rightarrow> ptr) \<Rightarrow> detector \<Rightarrow> detector" where
  "operated A \<sigma> d =
     d\<lparr>d_operation := op_name (a_op A), accumulationValidityCount := 2, tmpAccumulationOp := a_right A, loadCount := 2,
       d_IM := assignment_table A (\<sigma> (a_left A)) (\<sigma> (a_right A)) (d_IM d),
       d_destRegType := singleVariable, d_destReg := a_result A, d_srcReg1 := nullptr, d_srcReg2 := nullptr,
       tmpPtrSrc1 := nullptr, tmpPtrSrc2 := nullptr, tmpPtrDest := nullptr, isSrc1Array := False, isSrc2Array := False,
       d_srcReg1Type := undefinedOperand, d_srcReg2Type := undefinedOperand\<rparr>"

lemma set_operation_plain:
  assumes "parallel_op oc" "v_const op1 = None" "\<not> isNegated d" "accumulationValidityCount d = 2"
  shows "set_operation oc I op0 op1 d = d\<lparr>d_operation := op_name oc\<rparr>"
  using assms by (cases oc) (simp_all add: set_operation_def negatable_def Let_def parallel_op_def)

lemma detect_operation:
  assumes "idle info \<sigma> d" "scalar_assignment info A"
  shows "detect_step \<lparr>i_addr = a_result A, i_parent = a_block A,
        i_kind = BinaryOperator (a_op A) (register (a_load1 A)) (register (a_load2 A))\<rparr>
      (loaded (a_left A) (a_right A) \<sigma> d) = Inr (operated A \<sigma> d)"
proof -
  let ?l = "loaded (a_left A) (a_right A) \<sigma> d"
  have op: "op_name (a_op A) \<noteq> ''null''" "op_name (a_op A) \<noteq> ''load''" by (cases "a_op A"; simp)+
  have so: "set_operation (a_op A) I op0 (register (a_load2 A)) ?l = ?l\<lparr>d_operation := op_name (a_op A)\<rparr>" for I op0
    using assms by (intro set_operation_plain) (simp_all add: idle_def loaded_def scalar_assignment_def)
  have f: "isNegated d = False" "d_info d = info" "isSrc1Array d = False" "isSrc2Array d = False" "d_destReg d = nullptr"
    "tmpPtrSrc1 d = nullptr" "tmpPtrSrc2 d = nullptr"
    "a_load1 A \<noteq> nullptr" "a_load2 A \<noteq> nullptr" "a_result A \<notin> set (combinedIterators info)" "\<not> isLoopBody info (a_block A)"
    using assms by (simp_all add: idle_def scalar_assignment_def)
  let ?I = "\<lparr>i_addr = a_result A, i_parent = a_block A,
        i_kind = BinaryOperator (a_op A) (register (a_load1 A)) (register (a_load2 A))\<rparr>"
  let ?u = "two_operand (register (a_load1 A)) (register (a_load2 A)) (?l\<lparr>d_operation := op_name (a_op A)\<rparr>)"
  have lf: "d_info ?l = info" "d_destReg ?l = nullptr" "isNegated ?l = False" by (simp_all add: loaded_def f)
  have "detect_step ?I ?l = Inr (insert_collected ?I ?u)"
    using op f lf by (simp add: detect_step_def isValidInst_def detect_binary_def so Let_def
        handleInstructionInserting_def)
  moreover have u: "?u = ?l\<lparr>d_operation := op_name (a_op A), d_srcReg1Type := singleVariable,
      d_srcReg2Type := singleVariable, tmpPtrDest := nullptr\<rparr>"
    by (rule detector.equality) (simp_all add: two_operand_def is_const_def setRegType_def operand_type_of_def loaded_def Let_def f)
  have "insert_collected ?I ?u = operated A \<sigma> d"
    unfolding u by (rule detector.equality)
      (simp_all add: insert_collected_def Let_def operated_def loaded_def is_array_type_def assignment_table_def
        assignment_data_def f)
  ultimately show ?thesis by simp
qed

lemma set_last_used_real:
  assumes "sm_inv (d_lastUsedRegMap d)"
  shows "getRealSrcReg w (set_last_used v d) = (if w = v then d_destReg d else getRealSrcReg w d) \<and>
    sm_inv (d_lastUsedRegMap (set_last_used v d))"
  using assms
  by (auto simp: getRealSrcReg_def set_last_used_def sm_find_insert sm_find_modify split: option.splits)

text \<open>The store changes the destination's type and pointer only.\<close>

definition core :: "instructionData \<Rightarrow> string \<times> string list \<times> ptr \<times> ptr \<times> operandType \<times> operandType" where
  "core d = (operation d, specifications d, sourceReg1 d, sourceReg2 d, srcReg1Type d, srcReg2Type d)"

definition same_but_dest :: "instructionTable \<Rightarrow> instructionTable \<Rightarrow> bool" where
  "same_but_dest it it' \<longleftrightarrow> instructionOrderVector it' = instructionOrderVector it \<and> (it_inv it \<longrightarrow> it_inv it') \<and>
     (\<forall>k. map_option core (sm_find (instructionMap it') k) = map_option core (sm_find (instructionMap it) k))"

lemma set_dest_same: "same_but_dest (d_IM d) (d_IM (set_dest b r d))"
  by (auto simp: same_but_dest_def set_dest_def Let_def modifyGivenField_def sm_find_modify set_field_def core_def[abs_def]
      it_inv_def sm.dom_modify option.map_comp comp_def split: option.splits)

lemma detect_store:
  assumes "idle info \<sigma> d" "scalar_assignment info A" "it_inv (d_IM d)"
    and "sm_find (instructionMap (d_IM d)) (a_result A) = None" "a_result A \<noteq> a_left A" "a_result A \<noteq> a_right A"
  shows "\<exists>d'. detect_step \<lparr>i_addr = nullptr, i_parent = a_block A,
        i_kind = StoreInst (register (a_result A)) (register (a_dest A))\<rparr> (operated A \<sigma> d) = Inr d' \<and>
      idle info (\<sigma>(a_dest A := a_result A)) d' \<and>
      same_but_dest (assignment_table A (\<sigma> (a_left A)) (\<sigma> (a_right A)) (d_IM d)) (d_IM d')"
proof -
  let ?o = "operated A \<sigma> d"
  have op: "op_name (a_op A) \<noteq> ''null''" by (cases "a_op A") simp_all
  have "sm_find (instructionMap (d_IM ?o)) (a_result A) = Some (assignment_data (op_name (a_op A)) (a_result A) (\<sigma> (a_left A)) (\<sigma> (a_right A)))"
    using assignment_table_find[OF assms(3-6)] by (simp add: operated_def)
  then have "store_accumulation False ?o = Inr ?o"
    by (simp add: store_accumulation_def operated_def assignment_data_def)
  then obtain u where u: "u = ?o \<or> u = set_dest False (a_result A) ?o"
    "detect_step \<lparr>i_addr = nullptr, i_parent = a_block A,
        i_kind = StoreInst (register (a_result A)) (register (a_dest A))\<rparr> ?o = Inr (reset_collected (set_last_used (a_dest A) u))"
    using assms(1,2) op
    by (cases "a_right A = a_dest A")
      (auto simp: detect_step_def isValidInst_def handleStoreInstruction_def operated_def idle_def scalar_assignment_def
        scalar_variable_def Let_def)
  let ?d' = "reset_collected (set_last_used (a_dest A) u)"
  have same: "same_but_dest (d_IM ?o) (d_IM u)"
    using u(1) set_dest_same[of ?o False "a_result A"] by (auto simp: same_but_dest_def)
  have fields: "d_info u = d_info d" "d_lastUsedRegMap u = d_lastUsedRegMap d" "isNegated u = isNegated d" "d_destReg u = a_result A"
    using u(1) by (auto simp: operated_def set_dest_def Let_def)
  have real: "getRealSrcReg v u = \<sigma> v" for v
    using assms(1) fields(2) by (auto simp: idle_def getRealSrcReg_def)
  have "sm_inv (d_lastUsedRegMap u)" using assms(1) fields(2) by (simp add: idle_def)
  note last = set_last_used_real[OF this]
  have reset: "d_lastUsedRegMap (reset_collected w) = d_lastUsedRegMap w" "getRealSrcReg v (reset_collected w) = getRealSrcReg v w" for v w
    by (simp_all add: reset_collected_def getRealSrcReg_def)
  have "idle info (\<sigma>(a_dest A := a_result A)) ?d'"
    using assms(1) last fields real unfolding idle_def reset
    by (simp add: reset_collected_def set_last_used_def fun_upd_def)
  moreover have "d_IM ?d' = d_IM u" by (simp add: reset_collected_def set_last_used_def)
  ultimately show ?thesis using u(2) same by (auto simp: operated_def)
qed

lemma detect_assignment:
  assumes "idle info \<sigma> d" "scalar_assignment info A" "it_inv (d_IM d)"
    and "sm_find (instructionMap (d_IM d)) (a_result A) = None" "a_result A \<noteq> a_left A" "a_result A \<noteq> a_right A"
  shows "\<exists>d'. efold detect_step (lower A) d = Inr d' \<and> idle info (\<sigma>(a_dest A := a_result A)) d' \<and>
      same_but_dest (assignment_table A (\<sigma> (a_left A)) (\<sigma> (a_right A)) (d_IM d)) (d_IM d')"
proof -
  have loads: "efold detect_step (take 2 (lower A)) d = Inr (loaded (a_left A) (a_right A) \<sigma> d)"
    using detect_loads[OF assms(1), of "a_left A" "a_right A"] assms(2)
    by (simp add: lower_def scalar_assignment_def numeral_2_eq_2)
  have "lower A = take 2 (lower A) @ drop 2 (lower A)" by simp
  moreover have "efold detect_step (drop 2 (lower A)) (loaded (a_left A) (a_right A) \<sigma> d) =
      detect_step \<lparr>i_addr = nullptr, i_parent = a_block A,
        i_kind = StoreInst (register (a_result A)) (register (a_dest A))\<rparr> (operated A \<sigma> d)"
    using detect_operation[OF assms(1,2)] by (simp add: lower_def numeral_2_eq_2 ebind_efold_Nil del: efold.simps(1))
  ultimately have "efold detect_step (lower A) d = detect_step \<lparr>i_addr = nullptr, i_parent = a_block A,
        i_kind = StoreInst (register (a_result A)) (register (a_dest A))\<rparr> (operated A \<sigma> d)"
    using loads by (metis efold_append ebind_simps(2))
  then show ?thesis using detect_store[OF assms] by simp
qed

section \<open>The table of a program\<close>

definition entry_of :: "instructionTable \<Rightarrow> value_def \<Rightarrow> bool" where
  "entry_of it = (\<lambda>(r, op, x, y). \<exists>data. sm_find (instructionMap it) r = Some data \<and>
     operation data = op \<and> specifications data = [] \<and> sourceReg1 data = x \<and> sourceReg2 data = y \<and>
     srcReg1Type data = singleVariable \<and> srcReg2Type data = singleVariable)"

definition load_entry :: "instructionTable \<Rightarrow> ptr \<Rightarrow> bool" where
  "load_entry it v \<longleftrightarrow> (\<exists>data. sm_find (instructionMap it) v = Some data \<and> operation data = ''load'')"

definition load_keys :: "instructionTable \<Rightarrow> ptr list" where
  "load_keys it = map fst (filter (\<lambda>p. snd p = ''load'') (instructionOrderVector it))"

text \<open>The table holds loads of variables and the definitions \<open>q\<close>, in this order.\<close>

definition holds :: "instructionTable \<Rightarrow> value_def list \<Rightarrow> bool" where
  "holds it q \<longleftrightarrow> it_inv it \<and> other_entries it = map (\<lambda>e. (fst e, fst (snd e))) q \<and>
     distinct (load_keys it) \<and> (\<forall>v \<in> set (load_keys it). load_entry it v) \<and> list_all (entry_of it) q \<and>
     dom (sm_find (instructionMap it)) = set (load_keys it) \<union> fst ` set q"

lemma entry_of_core:
  "entry_of it (r, op, x, y) =
     (map_option core (sm_find (instructionMap it) r) = Some (op, [], x, y, singleVariable, singleVariable))"
  by (auto simp: entry_of_def core_def)

lemma load_entry_core: "load_entry it v = (map_option (fst \<circ> core) (sm_find (instructionMap it) v) = Some ''load'')"
  by (auto simp: load_entry_def core_def)

lemma dom_core: "dom (sm_find m) = {k. map_option core (sm_find m k) \<noteq> None}"
  by auto

lemma holds_same:
  assumes "same_but_dest it it'" "holds it q"
  shows "holds it' q"
proof -
  have core: "map_option core (sm_find (instructionMap it') k) = map_option core (sm_find (instructionMap it) k)" for k
    using assms(1) by (simp add: same_but_dest_def)
  have "entry_of it' e = entry_of it e" for e by (cases e) (simp only: entry_of_core core)
  moreover have "load_entry it' v = load_entry it v" for v
    unfolding load_entry_core option.map_comp[symmetric] core ..
  moreover have "dom (sm_find (instructionMap it')) = dom (sm_find (instructionMap it))"
    unfolding dom_core core ..
  moreover have "load_keys it' = load_keys it" "other_entries it' = other_entries it" "it_inv it \<Longrightarrow> it_inv it'"
    using assms(1) by (simp_all add: same_but_dest_def load_keys_def other_entries_def)
  ultimately show ?thesis using assms(2) by (simp add: holds_def list_all_iff)
qed

lemma holds_load:
  assumes "holds it q" "v \<notin> fst ` set q"
  shows "holds (insertLoadInstruction v singleVariable it) q \<and>
    set (load_keys (insertLoadInstruction v singleVariable it)) = {v} \<union> set (load_keys it)"
proof -
  let ?it = "insertLoadInstruction v singleVariable it"
  have inv: "it_inv it" using assms(1) by (simp add: holds_def)
  show ?thesis
  proof (cases "v \<in> set (load_keys it)")
    case True
    then have "sm_find (instructionMap it) v \<noteq> None" using assms(1) by (auto simp: holds_def load_entry_def)
    then have "?it = it" unfolding insertLoadInstruction_def by (simp only: if_False)
    then show ?thesis using assms(1) True by auto
  next
    case False
    then have "v \<notin> dom (sm_find (instructionMap it))" using assms by (simp add: holds_def)
    then have none: "sm_find (instructionMap it) v = None" by auto
    have keys: "load_keys ?it = load_keys it @ [v]" using none by (simp add: load_keys_def insertLoadInstruction_def)
    have find: "sm_find (instructionMap ?it) q = (if q = v then Some (load_data v singleVariable) else sm_find (instructionMap it) q)" for q
      using insertLoad_find[OF inv] none by simp
    have "dom (sm_find (instructionMap ?it)) = {v} \<union> dom (sm_find (instructionMap it))" by (auto simp: find split: if_splits)
    moreover have "load_entry ?it w" if "w \<in> set (load_keys ?it)" for w
      using that assms(1) keys False by (auto simp: load_entry_def find load_data_def holds_def)
    moreover have "entry_of ?it e" if "entry_of it e" "e \<in> set q" for e
      using that assms(2) by (cases e) (force simp: entry_of_def find)
    ultimately show ?thesis
      using assms(1) keys False insertLoad_inv[OF inv]
      by (auto simp: holds_def list_all_iff)
  qed
qed

lemma holds_assignment:
  assumes "holds it q" "{a_left A, a_right A} \<inter> fst ` set q = {}"
    and "a_result A \<notin> dom (sm_find (instructionMap it))" "a_result A \<noteq> a_left A" "a_result A \<noteq> a_right A"
  shows "holds (assignment_table A x y it) (q @ [(a_result A, op_name (a_op A), x, y)]) \<and>
    set (load_keys (assignment_table A x y it)) = {a_left A, a_right A} \<union> set (load_keys it)"
proof -
  let ?l = "insertLoadInstruction (a_left A) singleVariable it"
  let ?it = "insertLoadInstruction (a_right A) singleVariable ?l"
  let ?d = "assignment_data (op_name (a_op A)) (a_result A) x y"
  have "a_left A \<notin> fst ` set q" "a_right A \<notin> fst ` set q" using assms(2) by auto
  note l = holds_load[OF assms(1) this(1)] and r = holds_load[OF conjunct1[OF holds_load[OF assms(1) this(1)]] this(2)]
  have it: "holds ?it q" "set (load_keys ?it) = {a_left A, a_right A} \<union> set (load_keys it)" using l r by auto
  have inv: "it_inv ?it" using it(1) by (simp add: holds_def)
  have op: "op_name (a_op A) \<noteq> ''load''" by (cases "a_op A") simp_all
  have fresh: "a_result A \<notin> dom (sm_find (instructionMap ?it))"
    using it assms(1,3-5) by (auto simp: holds_def)
  then have none: "sm_find (instructionMap ?it) (a_result A) = None" by auto
  have new: "?d\<lparr>specifications := []\<rparr> = ?d" "destinationReg ?d = a_result A" "operation ?d = op_name (a_op A)"
    by (simp_all add: assignment_data_def)
  let ?t = "assignment_table A x y it"
  have t: "?t = insertInstruction ?d ?it" by (simp add: assignment_table_def)
  have find: "sm_find (instructionMap ?t) k = (if k = a_result A then Some ?d else sm_find (instructionMap ?it) k)" for k
    using none it_invD[OF inv] by (simp add: t insertInstruction_def new sm_find_insert)
  have keys: "load_keys ?t = load_keys ?it" using op by (simp add: t load_keys_def insertInstruction_def new)
  have others: "other_entries ?t = other_entries ?it @ [(a_result A, op_name (a_op A))]"
    using op by (simp add: t other_entries_def insertInstruction_def new)
  have "it_inv ?t" using it_apply_inv[OF inv, of "Op_insert ?d"] by (simp add: t)
  moreover have "dom (sm_find (instructionMap ?t)) = {a_result A} \<union> dom (sm_find (instructionMap ?it))"
    by (auto simp: find split: if_splits)
  moreover have "load_entry ?t v" if "v \<in> set (load_keys ?it)" for v
    using that it(1) fresh by (auto simp: holds_def load_entry_def find)
  moreover have "entry_of ?t e" if "e \<in> set q" for e
  proof -
    have "entry_of ?it e" "fst e \<in> dom (sm_find (instructionMap ?it))" using that it(1) by (auto simp: holds_def list_all_iff)
    then show ?thesis using fresh by (cases e) (auto simp: entry_of_def find)
  qed
  moreover have "entry_of ?t (a_result A, op_name (a_op A), x, y)" by (simp add: entry_of_def find assignment_data_def)
  ultimately show ?thesis
    using it keys others unfolding holds_def by (auto simp: list_all_iff)
qed

section \<open>The detector on a program\<close>

lemma detect_program:
  assumes "idle info \<sigma> d" "holds (d_IM d) q" "list_all (scalar_assignment info) prog" "distinct (map a_result prog)"
    and "a_result ` set prog \<inter> (V \<union> fst ` set q) = {}" "program_variables prog \<subseteq> V"
    and "set (load_keys (d_IM d)) \<subseteq> V" "fst ` set q \<inter> V = {}"
  shows "\<exists>d'. efold detect_step (concat (map lower prog)) d = Inr d' \<and> holds (d_IM d') (q @ resolve \<sigma> prog) \<and>
    set (load_keys (d_IM d')) = set (load_keys (d_IM d)) \<union> (\<Union>A \<in> set prog. {a_left A, a_right A})"
  using assms
proof (induction prog arbitrary: \<sigma> d q)
  case (Cons A As)
  have V: "a_left A \<in> V" "a_right A \<in> V" "program_variables As \<subseteq> V"
    using Cons.prems(6) by (auto simp: program_variables_def)
  have r: "a_result A \<notin> V" "a_result A \<notin> fst ` set q" using Cons.prems(5) by auto
  have dom: "a_result A \<notin> dom (sm_find (instructionMap (d_IM d)))"
    using r Cons.prems(2,7) by (auto simp: holds_def)
  have ne: "a_result A \<noteq> a_left A" "a_result A \<noteq> a_right A" using r V by auto
  have inv: "it_inv (d_IM d)" using Cons.prems(2) by (simp add: holds_def)
  have A: "scalar_assignment info A" using Cons.prems(3) by simp
  have none: "sm_find (instructionMap (d_IM d)) (a_result A) = None" using dom by auto
  let ?t = "assignment_table A (\<sigma> (a_left A)) (\<sigma> (a_right A)) (d_IM d)" and
    ?e = "(a_result A, op_name (a_op A), \<sigma> (a_left A), \<sigma> (a_right A))"
  obtain u where u: "efold detect_step (lower A) d = Inr u" "idle info (\<sigma>(a_dest A := a_result A)) u" "same_but_dest ?t (d_IM u)"
    using detect_assignment[OF Cons.prems(1) A inv none ne] by blast
  have "{a_left A, a_right A} \<inter> fst ` set q = {}" using V Cons.prems(8) by auto
  note t = holds_assignment[OF Cons.prems(2) this dom ne, of "\<sigma> (a_left A)" "\<sigma> (a_right A)"]
  have holds: "holds (d_IM u) (q @ [?e])" using holds_same[OF u(3)] t by blast
  have keys: "set (load_keys (d_IM u)) = {a_left A, a_right A} \<union> set (load_keys (d_IM d))"
    using t u(3) by (simp add: same_but_dest_def load_keys_def)
  have As: "list_all (scalar_assignment info) As" "distinct (map a_result As)" using Cons.prems(3,4) by simp_all
  have "a_result ` set As \<inter> (V \<union> fst ` set (q @ [?e])) = {}" using Cons.prems(4,5) by auto
  moreover have "set (load_keys (d_IM u)) \<subseteq> V" using keys V Cons.prems(7) by auto
  moreover have "fst ` set (q @ [?e]) \<inter> V = {}" using r Cons.prems(8) by auto
  ultimately obtain d' where "efold detect_step (concat (map lower As)) u = Inr d'"
    "holds (d_IM d') ((q @ [?e]) @ resolve (\<sigma>(a_dest A := a_result A)) As)"
    "set (load_keys (d_IM d')) = set (load_keys (d_IM u)) \<union> (\<Union>A \<in> set As. {a_left A, a_right A})"
    using Cons.IH[OF u(2) holds As(1,2) _ V(3)] by blast
  then show ?case using u(1) keys by auto
qed simp

section \<open>Scheduling\<close>

lemma schedule_total:
  assumes "it_inv it" "\<forall>(k, d) \<in> set (instructionMap it). live_sources d \<subseteq> dom (sm_find (instructionMap it))"
  shows "\<exists>it'. scheduleFunction it = Inr it' \<and>
    (\<forall>k. map_option core (sm_find (instructionMap it') k) = map_option core (sm_find (instructionMap it) k)) \<and>
    instructionOrderVector it' = instructionOrderVector (reorderInstructionVector it) \<and>
    (\<forall>k d. sm_find (instructionMap it') k = Some d \<longrightarrow> operation d = ''load'' \<longrightarrow> ti d = 0)"
proof -
  have dom: "dom (it_time it) = dom (sm_find (instructionMap it))" by (auto simp: it_time_def)
  have "\<exists>u. efold asap_step jobs it = Inr u \<and> dom (it_time u) = dom (it_time it)"
    if "\<forall>(k, d) \<in> set jobs. live_sources d \<subseteq> dom (it_time it)" for jobs
    using that
  proof (induction jobs rule: rev_induct)
    case (snoc j jobs)
    obtain k d where j: "j = (k, d)" by (cases j)
    obtain u where u: "efold asap_step jobs it = Inr u" "dom (it_time u) = dom (it_time it)" using snoc by auto
    have "live_sources d \<subseteq> dom (it_time u)" using snoc.prems u(2) j by simp
    then obtain t where "start_time d u = Inr t" using start_time_total by blast
    then show ?case using u j by (simp add: asap_step_start it_times.dom_set_time)
  qed simp
  then obtain u where u: "efold asap_step (instructionMap it) it = Inr u" using assms(2) unfolding dom by blast
  have untimed: "map_option core m' = map_option core m" if "map_option untimed m' = map_option untimed m" for m m'
  proof -
    have "core (untimed d) = core d" for d by (simp add: core_def untimed_def)
    then have "core = core \<circ> untimed" by auto
    then show ?thesis using that by (metis option.map_comp)
  qed
  have "instructionOrderVector (reorderInstructionVector u) = instructionOrderVector (reorderInstructionVector it)"
    using asap_run_untimed[OF u] by (simp add: reorderInstructionVector_def)
  moreover have "ti d' = 0" if d': "sm_find (instructionMap u) k = Some d'" "operation d' = ''load''" for k d'
  proof -
    have "map_option untimed (sm_find (instructionMap it) k) = Some (untimed d')"
      using asap_run_untimed[OF u] d'(1) by (metis option.simps(9))
    then obtain d where d: "sm_find (instructionMap it) k = Some d" "untimed d = untimed d'" by auto
    have "operation (untimed x) = operation x" for x by (simp add: untimed_def)
    then have "operation d = ''load''" using d'(2) arg_cong[OF d(2), of operation] by simp
    moreover have "sm_inv (instructionMap it)" using it_invD[OF assms(1)] .
    moreover have "(k, d) \<in> set (instructionMap it)" using d(1) calculation(2) by (simp add: sm.entries_iff)
    moreover have "k \<in> dom (it_time it)" using d(1) unfolding dom by blast
    moreover have "distinct (map fst (instructionMap it))" using sm.distinct_entries[OF calculation(2)] .
    ultimately have "it_time u k = Some (0, 0)" using asap_loads[OF u] by blast
    then show ?thesis using d'(1) by (simp add: it_time_def)
  qed
  ultimately show ?thesis
    using u untimed[OF spec[OF conjunct1[OF asap_run_untimed[OF u]]]]
    by (intro exI[of _ "reorderInstructionVector u"]) (simp add: scheduleFunction_def)
qed

section \<open>The scheduled table is straight-line code\<close>

fun known :: "ptr set \<Rightarrow> value_def list \<Rightarrow> bool" where
  "known D [] = True"
| "known D ((r, op, x, y) # q) = (r \<notin> D \<and> x \<in> D \<and> y \<in> D \<and> known (insert r D) q)"

lemma straight_line_loads:
  "(\<And>v. v \<in> set ls \<Longrightarrow> load_entry it v \<and> \<not> isArray info v) \<Longrightarrow> distinct ls \<Longrightarrow> set ls \<inter> D = {} \<Longrightarrow>
   straight_line info it (D \<union> set ls) U es \<Longrightarrow>
   straight_line info it D U (map (\<lambda>v. (v, ''load'')) ls @ es)"
proof (induction ls arbitrary: D)
  case (Cons v ls)
  obtain d where d: "sm_find (instructionMap it) v = Some d" "operation d = ''load''"
    using Cons.prems(1)[of v] by (auto simp: load_entry_def)
  have "straight_line info it (insert v D) U (map (\<lambda>v. (v, ''load'')) ls @ es)"
    using Cons.prems by (intro Cons.IH) auto
  then show ?case using d Cons.prems(1)[of v] Cons.prems(3) by auto
qed simp

definition binder_op :: "string \<Rightarrow> bool" where
  "binder_op op \<longleftrightarrow> is_lim_operation op \<and> op \<noteq> ''load'' \<and> \<not> is_shift op"

lemma parallel_op_binder: "parallel_op oc \<Longrightarrow> binder_op (op_name oc)"
  by (cases oc) (simp_all add: parallel_op_def binder_op_def is_lim_operation_def LimOperations_def is_shift_def)

lemma straight_line_defs:
  "list_all (entry_of it) q \<Longrightarrow> list_all (\<lambda>(r, op, x, y). binder_op op) q \<Longrightarrow> known D q \<Longrightarrow> linear U q \<Longrightarrow>
   straight_line info it D U (map (\<lambda>e. (fst e, fst (snd e))) q)"
proof (induction q arbitrary: D U)
  case (Cons e q)
  obtain r op x y where e: "e = (r, op, x, y)" by (cases e)
  obtain d where d: "sm_find (instructionMap it) r = Some d" "operation d = op" "specifications d = []" "sourceReg1 d = x"
    "sourceReg2 d = y" "srcReg1Type d = singleVariable" "srcReg2Type d = singleVariable"
    using Cons.prems(1) by (auto simp: e entry_of_def)
  have op: "scalar_operation d" "operation d \<noteq> ''load''"
    using Cons.prems(2) d by (auto simp: e scalar_operation_def binder_op_def)
  have "straight_line info it (insert r D) ({x, y} \<union> U) (map (\<lambda>e. (fst e, fst (snd e))) q)"
    using Cons.prems by (intro Cons.IH) (auto simp: e)
  then show ?case using Cons.prems(3,4) d(1,4,5) op by (simp add: e)
qed simp

lemma resolve_known:
  "distinct (map a_result prog) \<Longrightarrow> a_result ` set prog \<inter> D = {} \<Longrightarrow>
   (\<And>A v. A \<in> set prog \<Longrightarrow> v \<in> {a_left A, a_right A} \<Longrightarrow> \<sigma> v \<in> D) \<Longrightarrow> known D (resolve \<sigma> prog)"
proof (induction prog arbitrary: D \<sigma>)
  case (Cons A As)
  have "known (insert (a_result A) D) (resolve (\<sigma>(a_dest A := a_result A)) As)"
  proof (rule Cons.IH)
    show "a_result ` set As \<inter> insert (a_result A) D = {}" using Cons.prems(1,2) by auto
    show "(\<sigma>(a_dest A := a_result A)) v \<in> insert (a_result A) D" if "B \<in> set As" "v \<in> {a_left B, a_right B}" for B v
      using that Cons.prems(3)[of B v] by auto
  qed (use Cons.prems(1) in simp)
  then show ?case using Cons.prems(2) Cons.prems(3)[of A] by auto
qed simp

lemma resolve_ops: "list_all (scalar_assignment info) prog \<Longrightarrow> list_all (\<lambda>(r, op, x, y). binder_op op) (resolve \<sigma> prog)"
  by (induction prog arbitrary: \<sigma>) (auto simp: scalar_assignment_def parallel_op_binder)

lemma resolve_results: "map fst (resolve \<sigma> prog) = map a_result prog"
  by (induction prog arbitrary: \<sigma>) auto

lemma known_sources: "known D q \<Longrightarrow> (r, op, x, y) \<in> set q \<Longrightarrow> x \<in> D \<union> fst ` set q \<and> y \<in> D \<union> fst ` set q"
  by (induction D q rule: known.induct) auto

lemma resolve_heads: "map (\<lambda>e. (fst e, fst (snd e))) (resolve \<sigma> prog) = map (\<lambda>A. (a_result A, op_name (a_op A))) prog"
  by (induction prog arbitrary: \<sigma>) auto

text \<open>What the detector leaves behind.\<close>

lemma program_detected:
  assumes "scalar_program info prog"
  obtains d where "efold detect_step (concat (map lower prog)) (detector_start raw info) = Inr d"
    "holds (d_IM d) (resolve id prog)" "set (load_keys (d_IM d)) = (\<Union>A \<in> set prog. {a_left A, a_right A})"
proof -
  let ?d = "detector_start raw info"
  have P: "list_all (scalar_assignment info) prog" "distinct (map a_result prog)"
    "a_result ` set prog \<inter> (program_variables prog \<union> fst ` set []) = {}"
    using assms by (simp_all add: scalar_program_def)
  have idle: "idle info id ?d" by (simp add: idle_def detector_start_def getRealSrcReg_def)
  have empty: "holds (d_IM ?d) []" "load_keys (d_IM ?d) = []"
    by (simp_all add: detector_start_def holds_def other_entries_def load_keys_def empty_IT_def it_inv_def fun_eq_iff sm_find_def)
  show thesis using that detect_program[OF idle empty(1) P order.refl] empty(2) by auto
qed

lemma holds_order:
  assumes "holds it q"
  shows "instructionOrderVector (reorderInstructionVector it) =
    map (\<lambda>v. (v, ''load'')) (load_keys it) @ map (\<lambda>e. (fst e, fst (snd e))) q"
proof -
  have loads_only: "filter (\<lambda>p. snd p = ''load'') l = map (\<lambda>v. (v, ''load'')) (map fst (filter (\<lambda>p. snd p = ''load'') l))"
    for l :: "(ptr \<times> string) list" by (induction l) auto
  have others: "filter (\<lambda>p. snd p \<noteq> ''load'') (instructionOrderVector it) = map (\<lambda>e. (fst e, fst (snd e))) q"
    using assms by (simp add: holds_def other_entries_def)
  show ?thesis unfolding load_keys_def reorderInstructionVector_def
    by (simp add: others loads_only[of "instructionOrderVector it", symmetric] del: map_map)
qed

text \<open>The table that reaches the binder.\<close>

lemma program_table:
  assumes "scalar_program info prog" "linear {} (resolve id prog)" "prog \<noteq> []"
  obtains graph it ls where "detectDependencies raw info [concat (map lower prog)] = Inr graph"
    "scheduleFunction graph = Inr it" "straight_line info it {} {} (instructionOrderVector it)"
    "instructionOrderVector it \<noteq> []" "list_all (entry_of it) (resolve id prog)"
    "a_result ` set prog \<subseteq> fst ` set (instructionOrderVector it)"
    "instructionOrderVector it = map (\<lambda>v. (v, ''load'')) ls @ map (\<lambda>e. (fst e, fst (snd e))) (resolve id prog)"
    "distinct ls" "set ls = (\<Union>A \<in> set prog. {a_left A, a_right A})" "\<forall>v \<in> set ls. load_entry it v"
    "\<forall>k d. sm_find (instructionMap it) k = Some d \<longrightarrow> operation d = ''load'' \<longrightarrow> ti d = 0"
proof -
  let ?q = "resolve id prog" and ?d = "detector_start raw info"
  have P: "list_all (scalar_assignment info) prog" "distinct (map a_result prog)"
    "a_result ` set prog \<inter> (program_variables prog \<union> fst ` set []) = {}"
    using assms(1) by (simp_all add: scalar_program_def)
  obtain d where d: "efold detect_step (concat (map lower prog)) ?d = Inr d" "holds (d_IM d) ?q"
    "set (load_keys (d_IM d)) = (\<Union>A \<in> set prog. {a_left A, a_right A})"
    by (rule program_detected[OF assms(1)])
  let ?L = "load_keys (d_IM d)"
  have known: "known (set ?L) ?q"
    by (rule resolve_known[OF P(2)]) (use P(3) d(3) in \<open>auto simp: program_variables_def\<close>)
  have results: "fst ` set ?q = a_result ` set prog" using arg_cong[OF resolve_results[of id prog], of set] by auto
  let ?g = "reorderInstructionVector (d_IM d)"
  have graph: "detectDependencies raw info [concat (map lower prog)] = Inr ?g"
    using d(1) by (simp add: detectDependencies_def)
  have inv: "it_inv (d_IM d)" and dom: "dom (sm_find (instructionMap (d_IM d))) = set ?L \<union> fst ` set ?q"
    using d(2) by (simp_all add: holds_def)
  have "live_sources data \<subseteq> dom (sm_find (instructionMap (d_IM d)))" if "(k, data) \<in> set (instructionMap (d_IM d))" for k data
  proof -
    have find: "sm_find (instructionMap (d_IM d)) k = Some data" using that sm.entries_iff[OF it_invD[OF inv]] by simp
    then consider "k \<in> set ?L" | "k \<in> fst ` set ?q" using dom by blast
    then show ?thesis
    proof cases
      case 1
      then have "operation data = ''load''" using d(2) find by (auto simp: holds_def load_entry_def)
      then show ?thesis by (simp add: live_sources_def)
    next
      case 2
      then obtain op x y where e: "(k, op, x, y) \<in> set ?q" by auto
      then have "entry_of (d_IM d) (k, op, x, y)" using d(2) by (auto simp: holds_def list_all_iff)
      then have "sourceReg1 data = x" "sourceReg2 data = y" using find by (auto simp: entry_of_def)
      then show ?thesis using known_sources[OF known e] dom by (auto simp: live_sources_def)
    qed
  qed
  then have closed: "\<forall>(k, data) \<in> set (instructionMap (d_IM d)). live_sources data \<subseteq> dom (sm_find (instructionMap (d_IM d)))"
    by blast
  obtain it where it: "scheduleFunction ?g = Inr it"
    "\<And>k. map_option core (sm_find (instructionMap it) k) = map_option core (sm_find (instructionMap (d_IM d)) k)"
    "instructionOrderVector it = instructionOrderVector (reorderInstructionVector ?g)"
    "\<forall>k d. sm_find (instructionMap it) k = Some d \<longrightarrow> operation d = ''load'' \<longrightarrow> ti d = 0"
    using schedule_total[of ?g] it_inv_reorder[OF inv] closed by auto
  have order: "instructionOrderVector it = map (\<lambda>v. (v, ''load'')) ?L @ map (\<lambda>e. (fst e, fst (snd e))) ?q"
    unfolding it(3) holds_order[OF d(2), symmetric] by (simp add: reorderInstructionVector_def)
  have entries: "entry_of it e = entry_of (d_IM d) e" for e by (cases e) (simp only: entry_of_core it(2))
  have loads: "load_entry it v = load_entry (d_IM d) v" for v
    unfolding load_entry_core option.map_comp[symmetric] it(2) ..
  have q: "list_all (entry_of it) ?q" using d(2) entries by (simp add: holds_def list_all_iff)
  have "straight_line info it (set ?L) {} (map (\<lambda>e. (fst e, fst (snd e))) ?q)"
    by (rule straight_line_defs[OF q resolve_ops[OF P(1)] known assms(2)])
  moreover have le: "load_entry it v \<and> \<not> isArray info v" if "v \<in> set ?L" for v
    using that d(2,3) P(1) loads by (auto simp: holds_def list_all_iff scalar_assignment_def scalar_variable_def)
  moreover have dist: "distinct ?L" using d(2) by (simp add: holds_def)
  ultimately have "straight_line info it {} {} (instructionOrderVector it)"
    unfolding order by (intro straight_line_loads) auto
  moreover have "a_result ` set prog \<subseteq> fst ` set (instructionOrderVector it)"
    unfolding order by (simp add: results[symmetric] image_Un image_image)
  moreover have "instructionOrderVector it \<noteq> []" using calculation(2) assms(3) by auto
  ultimately show thesis using that[OF graph it(1) _ _ q _ order dist d(3) _ it(4)] le by blast
qed

text \<open>
  A binder whose array computes the values: the row of a result stores the output of a LiM row of the
  operation that is fed by the rows of the operands, and is written after both.
\<close>

definition implements :: "value_def list \<Rightarrow> (ptr \<Rightarrow> ptr) \<Rightarrow> bindingOutput \<Rightarrow> bool" where
  "implements q R out \<longleftrightarrow> (\<forall>(r, op, x, y) \<in> set q. names_of (out_binder out) r = [R r] \<and>
     stores_result (b_MemArray (out_binder out)) op (R x) (R y) (R r) \<and>
     (\<exists>t1 t2 t. sm_find (FSM2 (b_FSMLim (out_binder out))) (R x) = Some t1 \<and>
        sm_find (FSM2 (b_FSMLim (out_binder out))) (R y) = Some t2 \<and>
        sm_find (FSM2 (b_FSMLim (out_binder out))) (R r) = Some t \<and> t1 < t \<and> t2 < t))"

text \<open>The composition of the parts.\<close>

lemma synthesise_compiles:
  assumes "scalar_program info prog" "linear {} (resolve id prog)" "prog \<noteq> []"
  shows "\<exists>out R. synthesise raw_d raw_b ''ASAP'' par target previous info [concat (map lower prog)] = Inr out \<and>
    inj_on R (a_result ` set prog) \<and>
    implements (resolve id prog) R out"
proof -
  obtain graph it where it: "detectDependencies raw_d info [concat (map lower prog)] = Inr graph"
    "scheduleFunction graph = Inr it" "straight_line info it {} {} (instructionOrderVector it)"
    "instructionOrderVector it \<noteq> []" "list_all (entry_of it) (resolve id prog)"
    "a_result ` set prog \<subseteq> fst ` set (instructionOrderVector it)"
    by (rule program_table[OF assms])
  obtain out R where out: "LiMBinder raw_b it info par target = Inr out"
    "inj_on R (fst ` set (instructionOrderVector it))"
    "\<forall>v \<in> fst ` set (instructionOrderVector it). names_of (out_binder out) v = [R v] \<and> wired it R (out_binder out) v"
    using straight_line_output[OF it(3,4)] by blast
  have "synthesise raw_d raw_b ''ASAP'' par target previous info [concat (map lower prog)] = Inr out"
    using it(1,2) out(1) by (simp add: synthesise_def)
  moreover have "inj_on R (a_result ` set prog)" using out(2) it(6) by (rule inj_on_subset)
  moreover have "names_of (out_binder out) r = [R r] \<and> stores_result (b_MemArray (out_binder out)) op (R x) (R y) (R r) \<and>
       (\<exists>t1 t2 t. sm_find (FSM2 (b_FSMLim (out_binder out))) (R x) = Some t1 \<and>
          sm_find (FSM2 (b_FSMLim (out_binder out))) (R y) = Some t2 \<and>
          sm_find (FSM2 (b_FSMLim (out_binder out))) (R r) = Some t \<and> t1 < t \<and> t2 < t)"
    if e: "(r, op, x, y) \<in> set (resolve id prog)" for r op x y
  proof -
    have "r \<in> fst ` set (resolve id prog)" using e by force
    then have "r \<in> fst ` set (instructionOrderVector it)"
      using it(6) arg_cong[OF resolve_results[of id prog], of set] by auto
    then have w: "names_of (out_binder out) r = [R r]" "wired it R (out_binder out) r" using out(3) by auto
    have "entry_of it (r, op, x, y)" using it(5) e by (auto simp: list_all_iff)
    moreover have "binder_op op"
      using resolve_ops[of info prog id] assms(1) e by (auto simp: scalar_program_def list_all_iff)
    ultimately show ?thesis
      using w by (auto simp: wired_def entry_of_def binder_op_def)
  qed
  ultimately show ?thesis by (intro exI[of _ out] exI[of _ R]) (auto simp: implements_def)
qed

section \<open>A sample program\<close>

text \<open>\<open>c = a & b; a = c ^ d\<close>, on variables at the addresses 100, 104, 108, 112.\<close>

definition sample_info :: collectInfo where
  "sample_info = blank_ci\<lparr>aliasInfoMap := [(100, []), (104, []), (108, []), (112, [])]\<rparr>"

definition sample_program :: "assignment list" where
  "sample_program =
     [\<lparr>a_dest = 108, a_left = 100, a_op = OpAnd, a_right = 104, a_load1 = 200, a_load2 = 204, a_result = 208, a_block = 8\<rparr>,
      \<lparr>a_dest = 100, a_left = 108, a_op = OpXor, a_right = 112, a_load1 = 212, a_load2 = 216, a_result = 220, a_block = 8\<rparr>]"

lemma sample_program_facts:
  "scalar_program sample_info sample_program" "linear {} (resolve id sample_program)" "sample_program \<noteq> []"
  by (simp_all add: scalar_program_def sample_program_def program_variables_def scalar_assignment_def parallel_op_def
      scalar_variable_def sample_info_def blank_ci_def getAllocatedReg_def isArray_def isLoopBody_def nullptr_def)

definition blank_detector :: detector where
  "blank_detector =
     \<lparr>d_IM = empty_IT, d_lastUsedRegMap = [], d_info = blank_ci, tmpAccumulationOp = 0, accumulationValidityCount = 0,
      tmpLogicOperatorDestReg = 0, d_srcReg1 = 0, d_srcReg2 = 0, tmpSrcReg2 = 0, d_destReg = 0,
      isSrc1Array = False, isSrc2Array = False, d_srcReg1Type = undefinedOperand, d_srcReg2Type = undefinedOperand,
      d_destRegType = undefinedOperand, tmpPtrSrc1 = 0, tmpPtrSrc2 = 0, tmpPtrDest = 0, loadCount = 0,
      d_operation = ''null'', isNegated = False\<rparr>"

text \<open>Witnesses on the detector.\<close>



text \<open>\<open>~a\<close> followed by the sum of two loaded values: the sum is lost.\<close>

theorem negation_drops_operators_witness:
  "\<exists>it. detectDependencies blank_detector sample_info
      [[], [\<lparr>i_addr = 204, i_parent = 8, i_kind = BinaryOperator OpXor (register 200) \<lparr>v_addr = 4, v_const = Some (-1)\<rparr>\<rparr>,
            \<lparr>i_addr = 208, i_parent = 8, i_kind = BinaryOperator OpAdd (register 100) (register 104)\<rparr>]] = Inr it \<and>
    other_entries it = []"
proof -
  let ?N = "\<lparr>i_addr = 204, i_parent = 8, i_kind = BinaryOperator OpXor (register 200) \<lparr>v_addr = 4, v_const = Some (-1)\<rparr>\<rparr>"
  let ?A = "\<lparr>i_addr = 208, i_parent = 8, i_kind = BinaryOperator OpAdd (register 100) (register 104)\<rparr>"
  have out: "\<exists>it. detectDependencies blank_detector sample_info [[], [?N, ?A]] = Inr it"
    by (simp add: detectDependencies_def detector_start_def detect_step_def isValidInst_def detect_binary_def
        set_operation_def negatable_def is_const_def Let_def sample_info_def blank_ci_def)
  then obtain it where it: "detectDependencies blank_detector sample_info [[], [?N, ?A]] = Inr it" ..
  have "other_entries it = other_entries (d_IM (detector_start blank_detector sample_info))"
  proof (rule negation_drops_operators[OF _ _ _ _ _ _ it])
    show "efold detect_step [] (detector_start blank_detector sample_info) =
        Inr (detector_start blank_detector sample_info)" by simp
    show "isValidInst sample_info ?N" by (simp add: isValidInst_def sample_info_def blank_ci_def)
    show "i_kind ?N = BinaryOperator OpXor (register 200) \<lparr>v_addr = 4, v_const = Some (-1)\<rparr>" by simp
    show "OpXor \<in> {OpXor, OpAnd, OpOr}" "v_const \<lparr>v_addr = 4, v_const = Some (-1)\<rparr> = Some (-1)" by simp_all
    show "list_all (leaves_negation (i_addr ?N)) [?A]" by (simp add: leaves_negation_def)
  qed
  then show ?thesis using it by (auto simp: detector_start_def other_entries_def empty_IT_def)
qed

theorem and_not_reads_uninitialised_witness:
  "\<exists>it data. detectDependencies (blank_detector\<lparr>tmpSrcReg2 := 77\<rparr>) sample_info
      [[\<lparr>i_addr = 200, i_parent = 8, i_kind = LoadInst (register 100)\<rparr>,
        \<lparr>i_addr = 204, i_parent = 8, i_kind = LoadInst (register 104)\<rparr>,
        \<lparr>i_addr = 208, i_parent = 8, i_kind = BinaryOperator OpXor (register 204) \<lparr>v_addr = 4, v_const = Some (-1)\<rparr>\<rparr>,
        \<lparr>i_addr = 212, i_parent = 8, i_kind = BinaryOperator OpAnd (register 200) (register 208)\<rparr>]] = Inr it \<and>
    sm_find (instructionMap it) 212 = Some data \<and> sourceReg2 data = 77"
proof -
  have "getAllocatedReg sample_info 100 = 100" "getAllocatedReg sample_info 104 = 104"
    "\<not> isArray sample_info 100" "\<not> isArray sample_info 104"
    "sm_find (iteratorsAliasMap sample_info) 100 = None" "sm_find (iteratorsAliasMap sample_info) 104 = None"
    "distinct [nullptr, 100, 104, 200, 204, 208, 212]"
    by (simp_all add: sample_info_def blank_ci_def getAllocatedReg_def isArray_def nullptr_def)
  from and_not_reads_uninitialised[OF this, of "blank_detector\<lparr>tmpSrcReg2 := 77\<rparr>" 8 4] show ?thesis
    by (elim exE conjE) (intro exI conjI, assumption, assumption, simp add: blank_detector_def)
qed

end
