(* ===== verification/Print_Config.thy ===== *)
theory Print_Config
  imports Std_Map Std_String "HOL-Library.List_Lexorder" "HOL-Library.Char_ord"
begin

text \<open>
  \<open>Parsers/PrintConfig\<close>: the configuration file. Its sections are the keys of a map
  (\<open>parsedData\<close>), the fields of a section the keys of a map in it, and a field has a list of values.
  A file is its content; the parser reads it line by line.
\<close>

section \<open>\<open>std::string\<close>\<close>

text \<open>Positions in a string are 64 bit wide; \<open>std::string::npos\<close> is the last of them.\<close>

definition npos :: nat where
  "npos = 2 ^ 64 - 1"

definition next_pos :: "nat \<Rightarrow> nat" where
  "next_pos p = (p + 1) mod 2 ^ 64"

definition str_find :: "string \<Rightarrow> char \<Rightarrow> nat \<Rightarrow> nat" where
  "str_find s c from =
     (let n = from + length (takeWhile (\<lambda>d. d \<noteq> c) (drop from s))
      in if from < length s \<and> n < length s then n else npos)"

definition str_substr :: "string \<Rightarrow> nat \<Rightarrow> nat \<Rightarrow> string res" where
  "str_substr s pos n =
     (if pos \<le> length s then Inr (take n (drop pos s)) else Inl (OutOfRange ''basic_string::substr''))"

definition newline :: char where
  "newline = CHR 0x0A"

fun getlines :: "string \<Rightarrow> string list" where
  "getlines [] = []"
| "getlines (c # s) =
     (if c = newline then [] # getlines s
      else case getlines s of [] \<Rightarrow> [[c]] | l # ls \<Rightarrow> (c # l) # ls)"

text \<open>The character at position 0, which is the terminating null character in an empty string.\<close>

definition starts :: "char \<Rightarrow> string \<Rightarrow> bool" where
  "starts c s \<longleftrightarrow> s \<noteq> [] \<and> hd s = c"

section \<open>Lists of values\<close>

text \<open>
  The loop of \<open>fieldListMaker\<close>, which is left when the position of a comma is 0 (the code compares
  it with \<open>NULL\<close>, not with \<open>npos\<close>). Not returning is the value \<open>None\<close>.
\<close>

partial_function (option) split_values :: "string \<Rightarrow> nat \<Rightarrow> nat \<Rightarrow> string list \<Rightarrow> string list res option" where
  "split_values fieldData currentPos commaPos tmpList =
     (if commaPos = 0 then Some (Inr tmpList)
      else case str_substr fieldData currentPos commaPos of
          Inl e \<Rightarrow> Some (Inl e)
        | Inr subValue \<Rightarrow>
            split_values fieldData (next_pos commaPos) (str_find fieldData (CHR '','') (next_pos commaPos))
              (tmpList @ [subValue]))"

definition fieldListMaker :: "string \<Rightarrow> string list res option" where
  "fieldListMaker fieldData =
     (if starts (CHR ''['') fieldData then
        (let fieldData = tl fieldData in
         if fieldData = [] then Some (Inl (UB ''pop_back of an empty string''))
         else let fieldData = butlast fieldData
              in split_values fieldData 0 (str_find fieldData (CHR '','') 0) [])
      else Some (Inr [fieldData]))"

section \<open>The parser\<close>

definition macroTypes :: "string list" where
  "macroTypes = [''MemoryType'', ''SynthesisProcess'', ''AdvancedLiMSettings'']"

definition fieldsMem :: "string list" where
  "fieldsMem = [''WordLength'', ''MaxDimension'']"

definition fieldsSyn :: "string list" where
  "fieldsSyn = [''AdoptedOptimizations'', ''SchedulingAlgorithm'', ''OptimizedParameter'']"

definition fieldsAdv :: "string list" where
  "fieldsAdv = [''ReferenceLiMArchitecture'']"

type_synonym parsed_data = "(string, (string, string list) smap) smap"

record config_parser =
  currentMacroType :: string
  parsedData :: parsed_data

text \<open>A field of the current section, when it is among the accepted ones.\<close>

definition parse_field :: "string list \<Rightarrow> string \<Rightarrow> config_parser \<Rightarrow> config_parser res" where
  "parse_field accepted line st =
     (let eqPos = str_find line (CHR ''='') 0 in
      ebind (str_substr line 0 eqPos) (\<lambda>field.
      if field \<in> set accepted then
        ebind (str_substr line (next_pos eqPos) npos) (\<lambda>value.
        ebind (case fieldListMaker value of None \<Rightarrow> Inl (LoopForever ''fieldListMaker'') | Some r \<Rightarrow> r) (\<lambda>tmpValueList.
        ebind (or_fail (UB ''insertion through the end of parsedData'')
                 (sm_find (parsedData st) (currentMacroType st))) (\<lambda>_.
          Inr (st\<lparr>parsedData := sm_modify (currentMacroType st) (sm_insert field tmpValueList) (parsedData st)\<rparr>))))
      else Inr st))"

definition parse_line :: "string \<Rightarrow> config_parser \<Rightarrow> config_parser res" where
  "parse_line line0 st =
     (let line = filter (\<lambda>c. \<not> is_space c) line0 in
      if starts (CHR '';'') line \<or> line = [] then Inr st
      else if starts (CHR ''['') line then
        (let line = tl line in
         if line = [] then Inl (UB ''pop_back of an empty string'')
         else let line = butlast line in
              if line \<in> set macroTypes
              then Inr (st\<lparr>currentMacroType := line, parsedData := sm_insert line [] (parsedData st)\<rparr>)
              else Inr st)
      else if currentMacroType st = ''MemoryType'' then parse_field fieldsMem line st
      else if currentMacroType st = ''SynthesisProcess'' then parse_field fieldsSyn line st
      else if currentMacroType st = ''AdvancedLiMSettings'' then parse_field fieldsAdv line st
      else Inr st)"

text \<open>A file that cannot be opened leaves the data as they are.\<close>

definition ParseConfigFile :: "string option \<Rightarrow> parsed_data \<Rightarrow> parsed_data res" where
  "ParseConfigFile configFile parsed =
     (case configFile of
        None \<Rightarrow> Inr parsed
      | Some content \<Rightarrow>
          ebind (efold parse_line (getlines content) \<lparr>currentMacroType = '''', parsedData = parsed\<rparr>)
            (\<lambda>st. Inr (parsedData st)))"

section \<open>What the pass asks for\<close>

definition map_at :: "('k::linorder, 'v) smap \<Rightarrow> 'k \<Rightarrow> 'v res" where
  "map_at m k = or_fail (OutOfRange ''map::at'') (sm_find m k)"

definition first_value :: "string \<Rightarrow> string \<Rightarrow> parsed_data \<Rightarrow> string res" where
  "first_value macro field parsed =
     ebind (map_at parsed macro) (\<lambda>fields. ebind (map_at fields field) (\<lambda>values.
       list_at values 0))"

definition getWordLength :: "parsed_data \<Rightarrow> int res" where
  "getWordLength parsed = ebind (first_value ''MemoryType'' ''WordLength'' parsed) stoi"

definition getSchedulingAlgorithm :: "parsed_data \<Rightarrow> string res" where
  "getSchedulingAlgorithm parsed = first_value ''SynthesisProcess'' ''SchedulingAlgorithm'' parsed"

definition getOptimizationTarget :: "parsed_data \<Rightarrow> string res" where
  "getOptimizationTarget parsed = first_value ''SynthesisProcess'' ''AdoptedOptimizations'' parsed"

section \<open>The default file\<close>

definition tab :: char where
  "tab = CHR 0x09"

definition stars :: string where
  "stars = CHR '';'' # replicate 73 (CHR ''*'') @ [newline]"

definition Print :: string where
  "Print = stars
     @ [CHR '';'', tab, tab] @ ''The Octantis Project - Configuration file'' @ [newline]
     @ stars
     @ '';automatically generated at <time> <date> <user>'' @ [newline, newline]
     @ ''[MemoryType]'' @ [newline]
     @ '';Constraints on the memory array'' @ [newline]
     @ ''WordLength=32'' @ [newline, newline, newline]
     @ ''[SynthesisProcess]'' @ [newline]
     @ '';Constraints for the synthesys process'' @ [newline]
     @ ''AdoptedOptimizations= ...'' @ [newline]
     @ ''SchedulingAlgorithm=ASAP'' @ [newline, newline, newline]
     @ ''[AdvancedLiMSettings]'' @ [newline]
     @ '';Parameters to define the kind of LiM solutions to explore''"

end
