(* ===== verification/Config_Proofs.thy ===== *)
theory Config_Proofs
  imports Print_Config
begin

text \<open>
  The configuration file. A line of it is one of three actions on the parsed data, which never
  replace what is there; so the parser is shown to be a round trip for every file that is written
  as sections of fields with single values, with white space anywhere. Lists of values make the
  parser loop.
\<close>

section \<open>Lists of values\<close>

lemma str_find_0_iff: "length s < npos \<Longrightarrow> str_find s c p = 0 \<longleftrightarrow> p = 0 \<and> starts c s"
  by (cases s) (auto simp: str_find_def starts_def npos_def Let_def split: if_splits)

lemma str_find_range: "str_find s c p = npos \<or> str_find s c p < length s"
  by (auto simp: str_find_def Let_def)

lemma next_pos_le: "c = npos \<or> c < n \<Longrightarrow> n < npos \<Longrightarrow> next_pos c \<le> n"
  by (auto simp: next_pos_def npos_def)

text \<open>Once the position of a comma is not 0 the loop is never left.\<close>

definition never_left :: "string \<Rightarrow> nat \<Rightarrow> nat \<Rightarrow> bool" where
  "never_left s cp c \<longleftrightarrow> length s < npos \<and> \<not> starts (CHR '','') s \<and> cp \<le> length s \<and> c \<noteq> 0 \<and> (c = npos \<or> c < length s)"

lemma never_left_step: "never_left s cp c \<Longrightarrow> never_left s (next_pos c) (str_find s (CHR '','') (next_pos c))"
  using str_find_range[of s "CHR '',''" "next_pos c"] next_pos_le[of c "length s"]
  by (auto simp: never_left_def str_find_0_iff)

lemma never_left_first: "length s < npos \<Longrightarrow> \<not> starts (CHR '','') s \<Longrightarrow> never_left s 0 (str_find s (CHR '','') 0)"
  using str_find_range[of s "CHR '',''" 0] by (auto simp: never_left_def str_find_0_iff)

lemma split_values_None: "never_left s cp c \<Longrightarrow> split_values s cp c tmp = None"
proof (rule ccontr)
  assume n: "never_left s cp c" "split_values s cp c tmp \<noteq> None"
  then obtain r where r: "split_values s cp c tmp = Some r" by blast
  have "\<not> never_left s cp c"
  proof (rule split_values.raw_induct[where P = "\<lambda>s cp c tmp r. \<not> never_left s cp c", OF _ r])
    fix rec s cp c tmp r
    assume IH: "\<And>s cp c tmp r. rec s cp c tmp = Some r \<Longrightarrow> \<not> never_left s cp c"
      and step: "(if c = 0 then Some (Inr tmp) else case str_substr s cp c of Inl e \<Rightarrow> Some (Inl e)
        | Inr subValue \<Rightarrow> rec s (next_pos c) (str_find s (CHR '','') (next_pos c)) (tmp @ [subValue])) = Some r"
    show "\<not> never_left s cp c"
    proof
      assume a: "never_left s cp c"
      then have "rec s (next_pos c) (str_find s (CHR '','') (next_pos c)) (tmp @ [take c (drop cp s)]) = Some r"
        using step by (simp add: str_substr_def never_left_def)
      then show False using IH never_left_step[OF a] by blast
    qed
  qed
  then show False using n(1) by blast
qed

lemma fieldListMaker_simps:
  "\<not> starts (CHR ''['') s \<Longrightarrow> fieldListMaker s = Some (Inr [s])"
  "fieldListMaker ''['' = Some (Inl (UB ''pop_back of an empty string''))"
  "fieldListMaker (CHR ''['' # CHR '','' # v @ [c]) = Some (Inr [])"
  "length v < npos \<Longrightarrow> \<not> starts (CHR '','') v \<Longrightarrow> fieldListMaker (CHR ''['' # v @ [c]) = None"
proof -
  show "\<not> starts (CHR ''['') s \<Longrightarrow> fieldListMaker s = Some (Inr [s])" by (simp add: fieldListMaker_def)
  show "fieldListMaker ''['' = Some (Inl (UB ''pop_back of an empty string''))"
    by (simp add: fieldListMaker_def starts_def)
  show "fieldListMaker (CHR ''['' # CHR '','' # v @ [c]) = Some (Inr [])"
    by (simp add: fieldListMaker_def starts_def str_find_def split_values.simps[of _ _ 0])
  show "length v < npos \<Longrightarrow> \<not> starts (CHR '','') v \<Longrightarrow> fieldListMaker (CHR ''['' # v @ [c]) = None"
    using split_values_None[OF never_left_first, of v "[]"] by (simp add: fieldListMaker_def starts_def[of "CHR ''[''"])
qed

section \<open>A line as an action\<close>

datatype config_action = Skip | Enter string | Set_field string "string list"

definition accepted :: "string \<Rightarrow> string list" where
  "accepted macro =
     (if macro = ''MemoryType'' then fieldsMem else if macro = ''SynthesisProcess'' then fieldsSyn
      else if macro = ''AdvancedLiMSettings'' then fieldsAdv else [])"

definition field_action :: "string \<Rightarrow> string \<Rightarrow> config_action res" where
  "field_action line macro =
     (let eqPos = str_find line (CHR ''='') 0; field = take eqPos line in
      if field \<in> set (accepted macro) then
        ebind (str_substr line (next_pos eqPos) npos) (\<lambda>value.
        ebind (case fieldListMaker value of None \<Rightarrow> Inl (LoopForever ''fieldListMaker'') | Some r \<Rightarrow> r) (\<lambda>values.
          Inr (Set_field field values)))
      else Inr Skip)"

definition line_action :: "string \<Rightarrow> string \<Rightarrow> config_action res" where
  "line_action line0 macro =
     (let line = filter (\<lambda>c. \<not> is_space c) line0 in
      if starts (CHR '';'') line \<or> line = [] then Inr Skip
      else if starts (CHR ''['') line then
        (if tl line = [] then Inl (UB ''pop_back of an empty string'')
         else Inr (if butlast (tl line) \<in> set macroTypes then Enter (butlast (tl line)) else Skip))
      else field_action line macro)"

fun apply_action :: "config_action \<Rightarrow> config_parser \<Rightarrow> config_parser res" where
  "apply_action Skip st = Inr st"
| "apply_action (Enter m) st = Inr (st\<lparr>currentMacroType := m, parsedData := sm_insert m [] (parsedData st)\<rparr>)"
| "apply_action (Set_field f vs) st =
     ebind (or_fail (UB ''insertion through the end of parsedData'') (sm_find (parsedData st) (currentMacroType st))) (\<lambda>_.
       Inr (st\<lparr>parsedData := sm_modify (currentMacroType st) (sm_insert f vs) (parsedData st)\<rparr>))"

lemma parse_field_action:
  "parse_field (accepted (currentMacroType st)) line st =
   ebind (field_action line (currentMacroType st)) (\<lambda>a. apply_action a st)"
  by (simp add: parse_field_def field_action_def Let_def str_substr_def ebind_assoc)

lemma accepted_simps [simp]:
  "accepted ''MemoryType'' = fieldsMem" "accepted ''SynthesisProcess'' = fieldsSyn"
  "accepted ''AdvancedLiMSettings'' = fieldsAdv"
  by (simp_all add: accepted_def)

lemma parse_field_other: "parse_field [] line st = Inr st"
  by (simp add: parse_field_def Let_def str_substr_def)

lemma parse_line_field:
  "(if currentMacroType st = ''MemoryType'' then parse_field fieldsMem line st
      else if currentMacroType st = ''SynthesisProcess'' then parse_field fieldsSyn line st
      else if currentMacroType st = ''AdvancedLiMSettings'' then parse_field fieldsAdv line st
      else Inr st) = parse_field (accepted (currentMacroType st)) line st"
  by (simp add: accepted_def parse_field_other)

lemma parse_line_action: "parse_line l st = ebind (line_action l (currentMacroType st)) (\<lambda>a. apply_action a st)"
  unfolding parse_line_def line_action_def Let_def parse_line_field parse_field_action by simp

section \<open>The data only grow\<close>

definition config_inv :: "parsed_data \<Rightarrow> bool" where
  "config_inv p \<longleftrightarrow> sm_inv p \<and> (\<forall>m fs. sm_find p m = Some fs \<longrightarrow> sm_inv fs)"

definition setting :: "parsed_data \<Rightarrow> string \<Rightarrow> string \<Rightarrow> string list option" where
  "setting p m f = Option.bind (sm_find p m) (\<lambda>fs. sm_find fs f)"

definition covers :: "parsed_data \<Rightarrow> parsed_data \<Rightarrow> bool" where
  "covers q p \<longleftrightarrow> (\<forall>m fs. sm_find p m = Some fs \<longrightarrow> (\<exists>gs. sm_find q m = Some gs \<and> dom (sm_find fs) \<subseteq> dom (sm_find gs)))"

text \<open>Every action keeps the maps ordered, adds a setting when there is none, and replaces none.\<close>

lemma apply_action_inv:
  assumes "apply_action a st = Inr st'" "config_inv (parsedData st)"
  shows "config_inv (parsedData st')"
  using assms by (cases a) (auto simp: config_inv_def sm_find_insert sm_find_modify res_simps split: if_splits)

lemma apply_action_setting:
  assumes "apply_action a st = Inr st'" "config_inv (parsedData st)"
  shows "setting (parsedData st') m f =
    (case setting (parsedData st) m f of
       None \<Rightarrow> (case a of Set_field f' vs \<Rightarrow> if m = currentMacroType st \<and> f = f' then Some vs else None | _ \<Rightarrow> None)
     | Some vs \<Rightarrow> Some vs)"
proof (cases a)
  case (Set_field f' vs)
  then obtain fs where "sm_find (parsedData st) (currentMacroType st) = Some fs" "sm_inv fs"
    using assms by (auto simp: res_simps config_inv_def)
  then show ?thesis
    using assms(1) Set_field by (auto simp: setting_def sm_find_modify sm_find_insert split: option.splits)
qed (use assms in \<open>auto simp: setting_def sm_find_insert config_inv_def bind_eq_Some_conv split: option.splits\<close>)

lemma apply_action_covers:
  assumes "apply_action a st = Inr st'" "config_inv (parsedData st)"
  shows "covers (parsedData st') (parsedData st)"
  using assms
  by (cases a) (auto simp: covers_def sm_find_insert sm_find_modify config_inv_def res_simps)

lemma covers_refl: "covers p p" by (auto simp: covers_def)

lemma covers_trans: "covers r q \<Longrightarrow> covers q p \<Longrightarrow> covers r p"
  unfolding covers_def by (meson subset_trans)

text \<open>An action whose effect is there already has no effect.\<close>

lemma apply_action_again:
  assumes "apply_action a st = Inr st'" "config_inv (parsedData st)" "config_inv q" "covers q (parsedData st')"
  shows "apply_action a (st\<lparr>parsedData := q\<rparr>) = Inr (st'\<lparr>parsedData := q\<rparr>)"
proof (cases a)
  case (Enter m)
  have "sm_find (parsedData st') m \<noteq> None"
    using assms(1,2) Enter by (auto simp: sm_find_insert config_inv_def)
  then have "sm_find q m \<noteq> None" using assms(4) by (force simp: covers_def)
  then show ?thesis using assms(1,3) Enter by (auto simp: config_inv_def sm_insert_present)
next
  case (Set_field f vs)
  let ?m = "currentMacroType st"
  obtain fs where fs: "sm_find (parsedData st) ?m = Some fs" "sm_inv fs"
    using assms(1,2) Set_field by (auto simp: res_simps config_inv_def)
  then have "sm_find (parsedData st') ?m = Some (sm_insert f vs fs)"
    using assms(1) Set_field by (auto simp: sm_find_modify)
  then obtain gs where gs: "sm_find q ?m = Some gs" "dom (sm_find (sm_insert f vs fs)) \<subseteq> dom (sm_find gs)"
    using assms(4) unfolding covers_def by blast
  have "f \<in> dom (sm_find (sm_insert f vs fs))" using fs(2) by (auto simp: sm_find_insert)
  then have "sm_insert f vs gs = gs"
    using gs assms(3) by (intro sm_insert_present) (auto simp: config_inv_def)
  then have "sm_modify ?m (sm_insert f vs) q = q"
    using gs(1) assms(3) by (intro sm_modify_same) (auto simp: config_inv_def)
  then show ?thesis using assms(1) Set_field gs(1) fs(1) by auto
qed (use assms in simp)

lemma parse_lines_kept:
  assumes "efold parse_line ls st = Inr st'" "config_inv (parsedData st)"
  shows "config_inv (parsedData st') \<and> covers (parsedData st') (parsedData st) \<and>
    (\<forall>m f vs. setting (parsedData st) m f = Some vs \<longrightarrow> setting (parsedData st') m f = Some vs)"
proof (rule efold_invariant[OF assms(1), where P = "\<lambda>u. config_inv (parsedData u) \<and> covers (parsedData u) (parsedData st) \<and>
    (\<forall>m f vs. setting (parsedData st) m f = Some vs \<longrightarrow> setting (parsedData u) m f = Some vs)"])
  show "config_inv (parsedData st) \<and> covers (parsedData st) (parsedData st) \<and>
    (\<forall>m f vs. setting (parsedData st) m f = Some vs \<longrightarrow> setting (parsedData st) m f = Some vs)"
    using assms(2) covers_refl by blast
next
  fix l u u'
  assume u: "config_inv (parsedData u) \<and> covers (parsedData u) (parsedData st) \<and>
      (\<forall>m f vs. setting (parsedData st) m f = Some vs \<longrightarrow> setting (parsedData u) m f = Some vs)"
    and "parse_line l u = Inr u'"
  then obtain a where a: "apply_action a u = Inr u'" by (auto simp: parse_line_action res_simps)
  then show "config_inv (parsedData u') \<and> covers (parsedData u') (parsedData st) \<and>
      (\<forall>m f vs. setting (parsedData st) m f = Some vs \<longrightarrow> setting (parsedData u') m f = Some vs)"
    using u apply_action_inv[OF a] apply_action_covers[OF a] covers_trans apply_action_setting[OF a] by auto
qed

lemma parse_lines_again:
  assumes "efold parse_line ls st = Inr st'" "config_inv (parsedData st)" "config_inv q" "covers q (parsedData st')"
  shows "efold parse_line ls (st\<lparr>parsedData := q\<rparr>) = Inr (st'\<lparr>parsedData := q\<rparr>)"
  using assms
proof (induction ls arbitrary: st)
  case Nil
  then show ?case by auto
next
  case (Cons l ls)
  then obtain a u where u: "line_action l (currentMacroType st) = Inr a" "apply_action a st = Inr u"
      "efold parse_line ls u = Inr st'"
    by (auto simp: res_simps parse_line_action[of l st])
  have inv: "config_inv (parsedData u)" by (rule apply_action_inv[OF u(2) Cons.prems(2)])
  have "covers q (parsedData u)" using parse_lines_kept[OF u(3) inv] Cons.prems(4) covers_trans by blast
  then have "apply_action a (st\<lparr>parsedData := q\<rparr>) = Inr (u\<lparr>parsedData := q\<rparr>)"
    by (rule apply_action_again[OF u(2) Cons.prems(2,3)])
  then show ?case using u(1) Cons.IH[OF u(3) inv Cons.prems(3,4)] by (simp add: parse_line_action[of l])
qed

section \<open>Files\<close>

text \<open>What a file is meant to say, and how that is written, up to white space.\<close>

datatype config_item = Section string | Setting string string | Comment string | Blank

fun canonical :: "config_item \<Rightarrow> string" where
  "canonical (Section m) = CHR ''['' # m @ '']''"
| "canonical (Setting f v) = f @ CHR ''='' # v"
| "canonical (Comment c) = CHR '';'' # c"
| "canonical Blank = []"

fun plain_item :: "config_item \<Rightarrow> bool" where
  "plain_item (Setting f v) \<longleftrightarrow> CHR ''='' \<notin> set f \<and> \<not> starts (CHR ''['') f \<and> \<not> starts (CHR '';'') f \<and>
     \<not> starts (CHR ''['') v \<and> length f + length v + 1 < npos"
| "plain_item _ \<longleftrightarrow> True"

definition written_as :: "config_item \<Rightarrow> string \<Rightarrow> bool" where
  "written_as item l \<longleftrightarrow> filter (\<lambda>c. \<not> is_space c) l = canonical item \<and> plain_item item \<and> newline \<notin> set l"

text \<open>The accepted settings of a file, with their sections.\<close>

fun settings :: "string \<Rightarrow> config_item list \<Rightarrow> ((string \<times> string) \<times> string) list" where
  "settings macro [] = []"
| "settings macro (Section m # items) = settings (if m \<in> set macroTypes then m else macro) items"
| "settings macro (Setting f v # items) =
     (if f \<in> set (accepted macro) then [((macro, f), v)] else []) @ settings macro items"
| "settings macro (_ # items) = settings macro items"

lemma str_find_first: "c \<notin> set f \<Longrightarrow> str_find (f @ c # v) c 0 = length f"
  by (auto simp: str_find_def Let_def takeWhile_append)

lemma field_action_setting:
  assumes "plain_item (Setting f v)"
  shows "field_action (f @ CHR ''='' # v) macro = Inr (if f \<in> set (accepted macro) then Set_field f [v] else Skip)"
proof -
  have "next_pos (length f) = length f + 1" using assms by (simp add: next_pos_def npos_def)
  then show ?thesis
    using assms by (simp add: field_action_def str_find_first str_substr_def fieldListMaker_simps)
qed

lemma starts_append: "starts c (f @ d # v) = (if f = [] then d = c else starts c f)"
  by (cases f) (auto simp: starts_def)

lemma line_action_item:
  assumes "written_as item l"
  shows "line_action l macro = Inr (case item of
      Section m \<Rightarrow> (if m \<in> set macroTypes then Enter m else Skip)
    | Setting f v \<Rightarrow> (if f \<in> set (accepted macro) then Set_field f [v] else Skip)
    | _ \<Rightarrow> Skip)"
proof (cases item)
  case (Section m)
  then have line: "filter (\<lambda>c. \<not> is_space c) l = CHR ''['' # m @ '']''" using assms by (simp add: written_as_def)
  show ?thesis unfolding line_action_def line Let_def by (simp add: Section starts_def)
next
  case (Setting f v)
  then have line: "filter (\<lambda>c. \<not> is_space c) l = f @ CHR ''='' # v" and plain: "plain_item (Setting f v)"
    using assms by (simp_all add: written_as_def)
  have "\<not> starts (CHR '';'') (f @ CHR ''='' # v)" "\<not> starts (CHR ''['') (f @ CHR ''='' # v)"
    using plain by (auto simp: starts_append)
  then show ?thesis
    unfolding line_action_def line Let_def by (simp add: Setting field_action_setting[OF plain])
qed (use assms in \<open>simp_all add: written_as_def line_action_def starts_def\<close>)

definition in_section :: "config_parser \<Rightarrow> bool" where
  "in_section st \<longleftrightarrow> accepted (currentMacroType st) = [] \<or> sm_find (parsedData st) (currentMacroType st) \<noteq> None"

definition item_action :: "string \<Rightarrow> config_item \<Rightarrow> config_action" where
  "item_action macro item = (case item of
      Section m \<Rightarrow> (if m \<in> set macroTypes then Enter m else Skip)
    | Setting f v \<Rightarrow> (if f \<in> set (accepted macro) then Set_field f [v] else Skip)
    | _ \<Rightarrow> Skip)"

lemma item_action_cases:
  obtains "item_action macro item = Skip" "settings macro (item # items) = settings macro items"
  | m where "item_action macro item = Enter m" "settings macro (item # items) = settings m items"
  | f v where "item_action macro item = Set_field f [v]" "f \<in> set (accepted macro)"
      "settings macro (item # items) = ((macro, f), v) # settings macro items"
proof (cases item)
  case (Section m)
  then show thesis using that(1) that(2)[of m] by (cases "m \<in> set macroTypes") (simp_all add: item_action_def)
next
  case (Setting f v)
  then show thesis
    using that(1) that(3)[of f v] by (cases "f \<in> set (accepted macro)") (simp_all add: item_action_def)
qed (use that(1) in \<open>simp_all add: item_action_def\<close>)

lemma apply_item:
  assumes "sm_inv (parsedData st)" "in_section st"
  shows "\<exists>u. apply_action (item_action (currentMacroType st) item) st = Inr u \<and> in_section u \<and>
    settings (currentMacroType st) (item # items) =
     (case item_action (currentMacroType st) item of
        Set_field f vs \<Rightarrow> [((currentMacroType st, f), hd vs)] | _ \<Rightarrow> []) @ settings (currentMacroType u) items \<and>
    (case item_action (currentMacroType st) item of Set_field f vs \<Rightarrow> \<exists>v. vs = [v] | _ \<Rightarrow> True)"
proof (cases rule: item_action_cases[of "currentMacroType st" item items])
  case 1
  then show ?thesis using assms(2) by simp
next
  case (2 m)
  then show ?thesis using assms(1) by (simp add: in_section_def sm_find_insert)
next
  case (3 f v)
  then obtain fs where "sm_find (parsedData st) (currentMacroType st) = Some fs"
    using assms(2) by (auto simp: in_section_def)
  then show ?thesis using 3 by (simp add: in_section_def sm_find_modify)
qed

lemma parse_items:
  assumes "list_all2 written_as items ls" "config_inv (parsedData st)" "in_section st"
  shows "\<exists>st'. efold parse_line ls st = Inr st' \<and> config_inv (parsedData st') \<and>
    (\<forall>m f. setting (parsedData st') m f = (case setting (parsedData st) m f of Some vs \<Rightarrow> Some vs
       | None \<Rightarrow> map_option (\<lambda>v. [v]) (map_of (settings (currentMacroType st) items) (m, f))))"
  using assms
proof (induction items ls arbitrary: st rule: list_all2_induct)
  case Nil
  then show ?case by (auto split: option.splits)
next
  case (Cons item items l ls)
  let ?a = "item_action (currentMacroType st) item"
  have a: "line_action l (currentMacroType st) = Inr ?a"
    using line_action_item[OF Cons.hyps(1)] by (simp add: item_action_def)
  have inv: "sm_inv (parsedData st)" using Cons.prems(1) by (simp add: config_inv_def)
  obtain u where u: "apply_action ?a st = Inr u" "in_section u"
    "settings (currentMacroType st) (item # items) =
     (case ?a of Set_field f vs \<Rightarrow> [((currentMacroType st, f), hd vs)] | _ \<Rightarrow> []) @ settings (currentMacroType u) items"
    "case ?a of Set_field f vs \<Rightarrow> \<exists>v. vs = [v] | _ \<Rightarrow> True"
    using apply_item[OF inv Cons.prems(2)] by blast
  have uinv: "config_inv (parsedData u)" by (rule apply_action_inv[OF u(1) Cons.prems(1)])
  obtain st' where st': "efold parse_line ls u = Inr st'" "config_inv (parsedData st')"
    "\<forall>m f. setting (parsedData st') m f = (case setting (parsedData u) m f of Some vs \<Rightarrow> Some vs
       | None \<Rightarrow> map_option (\<lambda>v. [v]) (map_of (settings (currentMacroType u) items) (m, f)))"
    using Cons.IH[OF uinv u(2)] by blast
  have "efold parse_line (l # ls) st = Inr st'" using a u(1) st'(1) by (simp add: parse_line_action[of l st])
  moreover have "setting (parsedData st') m f = (case setting (parsedData st) m f of Some vs \<Rightarrow> Some vs
       | None \<Rightarrow> map_option (\<lambda>v. [v]) (map_of (settings (currentMacroType st) (item # items)) (m, f)))" for m f
    using st'(3) u(3,4) apply_action_setting[OF u(1) Cons.prems(1), of m f]
    by (auto split: option.splits config_action.splits)
  ultimately show ?case using st'(2) by blast
qed

lemma getlines_line: "newline \<notin> set l \<Longrightarrow> getlines (l @ newline # s) = l # getlines s"
  by (induction l) auto

lemma getlines_lines:
  "list_all2 written_as items ls \<Longrightarrow> getlines (concat (map (\<lambda>l. l @ [newline]) ls) @ s) = ls @ getlines s"
  by (induction rule: list_all2_induct) (auto simp: getlines_line written_as_def)

lemma getlines_last: "newline \<notin> set l \<Longrightarrow> l \<noteq> [] \<Longrightarrow> getlines l = [l]"
proof (induction l)
  case (Cons c l)
  then show ?case by (cases "l = []") auto
qed simp

lemma parse_file:
  assumes "list_all2 written_as items (getlines content)" "config_inv p"
  shows "\<exists>q. ParseConfigFile (Some content) p = Inr q \<and> config_inv q \<and>
    (\<forall>m f. setting q m f = (case setting p m f of Some vs \<Rightarrow> Some vs
       | None \<Rightarrow> map_option (\<lambda>v. [v]) (map_of (settings '''' items) (m, f))))"
proof -
  let ?st = "\<lparr>currentMacroType = '''', parsedData = p\<rparr>"
  have "in_section ?st" by (simp add: in_section_def accepted_def)
  from parse_items[OF assms(1) _ this] assms(2) obtain st' where
    "efold parse_line (getlines content) ?st = Inr st'" "config_inv (parsedData st')"
    "\<forall>m f. setting (parsedData st') m f = (case setting (parsedData ?st) m f of Some vs \<Rightarrow> Some vs
       | None \<Rightarrow> map_option (\<lambda>v. [v]) (map_of (settings (currentMacroType ?st) items) (m, f)))"
    by auto
  then show ?thesis unfolding config_parser.simps by (auto simp: ParseConfigFile_def)
qed

lemma first_value_setting: "setting q m f = Some [v] \<Longrightarrow> first_value m f q = Inr v"
  by (auto simp: setting_def first_value_def map_at_def list_at_def bind_eq_Some_conv)

lemma ParseConfigFile_kept:
  assumes "ParseConfigFile cfg p = Inr q" "config_inv p"
  shows "config_inv q" "setting p m f = Some vs \<Longrightarrow> setting q m f = Some vs"
proof -
  have "config_inv q \<and> (\<forall>m f vs. setting p m f = Some vs \<longrightarrow> setting q m f = Some vs)"
  proof (cases cfg)
    case (Some content)
    then obtain st where "efold parse_line (getlines content) \<lparr>currentMacroType = '''', parsedData = p\<rparr> = Inr st"
        "q = parsedData st"
      using assms(1) by (auto simp: ParseConfigFile_def res_simps)
    then show ?thesis using parse_lines_kept[of "getlines content"] assms(2) by auto
  qed (use assms in \<open>auto simp: ParseConfigFile_def\<close>)
  then show "config_inv q" "setting p m f = Some vs \<Longrightarrow> setting q m f = Some vs" by blast+
qed

text \<open>What the default file says.\<close>

definition stars_line :: string where
  "stars_line = CHR '';'' # replicate 73 (CHR ''*'')"

definition title_line :: string where
  "title_line = [CHR '';'', tab, tab] @ ''The Octantis Project - Configuration file''"

definition default_lines :: "string list" where
  "default_lines = [stars_line, title_line, stars_line, '';automatically generated at <time> <date> <user>'', '''',
     ''[MemoryType]'', '';Constraints on the memory array'', ''WordLength=32'', '''', '''', ''[SynthesisProcess]'',
     '';Constraints for the synthesys process'', ''AdoptedOptimizations= ...'', ''SchedulingAlgorithm=ASAP'', '''', '''',
     ''[AdvancedLiMSettings]'']"

definition last_line :: string where
  "last_line = '';Parameters to define the kind of LiM solutions to explore''"

definition without_spaces :: "string \<Rightarrow> string" where
  "without_spaces l = filter (\<lambda>c. \<not> is_space c) l"

definition default_items :: "config_item list" where
  "default_items =
     [Comment (tl (without_spaces stars_line)), Comment (tl (without_spaces title_line)), Comment (tl (without_spaces stars_line)),
      Comment ''automaticallygeneratedat<time><date><user>'', Blank, Section ''MemoryType'',
      Comment ''Constraintsonthememoryarray'', Setting ''WordLength'' ''32'', Blank, Blank, Section ''SynthesisProcess'',
      Comment ''Constraintsforthesynthesysprocess'', Setting ''AdoptedOptimizations'' ''...'',
      Setting ''SchedulingAlgorithm'' ''ASAP'', Blank, Blank, Section ''AdvancedLiMSettings'',
      Comment ''ParameterstodefinethekindofLiMsolutionstoexplore'']"

lemma written_comment: "l = CHR '';'' # t \<Longrightarrow> newline \<notin> set t \<Longrightarrow> written_as (Comment (tl (without_spaces l))) l"
  by (simp add: written_as_def without_spaces_def is_space_def newline_def)

lemma written_comments: "written_as (Comment (tl (without_spaces stars_line))) stars_line"
  "written_as (Comment (tl (without_spaces title_line))) title_line"
  by (rule written_comment[OF stars_line_def], simp add: newline_def)
    (rule written_comment, simp add: title_line_def, simp add: newline_def tab_def)

lemma default_items_written: "list_all2 written_as default_items (getlines Print)"
proof -
  have lines: "list_all2 written_as (butlast default_items) default_lines"
    by (simp add: default_items_def default_lines_def written_comments)
      (simp add: written_as_def is_space_def starts_def npos_def newline_def)
  have "Print = concat (map (\<lambda>l. l @ [newline]) default_lines) @ last_line"
    by (simp add: Print_def default_lines_def stars_def stars_line_def title_line_def last_line_def)
  moreover have "getlines last_line = [last_line]" by (rule getlines_last) (simp_all add: last_line_def newline_def)
  ultimately have "getlines Print = default_lines @ [last_line]" using getlines_lines[OF lines, of last_line] by simp
  moreover have "written_as (last default_items) last_line"
    by (simp add: default_items_def last_line_def written_as_def is_space_def newline_def)
  ultimately have "list_all2 written_as (butlast default_items @ [last default_items]) (getlines Print)"
    using lines by (simp add: list_all2_appendI)
  then show ?thesis by (simp add: default_items_def)
qed

section \<open>Properties\<close>

text \<open>
  C33: the exit of the loop over the values of a list is only found when the list starts with a comma:
  for any other list in brackets \<open>fieldListMaker\<close> does not return, and no value of a list is ever
  found; a value without a bracket is the only value of its field.
\<close>

theorem fieldListMaker_returns:
  assumes "length s < npos"
  shows "(fieldListMaker s = None \<longleftrightarrow>
      starts (CHR ''['') s \<and> s \<noteq> ''['' \<and> \<not> starts (CHR '','') (butlast (tl s))) \<and>
    (fieldListMaker s = Some (Inr vs) \<longleftrightarrow>
      \<not> starts (CHR ''['') s \<and> vs = [s] \<or>
      starts (CHR ''['') s \<and> starts (CHR '','') (butlast (tl s)) \<and> vs = [])"
proof (cases "starts (CHR ''['') s \<and> s \<noteq> ''[''")
  case True
  then have "s = CHR ''['' # butlast (tl s) @ [last (tl s)]" by (cases s) (auto simp: starts_def)
  then obtain v c where s: "s = CHR ''['' # v @ [c]" by blast
  then have v: "length v < npos" "butlast (tl s) = v" using assms by simp_all
  show ?thesis
  proof (cases "starts (CHR '','') v")
    case True
    then obtain w where "v = CHR '','' # w" by (cases v) (auto simp: starts_def)
    then show ?thesis using True v(2) s by (auto simp: fieldListMaker_simps starts_def)
  next
    case False
    then show ?thesis using v s by (simp add: fieldListMaker_simps starts_def[of "CHR ''[''"])
  qed
next
  case False
  then show ?thesis by (auto simp: fieldListMaker_simps starts_def)
qed

theorem fieldListMaker_returns_witness:
  "fieldListMaker ''[a,b]'' = None \<and> \<not> fieldListMaker ''[a,b]'' = Some (Inr [''a'', ''b''])"
proof -
  have "length ''[a,b]'' < npos" by (simp add: npos_def)
  from fieldListMaker_returns[OF this, of "[''a'', ''b'']"] show ?thesis by (simp add: starts_def)
qed

text \<open>
  C17: the parser reads back every file that is written as sections, settings with one value, comments
  and empty lines, with white space anywhere in a line: a setting has the first value that an accepted
  field has been given in its section, unless it had a value before.
\<close>

theorem ParseConfigFile_reads_back:
  assumes "list_all2 written_as items ls" "config_inv p"
  shows "\<exists>q. ParseConfigFile (Some (concat (map (\<lambda>l. l @ [newline]) ls))) p = Inr q \<and> config_inv q \<and>
    (\<forall>m f. setting q m f = (case setting p m f of Some vs \<Rightarrow> Some vs
       | None \<Rightarrow> map_option (\<lambda>v. [v]) (map_of (settings '''' items) (m, f))))"
  using parse_file[of items "concat (map (\<lambda>l. l @ [newline]) ls)"] getlines_lines[OF assms(1), of "[]"] assms
  by (simp del: map_option_eq_Some)

text \<open>The file that comes with the tool.\<close>

definition shipped_lines :: "string list" where
  "shipped_lines = [''[MemoryType]'', '''', ''WordLength = 8'', ''MaxDimensions = 23'', '''', ''[SynthesisProcess]'', '''',
     ''AdoptedOptimizations = Accumulation'', ''SchedulingAlgorithm = ASAP'', '''', ''[AdvancedLiMSettings]'', '''']"

definition shipped_items :: "config_item list" where
  "shipped_items = [Section ''MemoryType'', Blank, Setting ''WordLength'' ''8'', Setting ''MaxDimensions'' ''23'', Blank,
     Section ''SynthesisProcess'', Blank, Setting ''AdoptedOptimizations'' ''Accumulation'',
     Setting ''SchedulingAlgorithm'' ''ASAP'', Blank, Section ''AdvancedLiMSettings'', Blank]"

lemma shipped_items_written: "list_all2 written_as shipped_items shipped_lines"
  by (simp add: shipped_items_def shipped_lines_def written_as_def is_space_def starts_def npos_def newline_def)

theorem ParseConfigFile_reads_back_witness:
  "\<exists>q. ParseConfigFile (Some (concat (map (\<lambda>l. l @ [newline]) shipped_lines))) [] = Inr q \<and>
     setting q ''MemoryType'' ''WordLength'' = Some [''8''] \<and> setting q ''MemoryType'' ''MaxDimensions'' = None \<and>
     setting q ''SynthesisProcess'' ''SchedulingAlgorithm'' = Some [''ASAP''] \<and>
     setting q ''SynthesisProcess'' ''AdoptedOptimizations'' = Some [''Accumulation'']"
proof -
  have b: "config_inv []" by (simp add: config_inv_def)
  obtain q where q: "ParseConfigFile (Some (concat (map (\<lambda>l. l @ [newline]) shipped_lines))) [] = Inr q"
    "\<forall>m f. setting q m f = map_option (\<lambda>v. [v]) (map_of (settings '''' shipped_items) (m, f))"
    using ParseConfigFile_reads_back[OF shipped_items_written b] by (auto simp: setting_def)
  show ?thesis
    by (rule exI[of _ q]) (simp add: q shipped_items_def macroTypes_def accepted_def fieldsMem_def fieldsSyn_def)
qed

text \<open>
  C34: the pass reads the file again for each function of a module, and that changes nothing: a second
  run of the parser on the file leaves the data as they are, whatever else it finds there; and no run
  on any file replaces a setting that is there.
\<close>

theorem ParseConfigFile_again:
  assumes "ParseConfigFile cfg p = Inr q" "config_inv p"
  shows "ParseConfigFile cfg q = Inr q \<and> config_inv q \<and> (\<forall>m f vs. setting p m f = Some vs \<longrightarrow> setting q m f = Some vs)"
proof (cases cfg)
  case None
  then show ?thesis using assms by (auto simp: ParseConfigFile_def)
next
  case (Some content)
  let ?st = "\<lambda>p. \<lparr>currentMacroType = '''', parsedData = p\<rparr>"
  obtain st where st: "efold parse_line (getlines content) (?st p) = Inr st" "q = parsedData st"
    using assms(1) Some by (auto simp: ParseConfigFile_def res_simps)
  have kept: "config_inv q" "\<forall>m f vs. setting p m f = Some vs \<longrightarrow> setting q m f = Some vs"
    using ParseConfigFile_kept[OF assms] by auto
  have "efold parse_line (getlines content) (?st p\<lparr>parsedData := q\<rparr>) = Inr (st\<lparr>parsedData := q\<rparr>)"
    by (rule parse_lines_again[OF st(1)]) (use assms(2) kept(1) st(2) covers_refl in auto)
  then show ?thesis using kept Some by (simp add: ParseConfigFile_def)
qed

theorem ParseConfigFile_again_witness:
  "\<exists>q. ParseConfigFile (Some '';WordLength = 8'') [(''MemoryType'', [(''WordLength'', [''16''])])] = Inr q \<and>
     setting q ''MemoryType'' ''WordLength'' = Some [''16'']"
proof -
  let ?p = "[(''MemoryType'', [(''WordLength'', [''16''])])]"
  have b: "config_inv ?p" by (auto simp: config_inv_def split: if_splits)
  have "ParseConfigFile (Some '';WordLength = 8'') ?p = Inr ?p"
    by (simp add: ParseConfigFile_def newline_def parse_line_def is_space_def starts_def)
  from ParseConfigFile_again[OF this b] show ?thesis by (intro exI[of _ ?p]) (simp add: setting_def)
qed

text \<open>
  The file the tool prints as a default is read back with a word length of 32, the ASAP scheduling
  and the text \<open>...\<close> as the optimisation.
\<close>

theorem default_file_read_back:
  "\<exists>q. ParseConfigFile (Some Print) [] = Inr q \<and> getWordLength q = Inr 32 \<and>
     getSchedulingAlgorithm q = Inr ''ASAP'' \<and> getOptimizationTarget q = Inr ''...''"
proof -
  obtain q where q: "ParseConfigFile (Some Print) [] = Inr q"
    "\<forall>m f. setting q m f = map_option (\<lambda>v. [v]) (map_of (settings '''' default_items) (m, f))"
    using parse_file[OF default_items_written, of "[]"] by (auto simp: setting_def config_inv_def)
  have "setting q ''MemoryType'' ''WordLength'' = Some [''32'']"
    "setting q ''SynthesisProcess'' ''SchedulingAlgorithm'' = Some [''ASAP'']"
    "setting q ''SynthesisProcess'' ''AdoptedOptimizations'' = Some [''...'']"
    by (simp_all add: q(2) default_items_def macroTypes_def accepted_def fieldsMem_def fieldsSyn_def)
  then show ?thesis
    using q(1) first_value_setting
    by (auto simp: getWordLength_def getSchedulingAlgorithm_def getOptimizationTarget_def stoi_def is_space_def
        is_digit_def digits_value_def digit_value_def)
qed

end
