(* ===== verification/Octantis_Pass.thy ===== *)
theory Octantis_Pass
  imports Synthesis Config_Proofs
begin

text \<open>
  \<open>OctantisPass::runOnFunction\<close>, which LLVM calls for every function of a module: the configuration,
  the dependency detection, the scheduling and the binding. The configuration that has been read
  and the instruction table are members of the pass and stay from one function to the next. What
  the information collector finds in the function, and the configuration file, are arguments;
  \<open>Octantis_Function\<close> adds the collector and the printer.
\<close>

record octantis_pass =
  p_parsedData :: parsed_data
  p_instructionTable :: instructionTable

text \<open>The phases after the configuration is read and the information is collected.\<close>

definition run_phases ::
  "parsed_data \<Rightarrow> detector \<Rightarrow> lim_binder \<Rightarrow> collectInfo \<Rightarrow> llvmInst list list \<Rightarrow> octantis_pass
   \<Rightarrow> (bindingOutput \<times> octantis_pass) res" where
  "run_phases parsed raw_d raw_b info basicBlocks P =
     ebind (detectDependencies raw_d info basicBlocks) (\<lambda>dependencyGraph.
     ebind (getSchedulingAlgorithm parsed) (\<lambda>schedulingAlgorithm.
     ebind (if schedulingAlgorithm = ''ASAP'' then scheduleFunction dependencyGraph
            else Inr (p_instructionTable P)) (\<lambda>instructionTable.
     ebind (getWordLength parsed) (\<lambda>wordLength.
     ebind (getOptimizationTarget parsed) (\<lambda>target.
     ebind (LiMBinder raw_b instructionTable info wordLength target) (\<lambda>out.
       Inr (out, \<lparr>p_parsedData = parsed, p_instructionTable = instructionTable\<rparr>)))))))"

definition runOnFunction ::
  "string option \<Rightarrow> detector \<Rightarrow> lim_binder \<Rightarrow> collectInfo \<Rightarrow> llvmInst list list \<Rightarrow> octantis_pass
   \<Rightarrow> (bindingOutput \<times> octantis_pass) res" where
  "runOnFunction configFile raw_d raw_b info basicBlocks P =
     ebind (ParseConfigFile configFile (p_parsedData P)) (\<lambda>parsed. run_phases parsed raw_d raw_b info basicBlocks P)"

text \<open>The functions of a module, each with the state of the configuration file when it is compiled.\<close>

record function_input =
  f_config :: "string option"
  f_detector :: detector
  f_binder :: lim_binder
  f_info :: collectInfo
  f_blocks :: "llvmInst list list"

definition run_function ::
  "function_input \<Rightarrow> bindingOutput list \<times> octantis_pass \<Rightarrow> (bindingOutput list \<times> octantis_pass) res" where
  "run_function F s =
     ebind (runOnFunction (f_config F) (f_detector F) (f_binder F) (f_info F) (f_blocks F) (snd s)) (\<lambda>(out, P).
       Inr (fst s @ [out], P))"

section \<open>Lemmas\<close>

lemma runOnFunction_synthesise:
  assumes "ParseConfigFile configFile (p_parsedData P) = Inr parsed" "getSchedulingAlgorithm parsed = Inr alg"
    "getWordLength parsed = Inr w" "getOptimizationTarget parsed = Inr target"
    "synthesise raw_d raw_b alg w target (p_instructionTable P) info blocks = Inr out"
  shows "\<exists>P'. runOnFunction configFile raw_d raw_b info blocks P = Inr (out, P') \<and> p_parsedData P' = parsed"
proof -
  obtain graph it where "detectDependencies raw_d info blocks = Inr graph"
    "(if alg = ''ASAP'' then scheduleFunction graph else Inr (p_instructionTable P)) = Inr it"
    "LiMBinder raw_b it info w target = Inr out"
    using assms(5) by (auto simp: synthesise_def ebind_Inr_iff simp del: if_split)
  then show ?thesis using assms(1-4) by (simp add: runOnFunction_def run_phases_def)
qed

lemma getters_of_settings:
  assumes "setting q ''MemoryType'' ''WordLength'' = Some [w]" "stoi w = Inr n"
    and "setting q ''SynthesisProcess'' ''SchedulingAlgorithm'' = Some [alg]"
    and "setting q ''SynthesisProcess'' ''AdoptedOptimizations'' = Some [target]"
  shows "getWordLength q = Inr n" "getSchedulingAlgorithm q = Inr alg" "getOptimizationTarget q = Inr target"
  using assms first_value_setting
  by (simp_all add: getWordLength_def getSchedulingAlgorithm_def getOptimizationTarget_def)

lemma run_function_state:
  assumes "run_function F s = Inr s'" "config_inv (p_parsedData (snd s))"
  shows "config_inv (p_parsedData (snd s')) \<and>
    (\<forall>m f vs. setting (p_parsedData (snd s)) m f = Some vs \<longrightarrow> setting (p_parsedData (snd s')) m f = Some vs)"
proof -
  obtain parsed where "ParseConfigFile (f_config F) (p_parsedData (snd s)) = Inr parsed" "p_parsedData (snd s') = parsed"
    using assms(1) by (auto simp: run_function_def runOnFunction_def run_phases_def res_simps)
  then show ?thesis using ParseConfigFile_kept[OF _ assms(2)] by auto
qed

text \<open>A function that is compiled without the ASAP scheduling.\<close>

lemma run_function_stale:
  assumes "run_function F s = Inr s'" "config_inv (p_parsedData (snd s))"
    and "setting (p_parsedData (snd s)) ''SynthesisProcess'' ''SchedulingAlgorithm'' = Some [alg]" "alg \<noteq> ''ASAP''"
  shows "p_instructionTable (snd s') = p_instructionTable (snd s) \<and>
    (\<exists>out w target. fst s' = fst s @ [out] \<and>
       LiMBinder (f_binder F) (p_instructionTable (snd s)) (f_info F) w target = Inr out)"
proof -
  obtain parsed where parsed: "ParseConfigFile (f_config F) (p_parsedData (snd s)) = Inr parsed"
    using assms(1) by (auto simp: run_function_def runOnFunction_def run_phases_def res_simps)
  have alg: "getSchedulingAlgorithm parsed = Inr alg"
    using ParseConfigFile_kept(2)[OF parsed assms(2,3)] first_value_setting by (simp add: getSchedulingAlgorithm_def)
  obtain out P where run: "runOnFunction (f_config F) (f_detector F) (f_binder F) (f_info F) (f_blocks F) (snd s) = Inr (out, P)"
    "s' = (fst s @ [out], P)"
    using assms(1) by (auto simp: run_function_def ebind_Inr_iff)
  obtain w target where "LiMBinder (f_binder F) (p_instructionTable (snd s)) (f_info F) w target = Inr out"
    "p_instructionTable P = p_instructionTable (snd s)"
    using run(1) parsed alg assms(4) by (auto simp: runOnFunction_def run_phases_def ebind_Inr_iff)
  then show ?thesis using run(2) by auto
qed

lemma written_configuration:
  assumes "list_all2 written_as items ls" "p_parsedData P = []"
    and "map_of (settings '''' items) (''MemoryType'', ''WordLength'') = Some w" "stoi w = Inr n"
    and "map_of (settings '''' items) (''SynthesisProcess'', ''SchedulingAlgorithm'') = Some alg"
    and "map_of (settings '''' items) (''SynthesisProcess'', ''AdoptedOptimizations'') = Some target"
  shows "\<exists>q. ParseConfigFile (Some (concat (map (\<lambda>l. l @ [newline]) ls))) (p_parsedData P) = Inr q \<and>
    getWordLength q = Inr n \<and> getSchedulingAlgorithm q = Inr alg \<and> getOptimizationTarget q = Inr target"
proof -
  have lines: "getlines (concat (map (\<lambda>l. l @ [newline]) ls)) = ls" using getlines_lines[OF assms(1), of "[]"] by simp
  obtain q where q: "ParseConfigFile (Some (concat (map (\<lambda>l. l @ [newline]) ls))) (p_parsedData P) = Inr q"
    "\<forall>m f. setting q m f = map_option (\<lambda>v. [v]) (map_of (settings '''' items) (m, f))"
    using parse_file[of items "concat (map (\<lambda>l. l @ [newline]) ls)" "[]"] assms(1,2) lines
    by (auto simp: setting_def config_inv_def)
  then show ?thesis using getters_of_settings[of q w n alg target] assms(3-6) by simp
qed

section \<open>Properties\<close>



text \<open>
  C35: once a scheduling algorithm other than ASAP has been read it stays for all the functions of the
  module, whatever the configuration file says later, and every function is bound from the
  instruction table the pass has had before, not from its own instructions.
\<close>

theorem run_functions_stale:
  assumes "efold run_function Fs s = Inr s'" "config_inv (p_parsedData (snd s))"
    and "setting (p_parsedData (snd s)) ''SynthesisProcess'' ''SchedulingAlgorithm'' = Some [alg]" "alg \<noteq> ''ASAP''"
  shows "p_instructionTable (snd s') = p_instructionTable (snd s) \<and>
    (\<exists>outs. fst s' = fst s @ outs \<and> list_all2 (\<lambda>F out. \<exists>w target.
       LiMBinder (f_binder F) (p_instructionTable (snd s)) (f_info F) w target = Inr out) Fs outs)"
  using assms
proof (induction Fs arbitrary: s)
  case (Cons F Fs)
  then obtain u where u: "run_function F s = Inr u" "efold run_function Fs u = Inr s'" by (auto simp: res_simps)
  note F = run_function_stale[OF u(1) Cons.prems(2-4)]
  have "config_inv (p_parsedData (snd u))"
    "setting (p_parsedData (snd u)) ''SynthesisProcess'' ''SchedulingAlgorithm'' = Some [alg]"
    using run_function_state[OF u(1) Cons.prems(2)] Cons.prems(3) by auto
  from Cons.IH[OF u(2) this Cons.prems(4)] F show ?case by fastforce
qed simp

theorem run_functions_stale_witness:
  "\<exists>s' out w target. efold run_function
       [\<lparr>f_config = None, f_detector = blank_detector, f_binder = sample_b ''add'' 0 0, f_info = blank_ci, f_blocks = []\<rparr>]
       ([], \<lparr>p_parsedData = [(''MemoryType'', [(''WordLength'', [''8''])]),
               (''SynthesisProcess'', [(''AdoptedOptimizations'', [''None'']), (''SchedulingAlgorithm'', [''ALAP''])])],
             p_instructionTable = sample_line\<rparr>) = Inr s' \<and>
     fst s' = [out] \<and> LiMBinder (sample_b ''add'' 0 0) sample_line blank_ci w target = Inr out"
proof -
  let ?p = "[(''MemoryType'', [(''WordLength'', [''8''])]),
     (''SynthesisProcess'', [(''AdoptedOptimizations'', [''None'']), (''SchedulingAlgorithm'', [''ALAP''])])]"
  let ?F = "\<lparr>f_config = None, f_detector = blank_detector, f_binder = sample_b ''add'' 0 0, f_info = blank_ci, f_blocks = []\<rparr>"
  let ?s = "([], \<lparr>p_parsedData = ?p, p_instructionTable = sample_line\<rparr>)"
  have inv: "config_inv (p_parsedData (snd ?s))" by (auto simp: config_inv_def split: if_splits)
  have set: "setting (p_parsedData (snd ?s)) ''SynthesisProcess'' ''SchedulingAlgorithm'' = Some [''ALAP'']"
    "setting ?p ''MemoryType'' ''WordLength'' = Some [''8'']"
    "setting ?p ''SynthesisProcess'' ''AdoptedOptimizations'' = Some [''None'']"
    by (simp_all add: setting_def)
  have n: "stoi ''8'' = Inr 8" by (simp add: stoi_def is_space_def is_digit_def digits_value_def digit_value_def)
  have g: "getWordLength ?p = Inr 8" "getSchedulingAlgorithm ?p = Inr ''ALAP''" "getOptimizationTarget ?p = Inr ''None''"
    using getters_of_settings[OF set(2) n _ set(3), of "''ALAP''"] set(1) by simp_all
  have "instructionOrderVector sample_line \<noteq> []" by (simp add: sample_line_tables)
  then obtain out where out: "LiMBinder (sample_b ''add'' 0 0) sample_line blank_ci 8 ''None'' = Inr out"
    using straight_line_output[OF sample_line_straight] by blast
  have run: "\<exists>s'. efold run_function [?F] ?s = Inr s'"
    using g out by (simp add: run_function_def runOnFunction_def run_phases_def ParseConfigFile_def detectDependencies_def)
  then obtain s' where s': "efold run_function [?F] ?s = Inr s'" ..
  from run_functions_stale[OF s' inv set(1)] obtain outs w target where
    "fst s' = outs" "list_all2 (\<lambda>F out. LiMBinder (f_binder F) sample_line (f_info F) w target = Inr out) [?F] outs"
    by (auto simp: list_all2_Cons1)
  then show ?thesis using s' by (auto simp: list_all2_Cons1)
qed

end
