(* ===== verification/Hardware_Synthesis.thy ===== *)
theory Hardware_Synthesis
  imports Straight_Hardware Octantis_Pass
begin

text \<open>
  From the source program to the hardware: for linear programs without sums what the printed hardware
  leaves in its memory is what the assignments of the program compute on bytes, as long as the memory has
  a cell for every row; with the size that is printed there is one only if the program is a single
  assignment.
\<close>

section \<open>The source programs on bytes\<close>

text \<open>The values that get a row: what the program loads and what it computes.\<close>

definition program_values :: "assignment list \<Rightarrow> ptr set" where
  "program_values prog = (\<Union>A \<in> set prog. {a_left A, a_right A}) \<union> a_result ` set prog"

text \<open>The number of clock periods from the one with the pulse of \<open>GO\<close> to \<open>DONE\<close>.\<close>

definition run_length :: "bindingOutput \<Rightarrow> nat" where
  "run_length out = 2 * nat (getFSMSize (b_FSMLim (out_binder out))) - 2"

definition printed_op :: "opcode \<Rightarrow> bool" where
  "printed_op oc \<longleftrightarrow> oc \<in> {OpAnd, OpOr, OpXor}"

text \<open>
  The operations of the hardware; the last equation is for those that \<open>printed_op\<close> leaves out, the sum
  among them.
\<close>

fun alu :: "opcode \<Rightarrow> byte \<Rightarrow> byte \<Rightarrow> byte" where
  "alu OpAnd a b = a AND b"
| "alu OpOr a b = a OR b"
| "alu OpXor a b = a XOR b"
| "alu _ a b = 0"

fun exec :: "assignment list \<Rightarrow> (ptr \<Rightarrow> byte) \<Rightarrow> ptr \<Rightarrow> byte" where
  "exec [] s = s"
| "exec (A # As) s = exec As (s(a_dest A := alu (a_op A) (s (a_left A)) (s (a_right A))))"

text \<open>The name of the value that a variable has at the end.\<close>

fun last_value :: "(ptr \<Rightarrow> ptr) \<Rightarrow> assignment list \<Rightarrow> ptr \<Rightarrow> ptr" where
  "last_value \<sigma> [] = \<sigma>"
| "last_value \<sigma> (A # As) = last_value (\<sigma>(a_dest A := a_result A)) As"

text \<open>The operators that are printed commute.\<close>

lemma gate_alu: "printed_op oc \<Longrightarrow> gate (op_name oc) b a = Some (alu oc a b)"
  by (cases oc) (auto simp: printed_op_def gate_def gates_def and.commute or.commute xor.commute)

lemma printed_op_logic: "printed_op oc \<Longrightarrow> op_name oc \<in> bitwise_logic \<and> op_name oc \<noteq> ''load''"
  by (auto simp: printed_op_def printed_logic_def bitwise_logic_def)

definition values_hold :: "value_def list \<Rightarrow> (ptr \<Rightarrow> byte) \<Rightarrow> bool" where
  "values_hold q val \<longleftrightarrow> (\<forall>(r, op, x, y) \<in> set q. gate op (val y) (val x) = Some (val r))"

lemma exec_resolve:
  assumes "values_hold (resolve \<sigma> prog) val" "\<forall>A \<in> set prog. printed_op (a_op A) \<and> a_left A \<in> V \<and> a_right A \<in> V"
    and "\<forall>v \<in> V. val (\<sigma> v) = s v" "v \<in> V \<union> a_dest ` set prog"
  shows "val (last_value \<sigma> prog v) = exec prog s v"
  using assms
proof (induction prog arbitrary: \<sigma> s V)
  case (Cons A As)
  have "gate (op_name (a_op A)) (val (\<sigma> (a_right A))) (val (\<sigma> (a_left A))) = Some (val (a_result A))"
    using Cons.prems(1) by (simp add: values_hold_def)
  then have r: "val (a_result A) = alu (a_op A) (s (a_left A)) (s (a_right A))"
    using gate_alu[of "a_op A"] Cons.prems(2,3) by simp
  show ?case
    unfolding last_value.simps exec.simps
  proof (rule Cons.IH[where V = "insert (a_dest A) V"])
    show "values_hold (resolve (\<sigma>(a_dest A := a_result A)) As) val" using Cons.prems(1) by (simp add: values_hold_def)
    show "\<forall>v \<in> insert (a_dest A) V. val ((\<sigma>(a_dest A := a_result A)) v) =
        (s(a_dest A := alu (a_op A) (s (a_left A)) (s (a_right A)))) v"
      using Cons.prems(3) r by simp
  qed (use Cons.prems(2,4) in auto)
qed simp

lemma last_value_result: "v \<in> a_dest ` set prog \<Longrightarrow> last_value \<sigma> prog v \<in> a_result ` set prog"
proof -
  have "last_value \<sigma> As v \<in> {\<sigma> v} \<union> a_result ` set As \<and> (v \<in> a_dest ` set As \<longrightarrow> last_value \<sigma> As v \<in> a_result ` set As)"
    for As \<sigma> v
  proof (induction As arbitrary: \<sigma>)
    case (Cons A As)
    define \<sigma>' where "\<sigma>' = \<sigma>(a_dest A := a_result A)"
    have "\<sigma>' v = (if v = a_dest A then a_result A else \<sigma> v)" by (simp add: \<sigma>'_def)
    then show ?case using Cons.IH[of \<sigma>'] unfolding last_value.simps \<sigma>'_def[symmetric] by (auto split: if_splits)
  qed simp
  then show "v \<in> a_dest ` set prog \<Longrightarrow> last_value \<sigma> prog v \<in> a_result ` set prog" by blast
qed

section \<open>The hardware of a program\<close>

text \<open>
  What is known of the hardware of a program: the architecture that is printed, the cells of the values,
  and the array behind it, whose names end at twice the number of assignments above the loads.
\<close>

definition program_hardware ::
  "assignment list \<Rightarrow> bindingOutput \<Rightarrow> vhdl_output \<Rightarrow> (ptr \<Rightarrow> ptr) \<Rightarrow> nat \<Rightarrow> bool" where
  "program_hardware prog out vhdl R loads \<longleftrightarrow>
     (let m = b_MemArray (out_binder out); f = b_FSMLim (out_binder out) in
      printVhdl m f = Inr vhdl \<and> compInst (v_arch vhdl) = array_items m f \<and> printable m f \<and> ordered m f \<and> without_sums m \<and>
      length m = loads + length prog \<and> loads \<le> 2 * length prog \<and>
      (\<forall>p \<in> dom (sm_find m). cell p + 2 \<le> loads + 2 * length prog) \<and>
      (\<exists>p \<in> dom (sm_find m). loads + 2 * length prog \<le> cell p + 2) \<and>
      (\<forall>v \<in> program_values prog. R v \<in> dom (sm_find m)) \<and>
      (\<forall>v \<in> program_values prog. names_of (out_binder out) v = [R v]) \<and>
      inj_on (\<lambda>v. cell (R v)) (program_values prog) \<and>
      (\<forall>start val. solves m f start val \<longrightarrow> values_hold (resolve id prog) (\<lambda>v. val (R v)) \<and>
         (\<forall>v \<in> (\<Union>A \<in> set prog. {a_left A, a_right A}). val (R v) = start ! cell (R v))))"

lemma cell_less: "0 \<le> p \<Longrightarrow> cell p < n \<longleftrightarrow> p < 4 * int n"
proof -
  assume p: "0 \<le> p"
  have "cell p < n \<longleftrightarrow> p div 4 < int n" using p by (simp add: nat_less_iff pos_imp_zdiv_nonneg_iff)
  also have "\<dots> \<longleftrightarrow> p < 4 * int n" by presburger
  finally show ?thesis .
qed

lemma card_operands: "distinct ls \<Longrightarrow> set ls = (\<Union>A \<in> set prog. {a_left A, a_right A}) \<Longrightarrow> length ls \<le> 2 * length prog"
proof -
  assume ls: "distinct ls" "set ls = (\<Union>A \<in> set prog. {a_left A, a_right A})"
  have "length ls = card (set ls)" using distinct_card[OF ls(1)] by simp
  also have "set ls = set (concat (map (\<lambda>A. [a_left A, a_right A]) prog))" using ls(2) by auto
  also have "card \<dots> \<le> length (concat (map (\<lambda>A. [a_left A, a_right A]) prog))" by (rule card_length)
  also have "\<dots> = 2 * length prog" by (induction prog) auto
  finally show ?thesis .
qed

lemma synthesise_hardware:
  assumes "scalar_program info prog" "linear {} (resolve id prog)" "prog \<noteq> []"
    and "\<forall>A \<in> set prog. printed_op (a_op A)" "length prog \<le> 2 ^ 27"
  shows "\<exists>out vhdl R loads. synthesise raw_d raw_b ''ASAP'' par target previous info [concat (map lower prog)] = Inr out \<and>
    program_hardware prog out vhdl R loads"
proof -
  let ?q = "resolve id prog"
  obtain graph it ls where it: "detectDependencies raw_d info [concat (map lower prog)] = Inr graph"
    "scheduleFunction graph = Inr it" "straight_line info it {} {} (instructionOrderVector it)"
    "instructionOrderVector it \<noteq> []" "list_all (entry_of it) ?q"
    "a_result ` set prog \<subseteq> fst ` set (instructionOrderVector it)"
    "instructionOrderVector it = map (\<lambda>v. (v, ''load'')) ls @ map (\<lambda>e. (fst e, fst (snd e))) ?q"
    "distinct ls" "set ls = (\<Union>A \<in> set prog. {a_left A, a_right A})" "\<forall>v \<in> set ls. load_entry it v"
    "\<forall>k d. sm_find (instructionMap it) k = Some d \<longrightarrow> operation d = ''load'' \<longrightarrow> ti d = 0"
    by (rule program_table[OF assms(1-3)])
  let ?es = "instructionOrderVector it" and ?V = "fst ` set (instructionOrderVector it)"
  have ops: "\<forall>(r, op, x, y) \<in> set ?q. op \<in> bitwise_logic \<and> op \<noteq> ''load''"
  proof -
    have "\<forall>(r, op, x, y) \<in> set (resolve \<sigma> prog). op \<in> bitwise_logic \<and> op \<noteq> ''load''" for \<sigma>
      using assms(4) printed_op_logic by (induction prog arbitrary: \<sigma>) auto
    then show ?thesis .
  qed
  have entry: "\<exists>d. sm_find (instructionMap it) r = Some d \<and> operation d = op \<and> sourceReg1 d = x \<and> sourceReg2 d = y"
    if "(r, op, x, y) \<in> set ?q" for r op x y
    using it(5) that by (fastforce simp: list_all_iff entry_of_def)
  have len: "length ?q = length prog" using arg_cong[OF resolve_results[of id prog], of length] by simp
  have "filter (\<lambda>e. case sm_find (instructionMap it) (fst e) of Some d \<Rightarrow> operation d \<noteq> ''load'' | None \<Rightarrow> False)
      (map (\<lambda>v. (v, ''load'')) ls) = []"
    using it(10) by (auto simp: filter_empty_conv load_entry_def)
  moreover have "filter (\<lambda>e. case sm_find (instructionMap it) (fst e) of Some d \<Rightarrow> operation d \<noteq> ''load'' | None \<Rightarrow> False)
      (map (\<lambda>e. (fst e, fst (snd e))) ?q) = map (\<lambda>e. (fst e, fst (snd e))) ?q"
    unfolding filter_id_conv
  proof
    fix e assume "e \<in> set (map (\<lambda>e. (fst e, fst (snd e))) ?q)"
    then obtain r op x y where e: "(r, op, x, y) \<in> set ?q" "e = (r, op)" by auto
    obtain d where "sm_find (instructionMap it) r = Some d" "operation d = op" using entry[OF e(1)] by blast
    moreover have "op \<noteq> ''load''" using ops e(1) by blast
    ultimately show "case sm_find (instructionMap it) (fst e) of Some d \<Rightarrow> operation d \<noteq> ''load'' | None \<Rightarrow> False"
      by (simp add: e(2))
  qed
  ultimately have count: "operations ?es it = length prog"
    unfolding operations_def it(7) filter_append by (simp add: len)
  have total: "length ?es = length ls + length prog" by (simp add: it(7) len)
  have bound: "length ls \<le> 2 * length prog" by (rule card_operands[OF it(8,9)])
  have "distinct (map fst ?es)"
  proof -
    have "set ls \<inter> a_result ` set prog = {}" "distinct (map a_result prog)"
      using assms(1) it(9) by (auto simp: scalar_program_def program_variables_def)
    moreover have "map fst ?es = ls @ map a_result prog"
      unfolding it(7) by (simp add: comp_def resolve_results[of id prog, symmetric])
    ultimately show ?thesis using it(8) by auto
  qed
  note dist = this
  have printable: "\<forall>e \<in> set ?es. printable_entry it (fst e)"
  proof
    fix e assume "e \<in> set ?es"
    then consider "fst e \<in> set ls" | r op x y where "(r, op, x, y) \<in> set ?q" "fst e = r"
      unfolding it(7) by fastforce
    then show "printable_entry it (fst e)"
    proof cases
      case 1
      then show ?thesis using it(10,11) by (auto simp: printable_entry_def load_entry_def)
    next
      case 2
      obtain d where "sm_find (instructionMap it) r = Some d" "operation d = op" using entry[OF 2(1)] by blast
      moreover have "op \<in> bitwise_logic" "op \<noteq> ''load''" using ops 2(1) by blast+
      ultimately show ?thesis using 2(2) by (simp add: printable_entry_def)
    qed
  qed
  have pos: "0 < operations ?es it" using assms(3) unfolding count by simp
  have fits: "4 * int (length ?es + operations ?es it) \<le> 2 ^ 31"
    unfolding count total using bound assms(5) by simp
  obtain b out R vhdl where h:
    "bind_instructions ?es (binder_start raw_b it info par target) = Inr b"
    "LiMBinder raw_b it info par target = Inr out" "out_binder out = b\<lparr>b_FSMLim := transform (b_FSMLim b)\<rparr>"
    "printVhdl (b_MemArray (out_binder out)) (b_FSMLim (out_binder out)) = Inr vhdl"
    "compInst (v_arch vhdl) = array_items (b_MemArray b) (transform (b_FSMLim b))"
    "printable (b_MemArray b) (transform (b_FSMLim b))" "ordered (b_MemArray b) (transform (b_FSMLim b))" "without_sums (b_MemArray b)"
    "\<forall>v \<in> ?V. placed it ?V R b v \<and> names_of (out_binder out) v = [R v]"
    "dom (sm_find (b_MemArray b)) = R ` ?V" "inj_on R ?V" "length (b_MemArray b) = length ?es"
    "b_zeroAddr b = 4 * int (length ?es + operations ?es it)"
    "\<forall>p \<in> dom (sm_find (b_MemArray b)). row_name (b_zeroAddr b) p"
    "\<exists>p \<in> dom (sm_find (b_MemArray b)). b_zeroAddr b \<le> p + 8"
    "last_is_operation it ?es \<longrightarrow> (\<forall>p \<in> dom (sm_find (b_MemArray b)). p + 8 \<le> b_zeroAddr b)"
    by (rule straight_line_hardware[OF it(3) printable pos fits dist])
  have zero: "b_zeroAddr b = 4 * int (length ls + 2 * length prog)" using h(13) unfolding count total by simp
  have vh: "values_hold ?q (\<lambda>v. val (R v)) \<and>
      (\<forall>v \<in> (\<Union>A \<in> set prog. {a_left A, a_right A}). val (R v) = start ! cell (R v))"
    if sol: "solves (b_MemArray b) (transform (b_FSMLim b)) start val" for start val
  proof -
    have "\<forall>v \<in> ?V. placed it ?V R b v" using h(9) by blast
    from placed_values[OF this sol] have tv: "table_values it ?V (\<lambda>v. start ! cell (R v)) (\<lambda>v. val (R v))"
      by (simp add: transform_def)
    have "gate op (val (R y)) (val (R x)) = Some (val (R r))" if e: "(r, op, x, y) \<in> set ?q" for r op x y
    proof -
      obtain d where d: "sm_find (instructionMap it) r = Some d" "operation d = op" "sourceReg1 d = x" "sourceReg2 d = y"
        using entry[OF e] by blast
      have "(r, op) \<in> set ?es" unfolding it(7) using e by force
      then have "r \<in> ?V" by force
      moreover have "op \<noteq> ''load''" using ops e by blast
      ultimately show ?thesis using tv d unfolding table_values_def by blast
    qed
    moreover have "val (R v) = start ! cell (R v)" if v: "v \<in> set ls" for v
    proof -
      obtain d where d: "sm_find (instructionMap it) v = Some d" "operation d = ''load''"
        using it(10) v by (auto simp: load_entry_def)
      have "v \<in> ?V" unfolding it(7) using v by force
      then show ?thesis using tv d unfolding table_values_def by blast
    qed
    ultimately show ?thesis unfolding values_hold_def it(9)[symmetric] by blast
  qed
  have "last_is_operation it ?es"
  proof -
    have ne: "?q \<noteq> []" using assms(3) len by auto
    obtain r op x y where e: "last ?q = (r, op, x, y)" by (cases "last ?q")
    then have mem: "(r, op, x, y) \<in> set ?q" using last_in_set[OF ne] by simp
    obtain d where "sm_find (instructionMap it) r = Some d" "operation d = op" using entry[OF mem] by blast
    moreover have "op \<noteq> ''load''" using ops mem by blast
    moreover have "last ?es = (r, op)" unfolding it(7) using ne e by (simp add: last_map)
    ultimately show ?thesis using it(4) by (simp add: last_is_operation_def)
  qed
  then have below: "p + 8 \<le> b_zeroAddr b" if "p \<in> dom (sm_find (b_MemArray b))" for p using h(16) that by blast
  have cells: "cell p + 2 \<le> length ls + 2 * length prog" if "p \<in> dom (sm_find (b_MemArray b))" for p
  proof -
    have "0 \<le> p" using h(14) that unfolding row_name_def by blast
    moreover have "0 < length prog" using assms(3) by simp
    ultimately have "cell p < length ls + 2 * length prog - 1"
      using below[OF that] unfolding zero by (simp add: cell_less)
    then show ?thesis by linarith
  qed
  obtain p where p: "p \<in> dom (sm_find (b_MemArray b))" "b_zeroAddr b \<le> p + 8" using h(15) by blast
  then have "\<not> cell p + 2 < length ls + 2 * length prog"
  proof -
    have "0 \<le> p" using h(14) p(1) by (auto simp: row_name_def)
    then have "\<not> cell p < length ls + 2 * length prog - 2" using p(2) unfolding zero by (simp add: cell_less)
    then show ?thesis by linarith
  qed
  then have "length ls + 2 * length prog \<le> cell p + 2" by simp
  then have top: "\<exists>p \<in> dom (sm_find (b_MemArray b)). length ls + 2 * length prog \<le> cell p + 2" using p(1) by blast
  let ?W = "program_values prog"
  have "set ls \<subseteq> ?V" unfolding it(7) by force
  then have W: "?W \<subseteq> ?V" using it(6,9) unfolding program_values_def by blast
  have named: "R v \<in> dom (sm_find (b_MemArray b))" if "v \<in> ?W" for v
    using W that unfolding h(10) by blast
  have names: "names_of (out_binder out) v = [R v]" if "v \<in> ?W" for v
    using W that h(9) by blast
  have own: "inj_on (\<lambda>v. cell (R v)) ?W"
  proof (rule inj_onI)
    fix v w assume vw: "v \<in> ?W" "w \<in> ?W" "cell (R v) = cell (R w)"
    have "row_name (b_zeroAddr b) (R v)" "row_name (b_zeroAddr b) (R w)"
      using h(14) named[OF vw(1)] named[OF vw(2)] by blast+
    then have "R v = R w" using vw(3) cell_inj[of "R v" "R w"] unfolding row_name_def by blast
    moreover have "v \<in> ?V" "w \<in> ?V" using vw(1,2) W by blast+
    ultimately show "v = w" using h(11) by (simp add: inj_on_eq_iff)
  qed
  have fields: "b_MemArray (out_binder out) = b_MemArray b" "b_FSMLim (out_binder out) = transform (b_FSMLim b)"
    by (simp_all add: h(3))
  have "program_hardware prog out vhdl R (length ls)"
    unfolding program_hardware_def Let_def fields
  proof (intro conjI)
    show "printVhdl (b_MemArray b) (transform (b_FSMLim b)) = Inr vhdl" using h(4) unfolding fields .
    show "length (b_MemArray b) = length ls + length prog" using h(12) total by simp
    show "\<forall>p \<in> dom (sm_find (b_MemArray b)). cell p + 2 \<le> length ls + 2 * length prog" using cells by (rule ballI)
    show "\<forall>v \<in> program_values prog. R v \<in> dom (sm_find (b_MemArray b))"
      using named by (rule ballI)
    show "\<forall>v \<in> ?W. names_of (out_binder out) v = [R v]" using names by (rule ballI)
    show "\<forall>start val. solves (b_MemArray b) (transform (b_FSMLim b)) start val \<longrightarrow> values_hold ?q (\<lambda>v. val (R v)) \<and>
        (\<forall>v \<in> (\<Union>A \<in> set prog. {a_left A, a_right A}). val (R v) = start ! cell (R v))"
      using vh by (intro allI impI)
  qed (rule h(5-8) bound top own)+
  moreover have "synthesise raw_d raw_b ''ASAP'' par target previous info [concat (map lower prog)] = Inr out"
    using it(1,2) h(2) by (simp add: synthesise_def)
  ultimately show ?thesis by blast
qed

lemma program_hardwareD:
  fixes out
  defines "m \<equiv> b_MemArray (out_binder out)" and "f \<equiv> b_FSMLim (out_binder out)"
  assumes "program_hardware prog out vhdl R loads"
  shows "printVhdl m f = Inr vhdl" "compInst (v_arch vhdl) = array_items m f" "printable m f" "ordered m f"
    "length m = loads + length prog" "loads \<le> 2 * length prog"
    "p \<in> dom (sm_find m) \<Longrightarrow> cell p + 2 \<le> loads + 2 * length prog"
    "\<exists>p \<in> dom (sm_find m). loads + 2 * length prog \<le> cell p + 2"
    "v \<in> program_values prog \<Longrightarrow> R v \<in> dom (sm_find m)"
    "solves m f start val \<Longrightarrow> values_hold (resolve id prog) (\<lambda>v. val (R v)) \<and>
       (\<forall>v \<in> (\<Union>A \<in> set prog. {a_left A, a_right A}). val (R v) = start ! cell (R v))"
    "\<forall>v \<in> program_values prog. names_of (out_binder out) v = [R v]"
    "inj_on (\<lambda>v. cell (R v)) (program_values prog)"
    "without_sums m"
proof -
  note c = assms(3)[unfolded program_hardware_def Let_def, folded m_def f_def]
  show "printVhdl m f = Inr vhdl" using c by (elim conjE)
  show "compInst (v_arch vhdl) = array_items m f" using c by (elim conjE)
  show "printable m f" using c by (elim conjE)
  show "ordered m f" using c by (elim conjE)
  show "without_sums m" using c by (elim conjE)
  show "length m = loads + length prog" using c by (elim conjE)
  show "loads \<le> 2 * length prog" using c by (elim conjE)
  show "\<forall>v \<in> program_values prog. names_of (out_binder out) v = [R v]"
    using c by (elim conjE)
  show "inj_on (\<lambda>v. cell (R v)) (program_values prog)"
    using c by (elim conjE)
  show "\<exists>p \<in> dom (sm_find m). loads + 2 * length prog \<le> cell p + 2" using c by (elim conjE)
  have cells: "\<forall>p \<in> dom (sm_find m). cell p + 2 \<le> loads + 2 * length prog" using c by (elim conjE)
  show "cell p + 2 \<le> loads + 2 * length prog" if "p \<in> dom (sm_find m)" by (rule bspec[OF cells that])
  have named: "\<forall>v \<in> program_values prog. R v \<in> dom (sm_find m)"
    using c by (elim conjE)
  show "R v \<in> dom (sm_find m)" if "v \<in> program_values prog"
    by (rule bspec[OF named that])
  have sol: "\<forall>start val. solves m f start val \<longrightarrow> values_hold (resolve id prog) (\<lambda>v. val (R v)) \<and>
      (\<forall>v \<in> (\<Union>A \<in> set prog. {a_left A, a_right A}). val (R v) = start ! cell (R v))"
    using c by (elim conjE)
  show "values_hold (resolve id prog) (\<lambda>v. val (R v)) \<and>
      (\<forall>v \<in> (\<Union>A \<in> set prog. {a_left A, a_right A}). val (R v) = start ! cell (R v))" if "solves m f start val"
    using sol that by (elim allE impE)
qed

lemma program_hardware_run:
  assumes "program_hardware prog out vhdl R loads" "\<forall>A \<in> set prog. printed_op (a_op A)"
    and "after_reset st" "loads + 2 * length prog \<le> length (hw_mem st) + 1"
  shows "\<exists>st'. clock_periods (compInst (v_arch vhdl)) (pulse (run_length out)) st = Some st' \<and>
    hw_active st' DONE \<and>
    (\<forall>v \<in> a_dest ` set prog. hw_mem st' ! cell (R (last_value id prog v)) = exec prog (\<lambda>v. hw_mem st ! cell (R v)) v)"
proof -
  let ?m = "b_MemArray (out_binder out)" and ?f = "b_FSMLim (out_binder out)"
  let ?V = "\<Union>A \<in> set prog. {a_left A, a_right A}"
  note h = program_hardwareD[OF assms(1)]
  have fits: "fits ?m (length (hw_mem st))"
    unfolding fits_def
  proof
    fix p assume "p \<in> dom (sm_find ?m)"
    then have "cell p + 2 \<le> loads + 2 * length prog" by (rule h(7))
    then show "cell p < length (hw_mem st)" using assms(4) by linarith
  qed
  obtain val where val: "solves ?m ?f (hw_mem st) val" using solution_exists[OF h(3,4,13)] by blast
  obtain st' where st': "clock_periods (array_items ?m ?f) (pulse (2 * nat (getFSMSize ?f) - 2)) st = Some st'"
    "hw_active st' DONE" "\<forall>p \<in> dom (sm_find ?m). hw_mem st' ! cell p = val p"
    using hardware_result[OF h(3,4) val fits assms(3)] by blast
  have "hw_mem st' ! cell (R (last_value id prog v)) = exec prog (\<lambda>v. hw_mem st ! cell (R v)) v"
    if v: "v \<in> a_dest ` set prog" for v
  proof -
    have "R (last_value id prog v) \<in> dom (sm_find ?m)" 
      by (rule h(9)) (use last_value_result[OF v] in \<open>simp add: program_values_def\<close>)
    then have "hw_mem st' ! cell (R (last_value id prog v)) = val (R (last_value id prog v))" using st'(3) by blast
    also have "\<dots> = exec prog (\<lambda>v. hw_mem st ! cell (R v)) v"
      by (rule exec_resolve[where V = ?V and val = "\<lambda>v. val (R v)"]) (use h(10)[OF val] assms(2) v in auto)
    finally show ?thesis .
  qed
  then show ?thesis using st'(1,2) unfolding h(2) run_length_def by blast
qed

text \<open>With the size that is printed.\<close>

lemma program_hardware_size:
  assumes "program_hardware prog out vhdl R loads" "\<forall>A \<in> set prog. printed_op (a_op A)" "prog \<noteq> []"
    and "after_reset st" "int (length (hw_mem st)) = getDimensions (b_MemArray (out_binder out))"
  shows "(clock_periods (compInst (v_arch vhdl)) (pulse (run_length out)) st \<noteq> None)
    \<longleftrightarrow> length prog = 1"
proof -
  let ?m = "b_MemArray (out_binder out)" and ?f = "b_FSMLim (out_binder out)"
  have h: "compInst (v_arch vhdl) = array_items ?m ?f" "printable ?m ?f" "ordered ?m ?f" "length ?m = loads + length prog"
    "\<exists>p \<in> dom (sm_find ?m). loads + 2 * length prog \<le> cell p + 2"
    using program_hardwareD[OF assms(1)] by blast+
  have len: "length (hw_mem st) = loads + length prog" using assms(5) h(4) by (simp add: getDimensions_def)
  show ?thesis
  proof (cases "length prog = 1")
    case True
    then have "loads + 2 * length prog \<le> length (hw_mem st) + 1" using len by simp
    from program_hardware_run[OF assms(1,2,4) this] show ?thesis using True by auto
  next
    case False
    moreover have "length prog \<noteq> 0" using assms(3) by simp
    ultimately have two: "2 \<le> length prog" by linarith
    obtain p where p: "p \<in> dom (sm_find ?m)" "loads + 2 * length prog \<le> cell p + 2" using h(5) by blast
    have "length (hw_mem st) \<le> cell p" using p(2) two len by linarith
    from run_outside[OF h(2,3) assms(4) p(1) this] show ?thesis using False unfolding h(1) by (simp add: run_length_def)
  qed
qed

section \<open>The hardware of a program\<close>

text \<open>
  From the source to the hardware: the pass compiles linear scalar code with conjunctions and (exclusive)
  disjunctions so that the printed architecture computes it. Whatever is in a memory that is
  large enough, after the reset and a pulse of \<open>GO\<close> the architecture raises \<open>DONE\<close>, and then the cell of
  every assigned variable holds the value that the program computes from the cells of its variables. The
  cells are those of the rows that the binder has noted for the values, and no two values share one.
\<close>

lemma runOnFunction_hardware:
  assumes "scalar_program info prog" "linear {} (resolve id prog)" "prog \<noteq> []"
    and "\<forall>A \<in> set prog. printed_op (a_op A)" "length prog \<le> 2 ^ 27"
    and "list_all2 written_as items ls" "p_parsedData P = []"
    and "map_of (settings '''' items) (''MemoryType'', ''WordLength'') = Some w" "stoi w = Inr n"
    and "map_of (settings '''' items) (''SynthesisProcess'', ''SchedulingAlgorithm'') = Some ''ASAP''"
    and "map_of (settings '''' items) (''SynthesisProcess'', ''AdoptedOptimizations'') = Some target"
  shows "\<exists>out P' vhdl R.
    runOnFunction (Some (concat (map (\<lambda>l. l @ [newline]) ls))) raw_d raw_b info [concat (map lower prog)] P = Inr (out, P') \<and>
    printVhdl (b_MemArray (out_binder out)) (b_FSMLim (out_binder out)) = Inr vhdl \<and>
    (\<forall>v \<in> program_values prog. names_of (out_binder out) v = [R v]) \<and> inj_on (\<lambda>v. cell (R v)) (program_values prog) \<and>
    (\<forall>st. after_reset st \<and> 4 * length prog \<le> length (hw_mem st) \<longrightarrow>
       (\<exists>st'. clock_periods (compInst (v_arch vhdl)) (pulse (run_length out)) st = Some st' \<and> hw_active st' DONE \<and>
          (\<forall>v \<in> a_dest ` set prog.
             hw_mem st' ! cell (R (last_value id prog v)) = exec prog (\<lambda>v. hw_mem st ! cell (R v)) v)))"
proof -
  obtain q where q: "ParseConfigFile (Some (concat (map (\<lambda>l. l @ [newline]) ls))) (p_parsedData P) = Inr q"
    "getWordLength q = Inr n" "getSchedulingAlgorithm q = Inr ''ASAP''" "getOptimizationTarget q = Inr target"
    using written_configuration[OF assms(6-11)] by blast
  obtain out vhdl R loads where h:
    "synthesise raw_d raw_b ''ASAP'' n target (p_instructionTable P) info [concat (map lower prog)] = Inr out"
    "program_hardware prog out vhdl R loads" using synthesise_hardware[OF assms(1-5)] by blast
  obtain P' where run: "runOnFunction (Some (concat (map (\<lambda>l. l @ [newline]) ls))) raw_d raw_b info [concat (map lower prog)] P =
      Inr (out, P')" using runOnFunction_synthesise[OF q(1,3,2,4) h(1)] by blast
  have vhdl: "printVhdl (b_MemArray (out_binder out)) (b_FSMLim (out_binder out)) = Inr vhdl" "loads \<le> 2 * length prog"
    using program_hardwareD(1,6)[OF h(2)] by blast+
  have "\<exists>st'. clock_periods (compInst (v_arch vhdl)) (pulse (run_length out)) st = Some st' \<and> hw_active st' DONE \<and>
          (\<forall>v \<in> a_dest ` set prog.
             hw_mem st' ! cell (R (last_value id prog v)) = exec prog (\<lambda>v. hw_mem st ! cell (R v)) v)"
    if "after_reset st" "4 * length prog \<le> length (hw_mem st)" for st
  proof -
    have "loads + 2 * length prog \<le> length (hw_mem st) + 1" using that(2) vhdl(2) by linarith
    from program_hardware_run[OF h(2) assms(4) that(1) this] show ?thesis by blast
  qed
  then show ?thesis using run vhdl(1) program_hardwareD(11,12)[OF h(2)] by blast
qed

text \<open>The program \<open>c = a & b; a = c ^ d\<close> and the configuration file that comes with the tool.\<close>

lemma sample_program_printed: "\<forall>A \<in> set sample_program. printed_op (a_op A)" "length sample_program \<le> 2 ^ 27"
  by (simp_all add: sample_program_def printed_op_def)

lemma shipped_settings:
  "map_of (settings '''' shipped_items) (''MemoryType'', ''WordLength'') = Some ''8''" "stoi ''8'' = Inr 8"
  "map_of (settings '''' shipped_items) (''SynthesisProcess'', ''SchedulingAlgorithm'') = Some ''ASAP''"
  "map_of (settings '''' shipped_items) (''SynthesisProcess'', ''AdoptedOptimizations'') = Some ''Accumulation''"
  by (simp_all add: shipped_items_def macroTypes_def accepted_def fieldsMem_def fieldsSyn_def
      stoi_def is_space_def is_digit_def digits_value_def digit_value_def)

section \<open>Properties\<close>

text \<open>
  C36: for linear programs of at least one and at most \<open>2 ^ 27\<close> scalar assignments with
  conjunctions and (exclusive) disjunctions the size that is printed is too small: the entity gets as many
  entries as there are rows, but the binder has taken two names for each operation. With a memory of the printed
  size the hardware runs to its end for such a program of one assignment, and stops with an index outside the
  memory for any longer one. (A program that is not linear, and loses operations, may stay inside.)
\<close>

theorem printed_size_is_too_small:
  assumes "scalar_program info prog" "linear {} (resolve id prog)" "prog \<noteq> []"
    and "\<forall>A \<in> set prog. printed_op (a_op A)" "length prog \<le> 2 ^ 27"
  shows "\<exists>out vhdl. synthesise raw_d raw_b ''ASAP'' par target previous info [concat (map lower prog)] = Inr out \<and>
    printVhdl (b_MemArray (out_binder out)) (b_FSMLim (out_binder out)) = Inr vhdl \<and>
    (\<forall>st. after_reset st \<and> int (length (hw_mem st)) = getDimensions (b_MemArray (out_binder out)) \<longrightarrow>
       (clock_periods (compInst (v_arch vhdl)) (pulse (run_length out)) st \<noteq> None \<longleftrightarrow> length prog = 1))"
proof -
  obtain out vhdl R loads where h:
    "synthesise raw_d raw_b ''ASAP'' par target previous info [concat (map lower prog)] = Inr out"
    "program_hardware prog out vhdl R loads" using synthesise_hardware[OF assms] by blast
  have vhdl: "printVhdl (b_MemArray (out_binder out)) (b_FSMLim (out_binder out)) = Inr vhdl"
    using program_hardwareD(1)[OF h(2)] by blast
  show ?thesis using h(1) vhdl program_hardware_size[OF h(2) assms(4,3)] by blast
qed

theorem printed_size_is_too_small_witness:
  "\<exists>out vhdl. synthesise blank_detector (sample_b ''and'' 0 4) ''ASAP'' 8 ''None'' empty_IT sample_info
       [concat (map lower sample_program)] = Inr out \<and>
     printVhdl (b_MemArray (out_binder out)) (b_FSMLim (out_binder out)) = Inr vhdl \<and>
     clock_periods (compInst (v_arch vhdl)) (pulse (run_length out))
       (and_start\<lparr>hw_mem := replicate (nat (getDimensions (b_MemArray (out_binder out)))) 0\<rparr>) = None"
proof -
  from printed_size_is_too_small[OF sample_program_facts sample_program_printed,
      of blank_detector "sample_b ''and'' 0 4" 8 "''None''" empty_IT]
  obtain out vhdl where o: "synthesise blank_detector (sample_b ''and'' 0 4) ''ASAP'' 8 ''None'' empty_IT sample_info
       [concat (map lower sample_program)] = Inr out"
    "printVhdl (b_MemArray (out_binder out)) (b_FSMLim (out_binder out)) = Inr vhdl"
    "\<And>st. after_reset st \<Longrightarrow> int (length (hw_mem st)) = getDimensions (b_MemArray (out_binder out)) \<Longrightarrow>
       clock_periods (compInst (v_arch vhdl)) (pulse (run_length out)) st \<noteq> None \<longleftrightarrow> length sample_program = 1"
    by blast
  let ?st = "and_start\<lparr>hw_mem := replicate (nat (getDimensions (b_MemArray (out_binder out)))) 0\<rparr>"
  have "after_reset ?st" "int (length (hw_mem ?st)) = getDimensions (b_MemArray (out_binder out))"
    by (simp_all add: after_reset_def and_start_def getDimensions_def)
  moreover have "length sample_program \<noteq> 1" by (simp add: sample_program_def)
  ultimately show ?thesis using o by blast
qed

end
