(* ===== verification/Collect_Walk.thy ===== *)
theory Collect_Walk
  imports Collect_Info Complex_Main "HOL-Library.Signed_Division"
begin

text \<open>
  \<open>Analysis/CollectInfo\<close>, the walk: \<open>parseFunction\<close> goes through the blocks of a function and fills the
  tables of \<open>Collect_Info\<close>. What LLVM knows of the function (its blocks, its loops) is the argument;
  \<open>raw\<close> and \<open>garbage\<close> hold what is in members and local variables that the code does not initialise,
  what is found behind a vector, what \<open>front\<close> of an empty list gives, and what the first component of
  the end of a map is.
\<close>

section \<open>State\<close>

record collector = collectInfo +
  iterationList :: "int list"
  tmpPointerStruct :: pointerInfoStruct
  tmpVariableInitIterator :: ptr
  ptrValid :: bool

record garbage =
  g_loop :: loopInfoStruct
  g_index :: indexInfoStruct
  g_pattern :: access_pattern
  g_heap :: heap
  g_front :: "int res"
  g_end_key :: "ptr res"

definition collector_start :: "collector \<Rightarrow> collector" where
  "collector_start raw =
     raw\<lparr>PIT := [], LIT := empty_LIT, iteratorsAliasMap := [], aliasInfoMap := [], initValuesMap := [], validBBs := [],
         arraysInfoMap := [], loopIteratorMap := [], loopPreheaderList := [], loopHeaderList := [], loopLatchList := [],
         loopBodyList := [], combinedIteratorsMap := [], combinedIterators := [], iterationList := [], ptrValid := False\<rparr>"

text \<open>What the later phases see of it.\<close>

abbreviation collected :: "collector \<Rightarrow> collectInfo" where
  "collected c \<equiv> collectInfo.truncate c"

section \<open>Allocations\<close>

text \<open>The rows and the columns of an array; an array of arrays has the length of the inner ones as rows.\<close>

fun array_dims :: "llvmType \<Rightarrow> (int \<times> int) option" where
  "array_dims (ArrayType cols (ArrayType rows _)) = Some (rows, cols)"
| "array_dims (ArrayType cols OtherType) = Some (1, cols)"
| "array_dims OtherType = None"

definition parse_alloca :: "llvmInst \<Rightarrow> collector \<Rightarrow> collector" where
  "parse_alloca I c =
     (case i_kind I of
        AllocaInst ty \<Rightarrow>
          (let c = (case array_dims ty of
                      Some (rows, cols) \<Rightarrow> c\<lparr>arraysInfoMap := sm_insert (i_addr I) [rows, cols] (arraysInfoMap c)\<rparr>
                    | None \<Rightarrow> c)
           in c\<lparr>aliasInfoMap := sm_insert (i_addr I) [] (aliasInfoMap c)\<rparr>)
      | _ \<Rightarrow> c)"

definition parseAllocaInstructions :: "basicBlock \<Rightarrow> collector \<Rightarrow> collector" where
  "parseAllocaInstructions BB c = fold parse_alloca (bb_insts BB) c"

section \<open>Loops\<close>

text \<open>
  The preheader: a constant that is stored may be the start of an iterator. Only the first one counts
  for each register.
\<close>

definition parse_preheader_inst :: "llvmInst \<Rightarrow> collector \<Rightarrow> collector" where
  "parse_preheader_inst I c =
     (case i_kind I of
        StoreInst op0 op1 \<Rightarrow>
          (case v_const op0 of
             Some k \<Rightarrow> c\<lparr>initValuesMap := sm_insert (v_addr op1) k (initValuesMap c)\<rparr>
           | None \<Rightarrow> if list_ex (\<lambda>(reg, alias). alias = v_addr op0) (iteratorsAliasMap c)
                     then c\<lparr>tmpVariableInitIterator := v_addr op0\<rparr> else c)
      | LoadInst op0 \<Rightarrow> c\<lparr>iteratorsAliasMap := sm_modify (v_addr op0) (\<lambda>_. i_addr I) (iteratorsAliasMap c)\<rparr>
      | _ \<Rightarrow> c)"

definition parseLoopPreheader :: "basicBlock \<Rightarrow> collector \<Rightarrow> collector" where
  "parseLoopPreheader BB c = fold parse_preheader_inst (bb_insts BB) c"

text \<open>The latch: the constant that is added is taken for the increment.\<close>

definition parse_latch_inst :: "llvmInst \<Rightarrow> loopInfoStruct \<Rightarrow> loopInfoStruct res" where
  "parse_latch_inst I loopInfo =
     (case i_kind I of
        BinaryOperator oc _ op1 \<Rightarrow>
          if oc = OpAdd then
            (case v_const op1 of
               Some k \<Rightarrow> Inr (loopInfo\<lparr>iteratorIncrement := k\<rparr>)
             | None \<Rightarrow> Inl (UB ''getSExtValue of a null pointer''))
          else Inr loopInfo
      | _ \<Rightarrow> Inr loopInfo)"

text \<open>
  The header. The state is the local variable \<open>it\<close> (\<open>None\<close> as long as it is not set), the information on
  the loop and the collector.
\<close>

type_synonym header_state = "ptr option \<times> loopInfoStruct \<times> collector"

definition erase_alias :: "ptr \<Rightarrow> collector \<Rightarrow> collector res" where
  "erase_alias reg c =
     (if sm_find (aliasInfoMap c) reg = None then Inl (UB ''erase of the end of aliasInfoMap'')
      else Inr (c\<lparr>aliasInfoMap := sm_erase reg (aliasInfoMap c)\<rparr>))"

definition parse_header_load :: "garbage \<Rightarrow> llvmInst \<Rightarrow> llvmValue \<Rightarrow> header_state \<Rightarrow> header_state res" where
  "parse_header_load g I op0 = (\<lambda>(it, loopInfo, c).
     let reg = v_addr op0;
         renamed = c\<lparr>iteratorsAliasMap := sm_modify reg (\<lambda>_. i_addr I) (iteratorsAliasMap c)\<rparr>;
         known = (sm_find (iteratorsAliasMap c) reg \<noteq> None) in
     case sm_find (initValuesMap c) reg of
       Some init \<Rightarrow>
         if known then Inr (it, loopInfo, renamed)
         else ebind (erase_alias reg (c\<lparr>iteratorsAliasMap := sm_insert reg (i_addr I) (iteratorsAliasMap c)\<rparr>)) (\<lambda>c.
           Inr (Some reg, loopInfo\<lparr>iteratorInitValue := init, isInitValueConstant := True\<rparr>, c))
     | None \<Rightarrow>
         if known then Inr (it, loopInfo, renamed)
         else ebind (g_end_key g) (\<lambda>key.
           ebind (erase_alias reg (c\<lparr>iteratorsAliasMap := sm_insert key (i_addr I) (iteratorsAliasMap c)\<rparr>)) (\<lambda>c.
             Inr (Some key, loopInfo\<lparr>variableInitValue := tmpVariableInitIterator c, isInitValueConstant := False\<rparr>, c))))"

text \<open>Values of the type \<open>float\<close>: 24 significant bits, rounded to the nearest, ties to even.\<close>

definition round_even :: "rat \<Rightarrow> int" where
  "round_even x =
     (let d = x - of_int \<lfloor>x\<rfloor> in
      if d < 1 / 2 then \<lfloor>x\<rfloor> else if 1 / 2 < d then \<lfloor>x\<rfloor> + 1 else if even \<lfloor>x\<rfloor> then \<lfloor>x\<rfloor> else \<lfloor>x\<rfloor> + 1)"

definition to_float :: "rat \<Rightarrow> rat" where
  "to_float x =
     (case find (\<lambda>e. \<bar>x\<bar> < 2 powi (24 + e)) [-149..104] of
        None \<Rightarrow> x
      | Some e \<Rightarrow> of_int (round_even (x / 2 powi e)) * 2 powi e)"

definition float_quotient :: "int \<Rightarrow> int \<Rightarrow> rat" where
  "float_quotient a b = to_float (to_float (of_int a) / to_float (of_int b))"

text \<open>The number of iterations of a loop with constant bounds.\<close>

definition count_iterations :: "predicate \<Rightarrow> loopInfoStruct \<Rightarrow> loopInfoStruct res" where
  "count_iterations p loopInfo =
     (let d = iteratorFinalValue loopInfo - iteratorInitValue loopInfo; inc = iteratorIncrement loopInfo in
      if inc = 0 then Inl (UB ''remainder by zero'')
      else if d smod inc = 0 then
        Inr (if p = ICMP_SGE \<or> p = ICMP_SLE then loopInfo\<lparr>iterations := \<lfloor>float_quotient d inc\<rfloor> + 1\<rparr>
             else if p = ICMP_SGT \<or> p = ICMP_SLT then loopInfo\<lparr>iterations := \<lfloor>float_quotient d inc\<rfloor>\<rparr>
             else loopInfo)
      else Inr (loopInfo\<lparr>iterations := d sdiv inc + 1\<rparr>))"

definition parse_header_icmp :: "predicate \<Rightarrow> llvmValue \<Rightarrow> header_state \<Rightarrow> header_state res" where
  "parse_header_icmp p op1 = (\<lambda>(it, loopInfo, c).
     case v_const op1 of
       Some k \<Rightarrow>
         ebind (count_iterations p (loopInfo\<lparr>iteratorFinalValue := k\<rparr>)) (\<lambda>loopInfo.
           Inr (it, loopInfo\<lparr>isFinalValueConstant := True\<rparr>, c))
     | None \<Rightarrow>
         Inr (it,
              fold (\<lambda>(reg, alias) info.
                      if alias = v_addr op1 then info\<lparr>isFinalValueConstant := False, variableFinalValue := reg\<rparr> else info)
                (iteratorsAliasMap c) loopInfo,
              c))"

definition parse_header_branch :: "basicBlock \<Rightarrow> llvmValue list \<Rightarrow> header_state \<Rightarrow> header_state res" where
  "parse_header_branch LL ops = (\<lambda>(it, loopInfo, c).
     ebind (list_at ops 2) (\<lambda>LB1.
       let LBs = [v_addr LB1, bb_single_pred LL] in
       Inr (it, loopInfo\<lparr>loopBody := loopBody loopInfo @ LBs\<rparr>, c\<lparr>loopBodyList := loopBodyList c @ LBs\<rparr>)))"

definition parse_header_inst :: "garbage \<Rightarrow> basicBlock \<Rightarrow> llvmInst \<Rightarrow> header_state \<Rightarrow> header_state res" where
  "parse_header_inst g LL I s =
     (case i_kind I of
        LoadInst op0 \<Rightarrow> parse_header_load g I op0 s
      | ICmpInst p _ op1 \<Rightarrow> parse_header_icmp p op1 s
      | BranchInst ops \<Rightarrow> parse_header_branch LL ops s
      | _ \<Rightarrow> Inl (Unreachable ''Collect Info error: instruction inside Loop Header not identified''))"

definition parseLoopHeaderAndLatch ::
  "garbage \<Rightarrow> basicBlock \<Rightarrow> basicBlock \<Rightarrow> collector \<Rightarrow> (ptr \<times> collector) res" where
  "parseLoopHeaderAndLatch g LH LL c =
     ebind (efold parse_latch_inst (bb_insts LL)
              ((g_loop g)\<lparr>loopHeader := bb_addr LH, loopLatch := bb_addr LL, loopBody := []\<rparr>)) (\<lambda>loopInfo.
     ebind (efold (parse_header_inst g LL) (bb_insts LH) (None, loopInfo, c)) (\<lambda>(it, loopInfo, c).
     ebind (or_fail (UB ''the variable it is used uninitialised'') it) (\<lambda>it.
       Inr (it, c\<lparr>LIT := insertLoopInfo it loopInfo (LIT c)\<rparr>))))"

text \<open>The loops in preorder, each with the iterators of the loops around it, the innermost first.\<close>

definition find_block :: "basicBlock list \<Rightarrow> ptr \<Rightarrow> basicBlock res" where
  "find_block blocks p = or_fail (UB ''a null basic block is read'') (find (\<lambda>BB. bb_addr BB = p) blocks)"

definition find_loop :: "llvmLoop list \<Rightarrow> ptr \<Rightarrow> llvmLoop res" where
  "find_loop loops p = or_fail (UB ''getParentLoop of a null loop'') (find (\<lambda>L. l_addr L = p) loops)"

definition push_parent :: "llvmLoop list \<Rightarrow> ptr \<Rightarrow> int \<Rightarrow> ptr \<times> collector \<Rightarrow> (ptr \<times> collector) res" where
  "push_parent loops iteratorOp i = (\<lambda>(parent, c).
     ebind (find_loop loops parent) (\<lambda>L.
     ebind (or_fail (UB ''reads the end of loopIteratorMap'') (sm_find (loopIteratorMap c) (l_parent L))) (\<lambda>parentIt.
       Inr (l_parent L, c\<lparr>LIT := pushNestedLoop iteratorOp parentIt (LIT c)\<rparr>))))"

definition collect_loop :: "garbage \<Rightarrow> basicBlock list \<Rightarrow> llvmLoop list \<Rightarrow> llvmLoop \<Rightarrow> collector \<Rightarrow> collector res" where
  "collect_loop g blocks loops L c =
     (let c = c\<lparr>loopPreheaderList := loopPreheaderList c @ [l_preheader L],
                loopHeaderList := loopHeaderList c @ [l_header L], loopLatchList := loopLatchList c @ [l_latch L]\<rparr> in
      ebind (find_block blocks (l_preheader L)) (\<lambda>PH.
      ebind (find_block blocks (l_latch L)) (\<lambda>LL.
      ebind (find_block blocks (l_header L)) (\<lambda>LH.
      ebind (parseLoopHeaderAndLatch g LH LL (parseLoopPreheader PH c)) (\<lambda>(iteratorOp, c).
      ebind (for_loop 1 (l_depth L) 1 (push_parent loops iteratorOp)
               (l_addr L, c\<lparr>loopIteratorMap := sm_insert (l_addr L) iteratorOp (loopIteratorMap c),
                            LIT := insertNewLoopIt iteratorOp (LIT c)\<rparr>)) (\<lambda>(parent, c).
        Inr c))))))"

definition collectLoopInfo :: "garbage \<Rightarrow> basicBlock list \<Rightarrow> llvmLoop list \<Rightarrow> collector \<Rightarrow> collector res" where
  "collectLoopInfo g blocks loops c = efold (collect_loop g blocks loops) loops c"

end
