(* ===== verification/Pointer_Walk.thy ===== *)
theory Pointer_Walk
  imports Collect_Walk
begin

text \<open>
  \<open>Analysis/CollectInfo\<close>, the walk, continued: the geometry of an array access (\<open>setPointerInfo\<close>), the
  blocks of loop bodies (\<open>parseLoopBody\<close>) and the whole function (\<open>parseFunction\<close>).
\<close>

section \<open>The geometry of an access\<close>

text \<open>The row of the access pattern that belongs to an index: the increments of the loops it depends on.\<close>

definition push_column :: "loopInfoTable \<Rightarrow> ptr list \<Rightarrow> ptr \<Rightarrow> access_pattern \<Rightarrow> access_pattern res" where
  "push_column lit its it ap =
     (if it \<in> set its then ebind (getLoopInfo lit it) (\<lambda>info. Inr (pushIncrement (iteratorIncrement info) ap))
      else Inr (pushIncrement 0 ap))"

definition push_index ::
  "loopInfoTable \<Rightarrow> ptr list \<Rightarrow> indexInfoStruct \<Rightarrow> access_pattern \<times> access_pattern
   \<Rightarrow> (access_pattern \<times> access_pattern) res" where
  "push_index lit iterationVector idx = (\<lambda>(ap, apc).
     ebind (efold (push_column lit (iterators idx)) iterationVector ap) (\<lambda>ap.
       Inr (ap, pushIncrement (idx_constant idx) apc)))"

definition int_quotient :: "int \<Rightarrow> int \<Rightarrow> int res" where
  "int_quotient a b = (if b = 0 then Inl (UB ''division by zero'') else Inr (a sdiv b))"

definition float_ceiling :: "int \<Rightarrow> int" where
  "float_ceiling a = \<lceil>to_float (of_int a)\<rceil>"

text \<open>The number of \<open>Instruction::Add\<close>.\<close>

definition Add_opcode :: int where
  "Add_opcode = 13"

text \<open>Where an access stops.\<close>

definition set_stops :: "loopInfoStruct \<Rightarrow> loopInfoStruct \<Rightarrow> pointerInfoStruct \<Rightarrow> pointerInfoStruct" where
  "set_stops loopX loopY info =
     info\<lparr>stopX := offsetX info + spacingX info * (iterations loopX - 1),
          stopY := offsetY info + spacingY info * (iterations loopY - 1)\<rparr>"

text \<open>\<open>[i][j]\<close>\<close>

definition matrix_single ::
  "loopInfoTable \<Rightarrow> int \<Rightarrow> int \<Rightarrow> ptr \<Rightarrow> ptr \<Rightarrow> pointerInfoStruct \<Rightarrow> pointerInfoStruct res" where
  "matrix_single lit c0 c1 it1 it3 info =
     ebind (getLoopInfo lit it1) (\<lambda>L1.
     ebind (getLoopInfo lit it3) (\<lambda>L3.
       if isFinalValueConstant L1 \<and> isInitValueConstant L1 \<and> isFinalValueConstant L3 \<and> isInitValueConstant L3 then
         Inr (set_stops L3 L1
               (info\<lparr>setRows := -1, setCols := -1, spacingInSubsetX := -1, spacingInSubsetY := -1,
                     spacingX := iteratorIncrement L3, spacingY := iteratorIncrement L1,
                     offsetX := iteratorInitValue L3 + c1, offsetY := iteratorInitValue L1 + c0\<rparr>)
              \<lparr>numberOfSubsets := 1, numberOfSubsetsElements := iterations L1 * iterations L3\<rparr>)
       else
         ebind (getLoopInfo lit (variableFinalValue L1)) (\<lambda>F1.
         ebind (getLoopInfo lit (variableFinalValue L3)) (\<lambda>F3.
           Inr (info\<lparr>setRows := -1, setCols := -1,
                     spacingInSubsetX := iteratorIncrement L3, spacingInSubsetY := iteratorIncrement L1,
                     spacingX := iteratorIncrement L3, spacingY := iteratorIncrement L1,
                     offsetX := iteratorInitValue L3 + c1, offsetY := iteratorInitValue L1 + c0,
                     stopX := iterations F1, stopY := iterations F3,
                     numberOfSubsets := 1, numberOfSubsetsElements := iterations L1 * iterations L3\<rparr>)))))"

text \<open>\<open>[i + k][j + l]\<close>\<close>

definition matrix_pairs ::
  "loopInfoTable \<Rightarrow> int \<Rightarrow> int \<Rightarrow> ptr \<times> ptr \<Rightarrow> ptr \<times> ptr \<Rightarrow> pointerInfoStruct \<Rightarrow> pointerInfoStruct res" where
  "matrix_pairs lit c0 c1 = (\<lambda>(it1, it2) (it3, it4) info.
     ebind (getLoopInfo lit it1) (\<lambda>L1. ebind (getLoopInfo lit it2) (\<lambda>L2.
     ebind (getLoopInfo lit it3) (\<lambda>L3. ebind (getLoopInfo lit it4) (\<lambda>L4.
     ebind (int_quotient (iterations L2) (iteratorIncrement L2)) (\<lambda>rows.
     ebind (int_quotient (iterations L4) (iteratorIncrement L4)) (\<lambda>cols.
       Inr (set_stops L3 L1
             (info\<lparr>setRows := rows, setCols := cols,
                   spacingInSubsetX := iteratorIncrement L4, spacingInSubsetY := iteratorIncrement L2,
                   spacingX := iteratorIncrement L3, spacingY := iteratorIncrement L1,
                   offsetX := iteratorInitValue L3 + iteratorInitValue L4 + c1,
                   offsetY := iteratorInitValue L1 + iteratorInitValue L2 + c0\<rparr>)
            \<lparr>numberOfSubsetsElements := iterations L2 * iterations L4,
             numberOfSubsets := iterations L1 * iterations L3\<rparr>))))))))"

text \<open>\<open>[i][j + k]\<close>\<close>

definition matrix_second_pair ::
  "loopInfoTable \<Rightarrow> int \<Rightarrow> int \<Rightarrow> ptr \<Rightarrow> ptr \<times> ptr \<Rightarrow> pointerInfoStruct \<Rightarrow> pointerInfoStruct res" where
  "matrix_second_pair lit c0 c1 it1 = (\<lambda>(it3, it4) info.
     ebind (getLoopInfo lit it1) (\<lambda>L1. ebind (getLoopInfo lit it3) (\<lambda>L3. ebind (getLoopInfo lit it4) (\<lambda>L4.
     ebind (int_quotient (iterations L4) (iteratorIncrement L4)) (\<lambda>cols.
       Inr (set_stops L3 L1
             (info\<lparr>setRows := 1, setCols := float_ceiling cols,
                   spacingInSubsetX := iteratorIncrement L4, spacingInSubsetY := -1,
                   spacingX := iteratorIncrement L3, spacingY := iteratorIncrement L1,
                   offsetX := iteratorInitValue L3 + iteratorInitValue L4 + c1,
                   offsetY := iteratorInitValue L1 + c0\<rparr>)
            \<lparr>numberOfSubsetsElements := iterations L4, numberOfSubsets := iterations L1 * iterations L3\<rparr>))))))"

text \<open>\<open>[i + k][j]\<close>\<close>

definition matrix_first_pair ::
  "loopInfoTable \<Rightarrow> int \<Rightarrow> int \<Rightarrow> ptr \<times> ptr \<Rightarrow> ptr \<Rightarrow> pointerInfoStruct \<Rightarrow> pointerInfoStruct res" where
  "matrix_first_pair lit c0 c1 = (\<lambda>(it1, it2) it3 info.
     ebind (getLoopInfo lit it1) (\<lambda>L1. ebind (getLoopInfo lit it2) (\<lambda>L2. ebind (getLoopInfo lit it3) (\<lambda>L3.
     ebind (int_quotient (iterations L2) (iteratorIncrement L2)) (\<lambda>rows.
       Inr (set_stops L3 L1
             (info\<lparr>setRows := float_ceiling rows, setCols := 1,
                   spacingInSubsetX := -1, spacingInSubsetY := iteratorIncrement L2,
                   spacingX := iteratorIncrement L3, spacingY := iteratorIncrement L1,
                   offsetX := iteratorInitValue L1 + c1,
                   offsetY := iteratorInitValue L1 + iteratorInitValue L2 + c0\<rparr>)
            \<lparr>numberOfSubsetsElements := iterations L2, numberOfSubsets := iterations L1 * iterations L3\<rparr>))))))"

definition matrix_geometry ::
  "loopInfoTable \<Rightarrow> heap \<Rightarrow> access_pattern \<Rightarrow> indexInfoStruct \<Rightarrow> indexInfoStruct \<Rightarrow> pointerInfoStruct
   \<Rightarrow> pointerInfoStruct res" where
  "matrix_geometry lit heap apc idx1 idx2 info =
     ebind (ap_at heap apc 0 0) (\<lambda>c0. ebind (ap_at heap apc 1 0) (\<lambda>c1.
       case (iterators idx1, iterators idx2) of
         ([it1], [it3]) \<Rightarrow> matrix_single lit c0 c1 it1 it3 info
       | ([it1, it2], [it3, it4]) \<Rightarrow>
           if idx_operation idx1 = Add_opcode \<and> idx_operation idx2 = Add_opcode
           then matrix_pairs lit c0 c1 (it1, it2) (it3, it4) info else Inr info
       | ([it1], [it3, it4]) \<Rightarrow>
           if idx_operation idx2 = Add_opcode then matrix_second_pair lit c0 c1 it1 (it3, it4) info else Inr info
       | ([it1, it2], [it3]) \<Rightarrow>
           if idx_operation idx2 = Add_opcode then matrix_first_pair lit c0 c1 (it1, it2) it3 info else Inr info
       | _ \<Rightarrow> Inr info))"

text \<open>\<open>[i]\<close> and \<open>[i + k]\<close> of a vector; nothing is set for a constant index.\<close>

definition vector_geometry ::
  "loopInfoTable \<Rightarrow> heap \<Rightarrow> access_pattern \<Rightarrow> indexInfoStruct \<Rightarrow> pointerInfoStruct \<Rightarrow> pointerInfoStruct res" where
  "vector_geometry lit heap apc idx info =
     ebind (ap_at heap apc 0 0) (\<lambda>c0.
       case iterators idx of
         [] \<Rightarrow> Inr info
       | [it1] \<Rightarrow>
           ebind (getLoopInfo lit it1) (\<lambda>L1.
             let info = info\<lparr>setRows := -1, setCols := -1, spacingInSubsetX := -1, spacingInSubsetY := -1,
                             spacingX := iteratorIncrement L1, spacingY := 1,
                             offsetX := iteratorInitValue L1 + c0, offsetY := 0\<rparr> in
             Inr (info\<lparr>stopX := offsetX info + spacingX info * (iterations L1 - 1), stopY := 0,
                       numberOfSubsetsElements := iterations L1, numberOfSubsets := 1\<rparr>))
       | it1 # its \<Rightarrow>
           if idx_operation idx = Add_opcode then
             ebind (getLoopInfo lit it1) (\<lambda>L1. ebind (getLoopInfo lit (last its)) (\<lambda>L2.
             ebind (int_quotient (iterations L2) (iteratorIncrement L2)) (\<lambda>cols.
               let info = info\<lparr>setRows := 1, setCols := float_ceiling cols,
                               spacingInSubsetX := iteratorIncrement L2, spacingInSubsetY := -1,
                               spacingX := iteratorIncrement L1, spacingY := -1,
                               offsetX := iteratorInitValue L1 + iteratorInitValue L2 + c0, offsetY := -1\<rparr> in
               Inr (info\<lparr>stopX := offsetX info + spacingX info * (iterations L1 - 1), stopY := -1,
                         numberOfSubsetsElements := iterations L2, numberOfSubsets := iterations L1\<rparr>))))
           else Inr info)"

text \<open>The access pattern of the indices and that of their constants.\<close>

definition access_patterns ::
  "garbage \<Rightarrow> loopInfoTable \<Rightarrow> ptr list \<Rightarrow> indexInfoStruct list \<Rightarrow> (access_pattern \<times> access_pattern) res" where
  "access_patterns g lit iterationVector indexInfoList =
     (let empty = (g_pattern g)\<lparr>incrementVector := []\<rparr>; n = int (length indexInfoList) in
      ebind (efold (push_index lit iterationVector) indexInfoList (empty, empty)) (\<lambda>(ap, apc).
      ebind (detectAccessPatternType (g_heap g) (ap_setCols (int (length iterationVector)) (ap_setRows n ap))) (\<lambda>ap.
      ebind (detectZeroCols (g_heap g) ap) (\<lambda>ap.
        Inr (ap, ap_setCols 1 (ap_setRows n apc))))))"

definition setPointerInfo :: "garbage \<Rightarrow> ptr \<Rightarrow> llvmInst \<Rightarrow> collector \<Rightarrow> collector res" where
  "setPointerInfo g pointer I c =
     ebind (getPointerInfo (PIT c) pointer) (\<lambda>info.
     ebind (getLoopIteratorFromLoopBody (LIT c) (i_parent I)) (\<lambda>loopIteratorOp.
     ebind (getNestedLoops (LIT c) loopIteratorOp) (\<lambda>nestedLoops.
     let iterationVector = getIterationVector (LIT c) loopIteratorOp in
     ebind (iteration_counts (LIT c) iterationVector) (\<lambda>counts.
     ebind (or_fail (UB ''reads the end of arraysInfoMap'')
              (sm_find (arraysInfoMap c) (getAllocatedReg (collected c) pointer))) (\<lambda>arraySizes.
     ebind (list_front arraySizes) (\<lambda>rows.
     ebind (list_back arraySizes) (\<lambda>cols.
     let idx1 = firstIdxInfo info; idx2 = secondIdxInfo info in
     ebind (access_patterns g (LIT c) iterationVector (if rows > 1 then [idx1, idx2] else [idx1])) (\<lambda>(ap, apc).
     let info = info\<lparr>loopIterator := loopIteratorOp, pointerAccessPattern := ap, pointerAccessPatternConstant := apc,
                     arrayCols := cols, arrayRows := rows\<rparr> in
     ebind (if rows > 1 then matrix_geometry (LIT c) (g_heap g) apc idx1 idx2 info
            else vector_geometry (LIT c) (g_heap g) apc idx1 info) (\<lambda>info.
     ebind (modifyPointerInfo pointer info (PIT c)) (\<lambda>pit.
       Inr (c\<lparr>PIT := pit, iterationList := rev (iterationList c @ counts)\<rparr>)))))))))))"

section \<open>Loop bodies\<close>

text \<open>The iterators that the operands of an addition stand for, the last ones in the order of the table.\<close>

definition find_operands :: "(ptr, ptr) smap \<Rightarrow> ptr \<Rightarrow> ptr \<Rightarrow> ptr option \<times> ptr option" where
  "find_operands aliases op1 op2 =
     fold (\<lambda>(reg, alias) (first, second).
             if alias = op1 then (Some reg, second) else if alias = op2 then (first, Some reg) else (first, second))
       aliases (None, None)"

definition index_info :: "garbage \<Rightarrow> ptr list \<Rightarrow> int \<Rightarrow> int \<Rightarrow> indexInfoStruct" where
  "index_info g its k op = (g_index g)\<lparr>iterators := its, idx_constant := k, idx_operation := op\<rparr>"

definition combine :: "ptr \<Rightarrow> indexInfoStruct \<Rightarrow> collector \<Rightarrow> collector" where
  "combine p idx c = c\<lparr>combinedIteratorsMap := sm_insert p idx (combinedIteratorsMap c)\<rparr>"

definition parse_body_add :: "garbage \<Rightarrow> llvmInst \<Rightarrow> llvmValue \<Rightarrow> llvmValue \<Rightarrow> collector \<Rightarrow> collector" where
  "parse_body_add g I op1 op2 c =
     (case find_operands (iteratorsAliasMap c) (v_addr op1) (v_addr op2) of
        (Some it1, Some it2) \<Rightarrow> combine (i_addr I) (index_info g [it1, it2] 0 Add_opcode) c
      | (Some it1, None) \<Rightarrow>
          (case v_const op2 of
             Some k \<Rightarrow> combine (i_addr I) (index_info g [it1] k Add_opcode) c
           | None \<Rightarrow> c)
      | _ \<Rightarrow> c)"

definition parse_body_load :: "llvmInst \<Rightarrow> llvmValue \<Rightarrow> collector \<Rightarrow> collector" where
  "parse_body_load I op0 c =
     (if sm_find (iteratorsAliasMap c) (v_addr op0) \<noteq> None
      then c\<lparr>iteratorsAliasMap := sm_modify (v_addr op0) (\<lambda>_. i_addr I) (iteratorsAliasMap c)\<rparr>
      else c\<lparr>aliasInfoMap := sm_modify (v_addr op0) (\<lambda>l. l @ [i_addr I]) (aliasInfoMap c)\<rparr>)"

text \<open>
  An index of an array. The first \<open>getelementptr\<close> of an access to a matrix enters its own address as an
  array without sizes, by which the second one is known.
\<close>

definition set_index :: "int list \<Rightarrow> indexInfoStruct \<Rightarrow> collector \<Rightarrow> collector" where
  "set_index dims idx c =
     (if dims = [] then c\<lparr>tmpPointerStruct := (tmpPointerStruct c)\<lparr>secondIdxInfo := idx\<rparr>, ptrValid := True\<rparr>
      else c\<lparr>tmpPointerStruct := (tmpPointerStruct c)\<lparr>firstIdxInfo := idx\<rparr>\<rparr>)"

definition read_index :: "garbage \<Rightarrow> int list \<Rightarrow> llvmValue \<Rightarrow> collector \<Rightarrow> collector" where
  "read_index g dims op2 c =
     (case sm_find (combinedIteratorsMap c) (v_addr op2) of
        Some idx \<Rightarrow> set_index dims idx c
      | None \<Rightarrow>
          (case v_const op2 of
             None \<Rightarrow> fold (\<lambda>(reg, alias) c. if alias = v_addr op2 then set_index dims (index_info g [reg] 0 0) c else c)
                       (iteratorsAliasMap c) c
           | Some k \<Rightarrow> set_index dims (index_info g [] k 0) c))"

definition push_alias :: "ptr \<Rightarrow> ptr \<Rightarrow> collector \<Rightarrow> collector" where
  "push_alias reg p c = c\<lparr>aliasInfoMap := sm_modify reg (\<lambda>l. l @ [p]) (aliasInfoMap c)\<rparr>"

definition insert_pointer :: "ptr \<Rightarrow> collector \<Rightarrow> collector" where
  "insert_pointer p c = c\<lparr>PIT := insertPointerInfo p (tmpPointerStruct c) (PIT c)\<rparr>"

definition parse_gep :: "garbage \<Rightarrow> llvmInst \<Rightarrow> llvmValue list \<Rightarrow> collector \<Rightarrow> collector res" where
  "parse_gep g I ops c =
     ebind (list_at ops 0) (\<lambda>base.
     case sm_find (arraysInfoMap c) (v_addr base) of
       None \<Rightarrow> Inr c
     | Some dims \<Rightarrow>
         ebind (list_at ops 2) (\<lambda>op2.
         let c = read_index g dims op2 c in
         ebind (if dims = [] then g_front g else Inr (hd dims)) (\<lambda>rows.
           if rows = 1 then
             (let c = c\<lparr>tmpPointerStruct := (tmpPointerStruct c)\<lparr>secondIdxInfo := (g_index g)\<lparr>iterators := []\<rparr>\<rparr>\<rparr>
              in setPointerInfo g (i_addr I) I (push_alias (v_addr base) (i_addr I) (insert_pointer (i_addr I) c)))
           else if ptrValid c then
             (let c = insert_pointer (i_addr I) (c\<lparr>ptrValid := False\<rparr>)
              in setPointerInfo g (i_addr I) I (push_alias (getAllocatedReg (collected c) (v_addr base)) (i_addr I) c))
           else
             Inr (push_alias (v_addr base) (i_addr I) (c\<lparr>arraysInfoMap := sm_insert (i_addr I) [] (arraysInfoMap c)\<rparr>)))))"

definition parse_sext :: "llvmInst \<Rightarrow> llvmValue \<Rightarrow> collector \<Rightarrow> collector" where
  "parse_sext I op0 c =
     (case sm_find (combinedIteratorsMap c) (v_addr op0) of
        Some idx \<Rightarrow>
          c\<lparr>combinedIterators := combinedIterators c @ [v_addr op0],
            combinedIteratorsMap := sm_insert (i_addr I) idx (sm_erase (v_addr op0) (combinedIteratorsMap c))\<rparr>
      | None \<Rightarrow>
          c\<lparr>iteratorsAliasMap :=
              map (\<lambda>(reg, alias). (reg, if alias = v_addr op0 then i_addr I else alias)) (iteratorsAliasMap c)\<rparr>)"

definition parse_body_inst :: "garbage \<Rightarrow> llvmInst \<Rightarrow> collector \<Rightarrow> collector res" where
  "parse_body_inst g I c =
     (case i_kind I of
        StoreInst op0 op1 \<Rightarrow>
          Inr (case v_const op0 of
                 Some k \<Rightarrow> c\<lparr>initValuesMap := sm_insert (v_addr op1) k (initValuesMap c)\<rparr>
               | None \<Rightarrow> c)
      | LoadInst op0 \<Rightarrow> Inr (parse_body_load I op0 c)
      | BinaryOperator oc op1 op2 \<Rightarrow> Inr (if oc = OpAdd then parse_body_add g I op1 op2 c else c)
      | GetElementPtrInst ops \<Rightarrow> parse_gep g I ops c
      | SExtInst op0 \<Rightarrow> Inr (parse_sext I op0 c)
      | _ \<Rightarrow> Inr c)"

definition parseLoopBody :: "garbage \<Rightarrow> basicBlock \<Rightarrow> collector \<Rightarrow> collector res" where
  "parseLoopBody g BB c = efold (parse_body_inst g) (bb_insts BB) c"

section \<open>The function\<close>

definition push_valid :: "basicBlock \<Rightarrow> collector \<Rightarrow> collector" where
  "push_valid BB c = c\<lparr>validBBs := validBBs c @ [bb_addr BB]\<rparr>"

definition parse_block :: "garbage \<Rightarrow> basicBlock \<Rightarrow> collector \<Rightarrow> collector res" where
  "parse_block g BB c =
     (if bb_addr BB \<in> set (loopBodyList c) \<or>
         bb_addr BB \<notin> set (loopHeaderList c) \<and> bb_addr BB \<notin> set (loopLatchList c)
      then ebind (parseLoopBody g BB c) (\<lambda>c. Inr (push_valid BB c))
      else Inr c)"

definition parseFunction :: "garbage \<Rightarrow> basicBlock list \<Rightarrow> llvmLoop list \<Rightarrow> collector \<Rightarrow> collector res" where
  "parseFunction g blocks loops c =
     (case blocks of
        [] \<Rightarrow> Inr c
      | BB # BBs \<Rightarrow>
          ebind (collectLoopInfo g blocks loops (push_valid BB (parseAllocaInstructions BB c))) (\<lambda>c.
            efold (parse_block g) BBs c))"

end
