(* ===== verification/Collect_Proofs.thy ===== *)
theory Collect_Proofs
  imports Pointer_Walk
begin

text \<open>
  The tables after the walk: the number of iterations of a counted loop, and what is found out about
  an access to a vector in a loop.
\<close>

section \<open>Floating point\<close>

text \<open>Whole numbers below \<open>2 ^ 24\<close> are exact.\<close>

lemma round_even_int [simp]: "round_even (of_int n) = n"
  by (simp add: round_even_def)

lemma find_upto:
  assumes "P k" "lo \<le> k" "k \<le> hi"
  obtains e where "find P [lo..hi] = Some e" "e \<le> (k :: int)"
proof (cases "find P [lo..hi]")
  case None
  then show ?thesis using assms by (auto simp: find_None_iff)
next
  case (Some e)
  obtain i where i: "i < length [lo..hi]" "[lo..hi] ! i = e" "\<forall>j<i. \<not> P ([lo..hi] ! j)"
    using Some by (auto simp: find_Some_iff)
  have "e \<le> k"
  proof (rule ccontr)
    assume "\<not> e \<le> k"
    then have "nat (k - lo) < i" "[lo..hi] ! nat (k - lo) = k" using i(1,2) assms(2,3) by (auto simp: nth_upto)
    then show False using i(3) assms(1) by metis
  qed
  then show ?thesis using that Some by blast
qed

lemma to_float_int:
  assumes "\<bar>n\<bar> < 2 ^ 24"
  shows "to_float (of_int n) = of_int n"
proof -
  let ?P = "\<lambda>e::int. \<bar>of_int n\<bar> < (2::rat) powi (24 + e)"
  have "\<bar>of_int n\<bar> < (2::rat) ^ 24" using assms by (metis of_int_abs of_int_less_iff of_int_numeral of_int_power)
  then have "?P 0" by (simp add: power_int_def)
  from find_upto[of ?P, OF this, of "-149" 104]
  obtain e where e: "find ?P [-149..104] = Some e" "e \<le> 0" using that by (metis neg_le_0_iff_le zero_le_numeral)
  have "of_int n / (2::rat) powi e = of_int (n * 2 ^ nat (- e))"
    using e(2) by (simp add: power_int_def power_inverse power_one_over)
  moreover have "of_int (n * 2 ^ nat (- e)) * (2::rat) powi e = of_int n"
    using e(2) by (simp add: power_int_def power_one_over)
  ultimately show ?thesis using e(1) unfolding to_float_def by (simp only: option.case round_even_int)
qed

lemma float_quotient_exact:
  assumes "\<bar>a\<bar> < 2 ^ 24" "b dvd a" "b \<noteq> 0"
  shows "float_quotient a b = of_int (a div b)"
proof (cases "a = 0")
  case False
  have "\<bar>b\<bar> \<le> \<bar>a\<bar>" using dvd_imp_le_int[OF False assms(2)] .
  then have b: "\<bar>b\<bar> < 2 ^ 24" using assms(1) by simp
  have "\<bar>a div b\<bar> \<le> \<bar>a\<bar>" using assms(2) by (auto simp: dvd_def abs_mult mult_le_cancel_right1 elim!: dvdE intro: mult_right_le_one_le)
  then have q: "\<bar>a div b\<bar> < 2 ^ 24" using assms(1) by simp
  have "of_int a / of_int b = (of_int (a div b) :: rat)" using assms(2,3) by (auto simp: dvd_def)
  then show ?thesis using to_float_int[OF assms(1)] to_float_int[OF b] to_float_int[OF q] by (simp add: float_quotient_def)
next
  case True
  have "to_float 0 = 0" using to_float_int[of 0] by simp
  then show ?thesis using True by (simp add: float_quotient_def)
qed

section \<open>Counted loops\<close>

fun continues :: "predicate \<Rightarrow> int \<Rightarrow> int \<Rightarrow> bool" where
  "continues ICMP_SLT a b \<longleftrightarrow> a < b"
| "continues ICMP_SLE a b \<longleftrightarrow> a \<le> b"
| "continues ICMP_SGT a b \<longleftrightarrow> b < a"
| "continues ICMP_SGE a b \<longleftrightarrow> b \<le> a"
| "continues ICMP_OTHER a b \<longleftrightarrow> False"

text \<open>A loop with the counter \<open>init\<close>, \<open>init + inc\<close>, \<open>\<dots>\<close> runs \<open>n\<close> times.\<close>

definition runs_for :: "predicate \<Rightarrow> int \<Rightarrow> int \<Rightarrow> int \<Rightarrow> nat \<Rightarrow> bool" where
  "runs_for p init fin inc n \<longleftrightarrow>
     (\<forall>k < n. continues p (init + int k * inc) fin) \<and> \<not> continues p (init + int n * inc) fin"

text \<open>For \<open>i = 5; i < 3; i++\<close> the number of iterations is -2; for another comparison it may not be set at all.\<close>

lemma count_iterations_not_entered:
  assumes "iteratorInitValue info = 5" "iteratorFinalValue info = 3" "iteratorIncrement info = 1"
  shows "count_iterations ICMP_SLT info = Inr (info\<lparr>iterations := -2\<rparr>)"
proof -
  have "float_quotient (- 2) 1 = of_int (- 2 div 1)" by (rule float_quotient_exact) simp_all
  then show ?thesis using assms by (simp add: count_iterations_def signed_modulo_int_def)
qed

lemma count_iterations_other:
  assumes "iteratorIncrement info \<noteq> 0"
    and "(iteratorFinalValue info - iteratorInitValue info) smod iteratorIncrement info = 0"
  shows "count_iterations ICMP_OTHER info = Inr info"
  using assms by (simp add: count_iterations_def Let_def)

text \<open>The count of the code is right for every loop that is entered.\<close>

lemma quotient_up:
  fixes d inc :: int
  assumes "0 < inc" "(int n - 1) * inc < d" "d \<le> int n * inc"
  shows "int n = (if inc dvd d then d div inc else d div inc + 1)"
proof (cases "inc dvd d")
  case True
  then obtain q where q: "d = q * inc" by (auto simp: dvd_def mult.commute)
  then have "int n - 1 < q" "q \<le> int n" using assms by (simp_all add: mult_less_cancel_right)
  then show ?thesis using True q assms(1) by simp
next
  case False
  then have "d \<noteq> int n * inc" by auto
  then have "d < int n * inc" using assms(3) by simp
  then have "d div inc = int n - 1" using assms(1,2) by (intro int_div_pos_eq[where r = "d - (int n - 1) * inc"]) (simp_all add: algebra_simps)
  then show ?thesis using False by simp
qed

lemma quotient_down:
  fixes d inc :: int
  assumes "0 < inc" "(int n - 1) * inc \<le> d" "d < int n * inc"
  shows "int n = d div inc + 1"
proof -
  have "d div inc = int n - 1" using assms by (intro int_div_pos_eq[where r = "d - (int n - 1) * inc"]) (simp_all add: algebra_simps)
  then show ?thesis by simp
qed

lemma count_runs:
  assumes "runs_for p init fin inc n" "0 < n" "p \<noteq> ICMP_OTHER"
  defines "d \<equiv> fin - init"
  shows "inc \<noteq> 0" "d \<noteq> 0 \<longrightarrow> sgn d = sgn inc"
    "int n = (if (p = ICMP_SLT \<or> p = ICMP_SGT) \<and> inc dvd d then d div inc else d div inc + 1)"
proof -
  have last: "continues p (init + (int n - 1) * inc) fin" "\<not> continues p (init + int n * inc) fin"
    using assms(1,2) by (auto simp: runs_for_def dest: spec[of _ "n - 1"] simp: of_nat_diff)
  have first: "continues p init fin" using assms(1,2) by (auto simp: runs_for_def dest: spec[of _ 0])
  have flip: "(- d) div (- inc) = d div inc" "(- inc) dvd (- d) \<longleftrightarrow> inc dvd d" by simp_all
  consider (lt) "p = ICMP_SLT" | (le) "p = ICMP_SLE" | (gt) "p = ICMP_SGT" | (ge) "p = ICMP_SGE"
    using assms(3) by (cases p) auto
  then have "inc \<noteq> 0 \<and> (d \<noteq> 0 \<longrightarrow> sgn d = sgn inc) \<and>
      int n = (if (p = ICMP_SLT \<or> p = ICMP_SGT) \<and> inc dvd d then d div inc else d div inc + 1)"
  proof cases
    case lt
    have b: "(int n - 1) * inc < d" "d \<le> int n * inc" using last lt by (simp_all add: d_def)
    then have "0 < inc" by (simp add: left_diff_distrib)
    then show ?thesis using quotient_up[OF _ b] first lt by (simp add: d_def)
  next
    case le
    have b: "(int n - 1) * inc \<le> d" "d < int n * inc" using last le by (simp_all add: d_def)
    then have "0 < inc" by (simp add: left_diff_distrib)
    then show ?thesis using quotient_down[OF _ b] first le by (auto simp: d_def sgn_if)
  next
    case gt
    have b: "(int n - 1) * (- inc) < - d" "- d \<le> int n * (- inc)" using last gt by (simp_all add: d_def)
    then have "0 < - inc" by (simp add: left_diff_distrib)
    then show ?thesis using quotient_up[OF _ b] first gt unfolding flip by (simp add: d_def sgn_if)
  next
    case ge
    have b: "(int n - 1) * (- inc) \<le> - d" "- d < int n * (- inc)" using last ge by (simp_all add: d_def)
    then have "0 < - inc" by (simp add: left_diff_distrib)
    then show ?thesis using quotient_down[OF _ b] first ge unfolding flip by (auto simp: d_def sgn_if)
  qed
  then show "inc \<noteq> 0" "d \<noteq> 0 \<longrightarrow> sgn d = sgn inc"
    "int n = (if (p = ICMP_SLT \<or> p = ICMP_SGT) \<and> inc dvd d then d div inc else d div inc + 1)" by blast+
qed

lemma count_iterations_right:
  assumes "runs_for p (iteratorInitValue info) (iteratorFinalValue info) (iteratorIncrement info) n" "0 < n"
    and "\<bar>iteratorFinalValue info - iteratorInitValue info\<bar> < 2 ^ 24"
    and "p \<noteq> ICMP_OTHER"
  shows "count_iterations p info = Inr (info\<lparr>iterations := int n\<rparr>)"
proof -
  define d inc where "d = iteratorFinalValue info - iteratorInitValue info" and "inc = iteratorIncrement info"
  note c = count_runs[OF assms(1,2,4), folded d_def inc_def]
  show ?thesis
  proof (cases "inc dvd d")
    case True
    have "d smod inc = 0" using True by (simp add: signed_modulo_int_def)
    moreover have "float_quotient d inc = of_int (d div inc)"
      using float_quotient_exact[OF _ True c(1)] assms(3) by (simp add: d_def)
    ultimately show ?thesis
      using c(1,3) True assms(4) by (cases p) (simp_all add: count_iterations_def Let_def d_def[symmetric] inc_def[symmetric])
  next
    case False
    then have "d \<noteq> 0" by auto
    then have "sgn d = sgn inc" using c(2) by blast
    then have "d sdiv inc = d div inc" using signed_divide_int_eq_divide_int[of d inc] by simp
    moreover have "d smod inc \<noteq> 0" using False \<open>d \<noteq> 0\<close> by (simp add: signed_modulo_int_def sgn_if mod_eq_0_iff_dvd split: if_splits)
    ultimately show ?thesis
      using c(1,3) False by (simp add: count_iterations_def Let_def d_def[symmetric] inc_def[symmetric])
  qed
qed

section \<open>The code of a counted loop\<close>

text \<open>
  The blocks that clang makes of \<open>for (i = init; i < fin; i += inc)\<close>: the header reads the counter and
  compares it, the latch adds the increment. The addresses of the constants are those of the loop's
  other values.
\<close>

record counted_loop =
  cl_addr :: ptr
  cl_counter :: ptr
  cl_init :: int
  cl_pred :: predicate
  cl_final :: int
  cl_inc :: int
  cl_preheader :: ptr
  cl_header :: ptr
  cl_body :: ptr
  cl_end :: ptr
  cl_latch :: ptr
  cl_exit :: ptr
  cl_load :: ptr
  cl_cmp :: ptr
  cl_reload :: ptr
  cl_next :: ptr

definition header_block :: "counted_loop \<Rightarrow> basicBlock" where
  "header_block L =
     \<lparr>bb_addr = cl_header L,
      bb_insts =
        [\<lparr>i_addr = cl_load L, i_parent = cl_header L, i_kind = LoadInst (register (cl_counter L))\<rparr>,
         \<lparr>i_addr = cl_cmp L, i_parent = cl_header L,
           i_kind = ICmpInst (cl_pred L) (register (cl_load L)) \<lparr>v_addr = nullptr, v_const = Some (cl_final L)\<rparr>\<rparr>,
         \<lparr>i_addr = nullptr, i_parent = cl_header L,
           i_kind = BranchInst [register (cl_cmp L), register (cl_exit L), register (cl_body L)]\<rparr>],
      bb_single_pred = nullptr\<rparr>"

definition latch_block :: "counted_loop \<Rightarrow> basicBlock" where
  "latch_block L =
     \<lparr>bb_addr = cl_latch L,
      bb_insts =
        [\<lparr>i_addr = cl_reload L, i_parent = cl_latch L, i_kind = LoadInst (register (cl_counter L))\<rparr>,
         \<lparr>i_addr = cl_next L, i_parent = cl_latch L,
           i_kind = BinaryOperator OpAdd (register (cl_reload L)) \<lparr>v_addr = nullptr, v_const = Some (cl_inc L)\<rparr>\<rparr>,
         \<lparr>i_addr = nullptr, i_parent = cl_latch L,
           i_kind = StoreInst (register (cl_next L)) (register (cl_counter L))\<rparr>,
         \<lparr>i_addr = nullptr, i_parent = cl_latch L, i_kind = BranchInst [register (cl_header L)]\<rparr>],
      bb_single_pred = cl_end L\<rparr>"

lemma block_fields [simp]:
  "bb_addr (header_block L) = cl_header L" "bb_addr (latch_block L) = cl_latch L" "bb_single_pred (latch_block L) = cl_end L"
  by (simp_all add: header_block_def latch_block_def)

text \<open>The loop runs \<open>n\<close> times, and its bounds are not so far apart that \<open>float\<close> is not exact.\<close>

definition loop_runs :: "counted_loop \<Rightarrow> nat \<Rightarrow> bool" where
  "loop_runs L n \<longleftrightarrow> 0 < n \<and> runs_for (cl_pred L) (cl_init L) (cl_final L) (cl_inc L) n \<and>
     \<bar>cl_final L - cl_init L\<bar> < 2 ^ 24"

text \<open>What is to be known of it.\<close>

definition loop_facts :: "garbage \<Rightarrow> counted_loop \<Rightarrow> nat \<Rightarrow> loopInfoStruct" where
  "loop_facts g L n =
     (g_loop g)\<lparr>loopHeader := cl_header L, loopLatch := cl_latch L, iteratorIncrement := cl_inc L,
                iteratorInitValue := cl_init L, isInitValueConstant := True, iteratorFinalValue := cl_final L,
                iterations := int n, isFinalValueConstant := True, loopBody := [cl_body L, cl_end L]\<rparr>"

lemma loop_runs_count:
  assumes "loop_runs L n" "iteratorInitValue info = cl_init L" "iteratorFinalValue info = cl_final L"
    "iteratorIncrement info = cl_inc L"
  shows "count_iterations (cl_pred L) info = Inr (info\<lparr>iterations := int n\<rparr>)"
proof -
  have "cl_pred L \<noteq> ICMP_OTHER"
    using assms(1) by (auto simp: loop_runs_def runs_for_def)
  then show ?thesis using count_iterations_right[of "cl_pred L" info n] assms by (simp add: loop_runs_def)
qed

lemma latch_increment:
  "efold parse_latch_inst (bb_insts (latch_block L)) info = Inr (info\<lparr>iteratorIncrement := cl_inc L\<rparr>)"
  by (simp add: latch_block_def parse_latch_inst_def)

lemma parse_counted_loop:
  assumes "loop_runs L n" "sm_find (initValuesMap c) (cl_counter L) = Some (cl_init L)"
    and "sm_find (iteratorsAliasMap c) (cl_counter L) = None" "sm_find (aliasInfoMap c) (cl_counter L) \<noteq> None"
  shows "parseLoopHeaderAndLatch g (header_block L) (latch_block L) c =
    Inr (cl_counter L,
         c\<lparr>iteratorsAliasMap := sm_insert (cl_counter L) (cl_load L) (iteratorsAliasMap c),
           aliasInfoMap := sm_erase (cl_counter L) (aliasInfoMap c),
           loopBodyList := loopBodyList c @ [cl_body L, cl_end L],
           LIT := insertLoopInfo (cl_counter L) (loop_facts g L n) (LIT c)\<rparr>)"
  using assms(2-4)
  by (simp add: parseLoopHeaderAndLatch_def latch_increment header_block_def parse_header_inst_def parse_header_load_def
      erase_alias_def parse_header_icmp_def parse_header_branch_def list_at_def loop_facts_def Let_def
      loop_runs_count[OF assms(1)])


text \<open>A counter that a loop before has used already.\<close>

lemma count_iterations_total: "iteratorIncrement info \<noteq> 0 \<Longrightarrow> \<exists>info'. count_iterations p info = Inr info'"
  by (simp add: count_iterations_def Let_def)

lemma parse_reused_counter:
  assumes "cl_inc L \<noteq> 0" "sm_find (iteratorsAliasMap c) (cl_counter L) \<noteq> None"
  shows "parseLoopHeaderAndLatch g (header_block L) (latch_block L) c =
    Inl (UB ''the variable it is used uninitialised'')"
proof -
  let ?info = "(g_loop g)\<lparr>loopHeader := cl_header L, loopLatch := cl_latch L, loopBody := [],
      iteratorIncrement := cl_inc L, iteratorFinalValue := cl_final L\<rparr>"
  obtain info' where "count_iterations (cl_pred L) ?info = Inr info'"
    using count_iterations_total[of ?info] assms(1) by auto
  then show ?thesis
    using assms(2)
    by (cases "sm_find (initValuesMap c) (cl_counter L)")
       (auto simp: parseLoopHeaderAndLatch_def latch_increment header_block_def parse_header_inst_def parse_header_load_def
         parse_header_icmp_def parse_header_branch_def list_at_def Let_def)
qed

text \<open>A loop that is not nested, as \<open>LoopInfo\<close> has it, and its preheader when it only starts the counter.\<close>

definition llvm_loop :: "counted_loop \<Rightarrow> llvmLoop" where
  "llvm_loop L =
     \<lparr>l_addr = cl_addr L, l_preheader = cl_preheader L, l_header = cl_header L, l_latch = cl_latch L,
      l_depth = 1, l_parent = nullptr\<rparr>"

definition start_insts :: "counted_loop \<Rightarrow> llvmInst list" where
  "start_insts L =
     [\<lparr>i_addr = nullptr, i_parent = cl_preheader L,
        i_kind = StoreInst \<lparr>v_addr = nullptr, v_const = Some (cl_init L)\<rparr> (register (cl_counter L))\<rparr>,
      \<lparr>i_addr = nullptr, i_parent = cl_preheader L, i_kind = BranchInst [register (cl_header L)]\<rparr>]"

definition loop_blocks :: "counted_loop \<Rightarrow> basicBlock list \<Rightarrow> bool" where
  "loop_blocks L blocks \<longleftrightarrow>
     find_block blocks (cl_header L) = Inr (header_block L) \<and> find_block blocks (cl_latch L) = Inr (latch_block L)"

definition listed :: "counted_loop \<Rightarrow> collector \<Rightarrow> collector" where
  "listed L c =
     c\<lparr>loopPreheaderList := loopPreheaderList c @ [cl_preheader L], loopHeaderList := loopHeaderList c @ [cl_header L],
       loopLatchList := loopLatchList c @ [cl_latch L]\<rparr>"

definition loop_collected :: "garbage \<Rightarrow> counted_loop \<Rightarrow> nat \<Rightarrow> collector \<Rightarrow> collector" where
  "loop_collected g L n c =
     c\<lparr>iteratorsAliasMap := sm_insert (cl_counter L) (cl_load L) (iteratorsAliasMap c),
       aliasInfoMap := sm_erase (cl_counter L) (aliasInfoMap c),
       loopBodyList := loopBodyList c @ [cl_body L, cl_end L],
       loopIteratorMap := sm_insert (cl_addr L) (cl_counter L) (loopIteratorMap c),
       LIT := insertNewLoopIt (cl_counter L) (insertLoopInfo (cl_counter L) (loop_facts g L n) (LIT c))\<rparr>"

lemma collect_counted_loop:
  assumes "loop_runs L n" "loop_blocks L blocks" "find_block blocks (cl_preheader L) = Inr PH"
    and "sm_find (initValuesMap (parseLoopPreheader PH (listed L c))) (cl_counter L) = Some (cl_init L)"
    and "sm_find (iteratorsAliasMap (parseLoopPreheader PH (listed L c))) (cl_counter L) = None"
    and "sm_find (aliasInfoMap (parseLoopPreheader PH (listed L c))) (cl_counter L) \<noteq> None"
  shows "collect_loop g blocks loops (llvm_loop L) c = Inr (loop_collected g L n (parseLoopPreheader PH (listed L c)))"
  using assms(2,3) parse_counted_loop[OF assms(1,4-6)]
  by (simp add: collect_loop_def llvm_loop_def loop_blocks_def for_loop_def for_range_def listed_def loop_collected_def Let_def)

lemma preheader_start:
  assumes "bb_insts PH = start_insts L"
  shows "parseLoopPreheader PH c = c\<lparr>initValuesMap := sm_insert (cl_counter L) (cl_init L) (initValuesMap c)\<rparr>"
  by (simp add: parseLoopPreheader_def assms start_insts_def parse_preheader_inst_def)

lemma collect_reused_counter:
  assumes "loop_blocks L blocks" "find_block blocks (cl_preheader L) = Inr PH" "bb_insts PH = start_insts L"
    and "cl_inc L \<noteq> 0" "sm_find (iteratorsAliasMap c) (cl_counter L) \<noteq> None"
  shows "collect_loop g blocks loops (llvm_loop L) c = Inl (UB ''the variable it is used uninitialised'')"
  using assms(1,2,5) parse_reused_counter[OF assms(4)]
  by (simp add: collect_loop_def llvm_loop_def loop_blocks_def preheader_start[OF assms(3)] Let_def)

section \<open>A loop over a vector\<close>

text \<open>
  \<open>for (i = init; i < fin; i += inc) ... a[i + k] ...\<close>, the function around it, and the loop as \<open>LoopInfo\<close> has it.
\<close>

record vector_loop = counted_loop +
  vl_array :: ptr
  vl_size :: int
  vl_offset :: int
  vl_load :: ptr
  vl_add :: ptr
  vl_sext :: ptr
  vl_gep :: ptr
  vl_value :: ptr

definition entry_block :: "vector_loop \<Rightarrow> basicBlock" where
  "entry_block L =
     \<lparr>bb_addr = cl_preheader L,
      bb_insts =
        [\<lparr>i_addr = cl_counter L, i_parent = cl_preheader L, i_kind = AllocaInst OtherType\<rparr>,
         \<lparr>i_addr = vl_array L, i_parent = cl_preheader L, i_kind = AllocaInst (ArrayType (vl_size L) OtherType)\<rparr>]
        @ start_insts (counted_loop.truncate L),
      bb_single_pred = nullptr\<rparr>"

definition body_block :: "vector_loop \<Rightarrow> basicBlock" where
  "body_block L =
     \<lparr>bb_addr = cl_body L,
      bb_insts =
        [\<lparr>i_addr = vl_load L, i_parent = cl_body L, i_kind = LoadInst (register (cl_counter L))\<rparr>,
         \<lparr>i_addr = vl_add L, i_parent = cl_body L,
           i_kind = BinaryOperator OpAdd (register (vl_load L)) \<lparr>v_addr = nullptr, v_const = Some (vl_offset L)\<rparr>\<rparr>,
         \<lparr>i_addr = vl_sext L, i_parent = cl_body L, i_kind = SExtInst (register (vl_add L))\<rparr>,
         \<lparr>i_addr = vl_gep L, i_parent = cl_body L,
           i_kind = GetElementPtrInst [register (vl_array L), \<lparr>v_addr = nullptr, v_const = Some 0\<rparr>, register (vl_sext L)]\<rparr>,
         \<lparr>i_addr = vl_value L, i_parent = cl_body L, i_kind = LoadInst (register (vl_gep L))\<rparr>,
         \<lparr>i_addr = nullptr, i_parent = cl_body L, i_kind = BranchInst [register (cl_latch L)]\<rparr>],
      bb_single_pred = cl_header L\<rparr>"

definition exit_block :: "vector_loop \<Rightarrow> basicBlock" where
  "exit_block L =
     \<lparr>bb_addr = cl_exit L, bb_insts = [\<lparr>i_addr = nullptr, i_parent = cl_exit L, i_kind = ReturnInst\<rparr>],
      bb_single_pred = cl_header L\<rparr>"

definition vector_blocks :: "vector_loop \<Rightarrow> basicBlock list" where
  "vector_blocks L =
     [entry_block L, header_block (counted_loop.truncate L), body_block L, latch_block (counted_loop.truncate L), exit_block L]"

definition vector_distinct :: "vector_loop \<Rightarrow> bool" where
  "vector_distinct L \<longleftrightarrow> distinct [cl_preheader L, cl_header L, cl_body L, cl_latch L, cl_exit L] \<and> cl_end L = cl_body L \<and>
     distinct [nullptr, cl_counter L, vl_array L, vl_load L, vl_add L, vl_sext L, vl_gep L, vl_value L]"


lemma vector_fields [simp]:
  "bb_addr (entry_block L) = cl_preheader L" "bb_addr (body_block L) = cl_body L" "bb_addr (exit_block L) = cl_exit L"
  by (simp_all add: entry_block_def body_block_def exit_block_def)

lemma truncate_fields [simp]:
  "cl_addr (counted_loop.truncate L) = cl_addr L" "cl_counter (counted_loop.truncate L) = cl_counter L"
  "cl_init (counted_loop.truncate L) = cl_init L" "cl_pred (counted_loop.truncate L) = cl_pred L"
  "cl_final (counted_loop.truncate L) = cl_final L" "cl_inc (counted_loop.truncate L) = cl_inc L"
  "cl_preheader (counted_loop.truncate L) = cl_preheader L" "cl_header (counted_loop.truncate L) = cl_header L"
  "cl_body (counted_loop.truncate L) = cl_body L" "cl_end (counted_loop.truncate L) = cl_end L"
  "cl_latch (counted_loop.truncate L) = cl_latch L" "cl_exit (counted_loop.truncate L) = cl_exit L"
  "cl_load (counted_loop.truncate L) = cl_load L" "cl_cmp (counted_loop.truncate L) = cl_cmp L"
  "cl_reload (counted_loop.truncate L) = cl_reload L" "cl_next (counted_loop.truncate L) = cl_next L"
  by (simp_all add: counted_loop.defs)

lemma entry_allocas:
  "parseAllocaInstructions (entry_block L) (collector_start raw) =
     (collector_start raw)\<lparr>arraysInfoMap := [(vl_array L, [1, vl_size L])],
                          aliasInfoMap := sm_insert (vl_array L) [] [(cl_counter L, [])]\<rparr>"
  by (simp add: parseAllocaInstructions_def entry_block_def start_insts_def parse_alloca_def collector_start_def Let_def)

lemma entry_preheader:
  "parseLoopPreheader (entry_block L) c = c\<lparr>initValuesMap := sm_insert (cl_counter L) (cl_init L) (initValuesMap c)\<rparr>"
  by (simp add: parseLoopPreheader_def entry_block_def start_insts_def parse_preheader_inst_def)


definition vector_state :: "garbage \<Rightarrow> vector_loop \<Rightarrow> nat \<Rightarrow> collector \<Rightarrow> collector" where
  "vector_state g L n raw =
     (collector_start raw)
       \<lparr>validBBs := [cl_preheader L], arraysInfoMap := [(vl_array L, [1, vl_size L])],
        aliasInfoMap := [(vl_array L, [])], initValuesMap := [(cl_counter L, cl_init L)],
        iteratorsAliasMap := [(cl_counter L, cl_load L)], loopBodyList := [cl_body L, cl_end L],
        loopPreheaderList := [cl_preheader L], loopHeaderList := [cl_header L], loopLatchList := [cl_latch L],
        loopIteratorMap := [(cl_addr L, cl_counter L)],
        LIT := \<lparr>nestedLoopMap = [(cl_counter L, [])],
                loopInfoMap = [(cl_counter L, loop_facts g (counted_loop.truncate L) n)]\<rparr>\<rparr>"

lemma vector_loop_collected:
  assumes "loop_runs (counted_loop.truncate L) n" "vector_distinct L"
  shows "collectLoopInfo g (vector_blocks L) [llvm_loop (counted_loop.truncate L)]
      (push_valid (entry_block L) (parseAllocaInstructions (entry_block L) (collector_start raw))) = Inr (vector_state g L n raw)"
proof -
  let ?L = "counted_loop.truncate L"
  let ?c = "push_valid (entry_block L) (parseAllocaInstructions (entry_block L) (collector_start raw))"
  have ne: "cl_counter L \<noteq> vl_array L" using assms(2) by (simp add: vector_distinct_def)
  have blocks: "loop_blocks ?L (vector_blocks L)" "find_block (vector_blocks L) (cl_preheader ?L) = Inr (entry_block L)"
    using assms(2) by (auto simp: loop_blocks_def find_block_def vector_blocks_def vector_distinct_def)
  have c: "parseLoopPreheader (entry_block L) (listed ?L ?c) =
      (collector_start raw)
       \<lparr>validBBs := [cl_preheader L], arraysInfoMap := [(vl_array L, [1, vl_size L])],
        aliasInfoMap := sm_insert (vl_array L) [] [(cl_counter L, [])], initValuesMap := [(cl_counter L, cl_init L)],
        loopPreheaderList := [cl_preheader L], loopHeaderList := [cl_header L], loopLatchList := [cl_latch L]\<rparr>"
    unfolding push_valid_def entry_allocas by (simp add: entry_preheader listed_def collector_start_def)
  have erase: "sm_erase (cl_counter L) (sm_insert (vl_array L) [] [(cl_counter L, [])]) = [(vl_array L, [])]"
    using ne by (auto simp: sm_erase_def)
  have "collect_loop g (vector_blocks L) [llvm_loop ?L] (llvm_loop ?L) ?c =
      Inr (loop_collected g ?L n (parseLoopPreheader (entry_block L) (listed ?L ?c)))"
    by (rule collect_counted_loop[OF assms(1) blocks], unfold c)
       (use ne in \<open>simp_all add: collector_start_def sm_find_insert\<close>)
  also have "loop_collected g ?L n (parseLoopPreheader (entry_block L) (listed ?L ?c)) = vector_state g L n raw"
    unfolding c by (simp add: loop_collected_def erase vector_state_def collector_start_def insertNewLoopIt_def insertLoopInfo_def empty_LIT_def
        del: sm_insert.simps(2))
  finally show ?thesis by (simp add: collectLoopInfo_def)
qed

text \<open>
  What is found out about the access. The detection of the kind of traversal reads behind its vector
  whenever there is a single loop; whatever it finds, the result is the same.
\<close>

definition vector_pattern :: "garbage \<Rightarrow> int list \<Rightarrow> access_pattern" where
  "vector_pattern g v = (g_pattern g)\<lparr>rowsM := 1, colsM := 1, incrementVector := v\<rparr>"

lemma vector_patterns:
  assumes "cl_inc L \<noteq> 0" "g_heap g = junk_heap h"
    "sm_find (loopInfoMap lit) (cl_counter L) = Some info" "iteratorIncrement info = cl_inc L"
  shows "access_patterns g lit [cl_counter L] [index_info g [cl_counter L] (vl_offset L) Add_opcode] =
     Inr ((vector_pattern g [cl_inc L])\<lparr>apmType := rowMajor, initZerosM := 0, finalZerosM := 0\<rparr>, vector_pattern g [vl_offset L])"
  using assms
  by (simp add: access_patterns_def push_index_def push_column_def index_info_def getLoopInfo_def pushIncrement_def
     ap_setRows_def ap_setCols_def detectAccessPatternType_def pruneIncrementVector_def for_loop_def for_range_def
     for_values_def prune_step1_def vec_at_def ap_at_def junk_heap_def detectZeroCols_def zero_col_def vector_pattern_def Let_def)

lemma vector_pattern_at [simp]: "ap_at heap (vector_pattern g [k]) 0 0 = Inr k"
  by (simp add: ap_at_def vector_pattern_def)

lemma loop_facts_fields [simp]:
  "loopBody (loop_facts g L n) = [cl_body L, cl_end L]" "iterations (loop_facts g L n) = int n"
  "iteratorInitValue (loop_facts g L n) = cl_init L" "iteratorIncrement (loop_facts g L n) = cl_inc L"
  "iteratorFinalValue (loop_facts g L n) = cl_final L"
  by (simp_all add: loop_facts_def)

lemma index_info_fields [simp]:
  "iterators (index_info g its k op) = its" "idx_constant (index_info g its k op) = k" "idx_operation (index_info g its k op) = op"
  by (simp_all add: index_info_def)

definition vector_access :: "garbage \<Rightarrow> vector_loop \<Rightarrow> nat \<Rightarrow> collector \<Rightarrow> pointerInfoStruct" where
  "vector_access g L n raw =
     (tmpPointerStruct raw)
       \<lparr>loopIterator := cl_counter L, arrayRows := 1, arrayCols := vl_size L, setRows := -1, setCols := -1,
        spacingInSubsetX := -1, spacingInSubsetY := -1, spacingX := cl_inc L, spacingY := 1,
        offsetX := cl_init L + vl_offset L, offsetY := 0,
        stopX := cl_init L + vl_offset L + cl_inc L * (int n - 1), stopY := 0,
        numberOfSubsets := 1, numberOfSubsetsElements := int n,
        pointerAccessPattern := (vector_pattern g [cl_inc L])\<lparr>apmType := rowMajor, initZerosM := 0, finalZerosM := 0\<rparr>,
        pointerAccessPatternConstant := vector_pattern g [vl_offset L],
        firstIdxInfo := index_info g [cl_counter L] (vl_offset L) Add_opcode,
        secondIdxInfo := (g_index g)\<lparr>iterators := []\<rparr>\<rparr>"

definition vector_final :: "garbage \<Rightarrow> vector_loop \<Rightarrow> nat \<Rightarrow> collector \<Rightarrow> collector" where
  "vector_final g L n raw =
     (vector_state g L n raw)
       \<lparr>iteratorsAliasMap := [(cl_counter L, vl_load L)],
        combinedIterators := [vl_add L], combinedIteratorsMap := [(vl_sext L, index_info g [cl_counter L] (vl_offset L) Add_opcode)],
        aliasInfoMap := [(vl_array L, [vl_gep L])], PIT := [(vl_gep L, vector_access g L n raw)],
        tmpPointerStruct := (tmpPointerStruct raw)
          \<lparr>firstIdxInfo := index_info g [cl_counter L] (vl_offset L) Add_opcode, secondIdxInfo := (g_index g)\<lparr>iterators := []\<rparr>\<rparr>,
        iterationList := [int n], validBBs := [cl_preheader L]\<rparr>"

lemma vector_body:
  assumes "vector_distinct L" "cl_inc L \<noteq> 0" "g_heap g = junk_heap h"
  shows "parseLoopBody g (body_block L) (vector_state g L n raw) = Inr (vector_final g L n raw)"
proof -
  note d = assms(1)[unfolded vector_distinct_def]
  let ?idx = "index_info g [cl_counter L] (vl_offset L) Add_opcode"
  let ?c1 = "(vector_state g L n raw)\<lparr>iteratorsAliasMap := [(cl_counter L, vl_load L)],
      combinedIterators := [vl_add L], combinedIteratorsMap := [(vl_sext L, ?idx)]\<rparr>"
  have a: "efold (parse_body_inst g) (take 3 (bb_insts (body_block L))) (vector_state g L n raw) = Inr ?c1"
    using d by (simp add: body_block_def parse_body_inst_def parse_body_load_def vector_state_def collector_start_def sm_modify_def
        parse_body_add_def find_operands_def combine_def parse_sext_def sm_erase_def)
  have b: "parse_body_inst g (bb_insts (body_block L) ! 3) ?c1 = Inr (vector_final g L n raw)"
  proof -
    have p: "access_patterns g (LIT (vector_state g L n raw)) [cl_counter L] [?idx] =
        Inr ((vector_pattern g [cl_inc L])\<lparr>apmType := rowMajor, initZerosM := 0, finalZerosM := 0\<rparr>, vector_pattern g [vl_offset L])"
      by (rule vector_patterns[OF assms(2,3), where info = "loop_facts g (counted_loop.truncate L) n"])
         (simp_all add: vector_state_def loop_facts_def)
    have "vl_gep L \<noteq> vl_array L" "cl_end L = cl_body L" using d by auto
    moreover have "find_loop_body (loopInfoMap (LIT (vector_state g L n raw))) (cl_body L) = Some (cl_counter L)"
      by (simp add: vector_state_def)
    ultimately show ?thesis
      using p
      by (simp add: body_block_def parse_body_inst_def parse_gep_def list_at_def vector_state_def collector_start_def
          read_index_def set_index_def push_alias_def insert_pointer_def insertPointerInfo_def setPointerInfo_def
          getPointerInfo_def getLoopIteratorFromLoopBody_def getNestedLoops_def getIterationVector_def iteration_counts_def
          getLoopInfo_def getAllocatedReg_def list_front_def list_back_def modifyPointerInfo_def collectInfo.defs sm_modify_def
          vector_geometry_def vector_access_def vector_final_def Let_def)
  qed
  have c: "efold (parse_body_inst g) (drop 4 (bb_insts (body_block L))) (vector_final g L n raw) = Inr (vector_final g L n raw)"
    using d by (simp add: body_block_def parse_body_inst_def parse_body_load_def vector_final_def sm_modify_def)
  have split: "bb_insts (body_block L) = take 3 (bb_insts (body_block L)) @ [bb_insts (body_block L) ! 3] @ drop 4 (bb_insts (body_block L))"
    by (simp add: body_block_def)
  have "efold (parse_body_inst g)
      (take 3 (bb_insts (body_block L)) @ [bb_insts (body_block L) ! 3] @ drop 4 (bb_insts (body_block L))) (vector_state g L n raw) =
    Inr (vector_final g L n raw)"
    by (simp only: efold_append a b c ebind_simps efold.simps)
  then show ?thesis unfolding parseLoopBody_def by (simp only: split[symmetric])
qed

lemma vector_function:
  assumes "loop_runs (counted_loop.truncate L) n" "vector_distinct L" "g_heap g = junk_heap h"
  shows "parseFunction g (vector_blocks L) [llvm_loop (counted_loop.truncate L)] (collector_start raw) =
    Inr ((vector_final g L n raw)\<lparr>validBBs := [cl_preheader L, cl_body L, cl_exit L]\<rparr>)"
proof -
  have d: "cl_header L \<noteq> cl_body L" "cl_latch L \<noteq> cl_body L" "cl_exit L \<noteq> cl_header L" "cl_exit L \<noteq> cl_latch L" "cl_end L = cl_body L"
    using assms(2) by (auto simp: vector_distinct_def)
  have inc: "cl_inc L \<noteq> 0" using assms(1) count_runs(1) by (auto simp: loop_runs_def runs_for_def)
  have collect: "collectLoopInfo g (vector_blocks L) [llvm_loop (counted_loop.truncate L)]
      (push_valid (entry_block L) (parseAllocaInstructions (entry_block L) (collector_start raw))) = Inr (vector_state g L n raw)"
    by (rule vector_loop_collected[OF assms(1,2)])
  have lists: "loopBodyList (vector_state g L n raw) = [cl_body L, cl_end L]" "loopHeaderList (vector_state g L n raw) = [cl_header L]"
    "loopLatchList (vector_state g L n raw) = [cl_latch L]"
    "loopBodyList (vector_final g L n raw) = [cl_body L, cl_end L]" "loopHeaderList (vector_final g L n raw) = [cl_header L]"
    "loopLatchList (vector_final g L n raw) = [cl_latch L]" "validBBs (vector_final g L n raw) = [cl_preheader L]"
    by (simp_all add: vector_state_def vector_final_def)
  have exit: "parseLoopBody g (exit_block L) c = Inr c" for c by (simp add: parseLoopBody_def exit_block_def parse_body_inst_def)
  show ?thesis
    unfolding parseFunction_def vector_blocks_def list.case unfolding vector_blocks_def[symmetric] collect
    using d vector_body[OF assms(2) inc assms(3)] by (simp add: parse_block_def lists exit push_valid_def)
qed
end
