(* ===== verification/Array_Loops.thy ===== *)
theory Array_Loops
  imports Collect_Proofs Bind_Handlers
begin

text \<open>
  From loops over arrays to rows: the information that the walk collects of an access, and the rows
  that the binder takes from it for an operand, in the order of the loop.
\<close>

section \<open>The rows of an operand\<close>

definition counter_values :: "counted_loop \<Rightarrow> nat \<Rightarrow> int list" where
  "counter_values L n = map (\<lambda>k. cl_init L + int k * cl_inc L) [0..<n]"

lemma push_all:
  assumes "\<forall>j \<in> set js. 0 \<le> f j \<and> f j < int (length addrs)"
  shows "efold (\<lambda>j. push_at addrs (Inr (f j))) js l = Inr (l @ map (\<lambda>j. addrs ! nat (f j)) js)"
proof -
  have "efold (\<lambda>j. push_at addrs (Inr (f j))) js l = Inr (l @ concat (map (\<lambda>j. [addrs ! nat (f j)]) js))"
    using assms by (intro efold_collect) (auto simp: push_at_def list_at_def)
  then show ?thesis by (simp add: concat_map_singleton)
qed

lemma one_row: "for_loop 0 1 1 f s = f 0 s"
  by (cases "f 0 s") (simp_all add: for_loop_upt)

text \<open>The rows of a vector that a loop visits.\<close>

lemma vector_shape:
  assumes "apmType (pointerAccessPattern info) = rowMajor" "initZerosM (pointerAccessPattern info) = 0"
    and "offsetY info = 0" "stopY info = 0" "spacingY info = 1"
  shows "shapeAddressList addrs info =
    for_loop (offsetX info) (stopX info + 1) (spacingX info) (\<lambda>j. push_at addrs (Inr j)) []"
  using assms by (simp add: shapeAddressList_def shape_plain_def one_row extractIteratorAdvancement_def)

lemma vector_access_shape:
  "shapeAddressList addrs (vector_access g L n raw) =
     for_loop (cl_init L + vl_offset L) (cl_init L + vl_offset L + cl_inc L * (int n - 1) + 1) (cl_inc L)
       (\<lambda>j. push_at addrs (Inr j)) []"
  by (subst vector_shape) (simp_all add: vector_access_def)

lemma vector_rows:
  assumes "0 < cl_inc L" "0 < n" "\<forall>i \<in> set (counter_values (counted_loop.truncate L) n). 0 \<le> i + vl_offset L \<and> i + vl_offset L < int (length addrs)"
  shows "shapeAddressList addrs (vector_access g L n raw) =
    Inr (map (\<lambda>i. addrs ! nat (i + vl_offset L)) (counter_values (counted_loop.truncate L) n))"
proof -
  let ?js = "map (\<lambda>k. cl_init L + vl_offset L + int k * cl_inc L) [0..<n]"
  have "shapeAddressList addrs (vector_access g L n raw) = efold (\<lambda>j. push_at addrs (Inr j)) ?js []"
    unfolding vector_access_shape for_loop_def using assms(1,2) by (simp add: for_range_pos for_values_counted)
  also have "\<dots> = Inr (map (\<lambda>j. addrs ! nat j) ?js)"
    using assms(3) push_all[of ?js "\<lambda>j. j" addrs "[]"] by (auto simp: counter_values_def algebra_simps)
  finally show ?thesis by (simp add: counter_values_def comp_def algebra_simps)
qed

text \<open>A loop that counts down.\<close>

lemma vector_rows_down:
  assumes "cl_inc L < 0"
  shows "0 < n \<Longrightarrow> n \<noteq> 1 \<Longrightarrow> shapeAddressList addrs (vector_access g L n raw) = Inr []"
    "shapeAddressList addrs (vector_access g L 1 raw) = Inl (LoopForever ''for loop with a non-positive step'')"
proof -
  assume n: "0 < n" "n \<noteq> 1"
  then have "1 \<le> int n - 1" by simp
  then have "cl_inc L * (int n - 1) \<le> cl_inc L * 1" using assms by (intro mult_left_mono_neg) simp_all
  then have "cl_inc L * (int n - 1) + 1 \<le> 0" using assms by linarith
  then show "shapeAddressList addrs (vector_access g L n raw) = Inr []"
    unfolding vector_access_shape using assms by (simp add: for_loop_def for_range_def)
next
  show "shapeAddressList addrs (vector_access g L 1 raw) = Inl (LoopForever ''for loop with a non-positive step'')"
    unfolding vector_access_shape using assms by (simp add: for_loop_def for_range_def)
qed

lemma vector_collected:
  assumes "loop_runs (counted_loop.truncate L) n" "vector_distinct L" "g_heap g = junk_heap h"
  obtains c where "parseFunction g (vector_blocks L) [llvm_loop (counted_loop.truncate L)] (collector_start raw) = Inr c"
    "getPointerInfo (PIT c) (vl_gep L) = Inr (vector_access g L n raw)"
    "iteration_counts (LIT c) (getIterationVector (LIT c) (cl_counter L)) = Inr [int n]"
    "getAllocatedReg (collected c) (vl_gep L) = vl_array L"
    "getArraySize (collected c) (vl_array L) = Inr (vl_size L)"
    "filter (isValidInst (collected c)) (bb_insts (body_block L)) =
       [\<lparr>i_addr = vl_value L, i_parent = cl_body L, i_kind = LoadInst (register (vl_gep L))\<rparr>]"
proof -
  let ?c = "(vector_final g L n raw)\<lparr>validBBs := [cl_preheader L, cl_body L, cl_exit L]\<rparr>"
  have d: "vl_gep L \<noteq> vl_array L" "vl_gep L \<noteq> cl_counter L" using assms(2) by (auto simp: vector_distinct_def)
  show ?thesis
  proof (rule that[of ?c])
    show "parseFunction g (vector_blocks L) [llvm_loop (counted_loop.truncate L)] (collector_start raw) = Inr ?c"
      by (rule vector_function[OF assms])
    show "getPointerInfo (PIT ?c) (vl_gep L) = Inr (vector_access g L n raw)"
      by (simp add: getPointerInfo_def vector_final_def)
    show "iteration_counts (LIT ?c) (getIterationVector (LIT ?c) (cl_counter L)) = Inr [int n]"
      by (simp add: vector_final_def vector_state_def getIterationVector_def iteration_counts_def getLoopInfo_def)
    show "getAllocatedReg (collected ?c) (vl_gep L) = vl_array L"
      using d by (simp add: getAllocatedReg_def vector_final_def collectInfo.defs)
    show "getArraySize (collected ?c) (vl_array L) = Inr (vl_size L)"
      by (simp add: getArraySize_def vector_final_def vector_state_def collectInfo.defs list_front_def list_back_def)
    show "filter (isValidInst (collected ?c)) (bb_insts (body_block L)) =
       [\<lparr>i_addr = vl_value L, i_parent = cl_body L, i_kind = LoadInst (register (vl_gep L))\<rparr>]"
      using d by (simp add: body_block_def isValidInst_def vector_final_def vector_state_def collectInfo.defs)
  qed
qed


lemma vector_operand:
  assumes "b_InfoCollection b = collected c" "getPointerInfo (PIT c) (vl_gep L) = Inr (vector_access g L n raw)"
    and "iteration_counts (LIT c) (getIterationVector (LIT c) (cl_counter L)) = Inr [int n]"
  shows "operand_list arrayOperand src (vl_gep L) addrs info b =
    ebind (shapeAddressList addrs (vector_access g L n raw)) (\<lambda>l. Inr (int (length l), l, vector_access g L n raw, b))"
proof -
  have fields: "PIT (b_InfoCollection b) = PIT c" "LIT (b_InfoCollection b) = LIT c" by (simp_all add: assms(1) collectInfo.defs)
  have access: "loopIterator (vector_access g L n raw) = cl_counter L"
    "initZerosM (pointerAccessPattern (vector_access g L n raw)) = 0" "finalZerosM (pointerAccessPattern (vector_access g L n raw)) = 0"
    by (simp_all add: vector_access_def)
  show ?thesis unfolding operand_list_def operandType.case fields assms(2) ebind_simps access assms(3)
    by (simp add: expandAddressList_def access)
qed

section \<open>Properties: vectors\<close>

text \<open>
  C6: for a loop \<open>for (i = init; i < fin; i += inc)\<close> with an access \<open>a[i + k]\<close>, counting up, with any of the
  four comparisons, the rows that the binder works on are those of the elements that the loop visits,
  in its order, as many as there are iterations, whatever is found behind the vector of the access
  pattern. The instructions that are left for the scheduler are those of the computation.
\<close>

theorem vector_loop_operand:
  assumes "loop_runs (counted_loop.truncate L) n" "vector_distinct L" "g_heap g = junk_heap h" "0 < cl_inc L"
    and "\<forall>i \<in> set (counter_values (counted_loop.truncate L) n). 0 \<le> i + vl_offset L \<and> i + vl_offset L < int (length addrs)"
  shows "\<exists>c info'. parseFunction g (vector_blocks L) [llvm_loop (counted_loop.truncate L)] (collector_start raw) = Inr c \<and>
    (\<forall>b. b_InfoCollection b = collected c \<longrightarrow>
       operand_list arrayOperand (vl_array L) (vl_gep L) addrs info b =
         Inr (int n, map (\<lambda>i. addrs ! nat (i + vl_offset L)) (counter_values (counted_loop.truncate L) n), info', b)) \<and>
    getAllocatedReg (collected c) (vl_gep L) = vl_array L \<and> getArraySize (collected c) (vl_array L) = Inr (vl_size L) \<and>
    filter (isValidInst (collected c)) (bb_insts (body_block L)) =
      [\<lparr>i_addr = vl_value L, i_parent = cl_body L, i_kind = LoadInst (register (vl_gep L))\<rparr>]"
proof -
  obtain c where c: "parseFunction g (vector_blocks L) [llvm_loop (counted_loop.truncate L)] (collector_start raw) = Inr c"
    "getPointerInfo (PIT c) (vl_gep L) = Inr (vector_access g L n raw)"
    "iteration_counts (LIT c) (getIterationVector (LIT c) (cl_counter L)) = Inr [int n]"
    "getAllocatedReg (collected c) (vl_gep L) = vl_array L" "getArraySize (collected c) (vl_array L) = Inr (vl_size L)"
    "filter (isValidInst (collected c)) (bb_insts (body_block L)) =
      [\<lparr>i_addr = vl_value L, i_parent = cl_body L, i_kind = LoadInst (register (vl_gep L))\<rparr>]"
    by (rule vector_collected[OF assms(1-3)])
  have n: "0 < n" using assms(1) by (simp add: loop_runs_def)
  have "operand_list arrayOperand (vl_array L) (vl_gep L) addrs info b =
      Inr (int n, map (\<lambda>i. addrs ! nat (i + vl_offset L)) (counter_values (counted_loop.truncate L) n), vector_access g L n raw, b)"
    if "b_InfoCollection b = collected c" for b
    unfolding vector_operand[OF that c(2,3)] vector_rows[OF assms(4) n assms(5)] by (simp add: counter_values_def)
  then show ?thesis using c(1,4-6) by blast
qed

text \<open>
  C38: a loop that counts down is analysed as if it counted up: the binder takes no row of the array for
  it, and does not end when the loop has a single iteration.
\<close>

theorem vector_loop_counts_down:
  assumes "loop_runs (counted_loop.truncate L) n" "vector_distinct L" "g_heap g = junk_heap h" "cl_inc L < 0"
  shows "\<exists>c info'. parseFunction g (vector_blocks L) [llvm_loop (counted_loop.truncate L)] (collector_start raw) = Inr c \<and>
    (\<forall>b. b_InfoCollection b = collected c \<longrightarrow>
       operand_list arrayOperand (vl_array L) (vl_gep L) addrs info b =
         (if n = 1 then Inl (LoopForever ''for loop with a non-positive step'') else Inr (0, [], info', b)))"
proof -
  obtain c where c: "parseFunction g (vector_blocks L) [llvm_loop (counted_loop.truncate L)] (collector_start raw) = Inr c"
    "getPointerInfo (PIT c) (vl_gep L) = Inr (vector_access g L n raw)"
    "iteration_counts (LIT c) (getIterationVector (LIT c) (cl_counter L)) = Inr [int n]"
    by (rule vector_collected[OF assms(1-3)])
  have "0 < n" using assms(1) by (simp add: loop_runs_def)
  then have "operand_list arrayOperand (vl_array L) (vl_gep L) addrs info b =
      (if n = 1 then Inl (LoopForever ''for loop with a non-positive step'') else Inr (0, [], vector_access g L n raw, b))"
    if "b_InfoCollection b = collected c" for b
    using vector_operand[OF that c(2,3)] vector_rows_down[OF assms(4)] by simp
  then show ?thesis using c(1) by blast
qed

section \<open>Properties: loops\<close>

text \<open>
  C10: for the first loop over a counter with a constant start and a constant bound less than \<open>2 ^
  24\<close> apart that runs at least once, the number of iterations that is entered in the table is the number
  of times its condition holds, for each of the four signed comparisons, for steps of either sign, and whether
  or not the step divides the distance of the bounds. (A loop that is not entered may get a negative number, and
  with another comparison the number may stay uninitialised: \<open>count_iterations_not_entered\<close>,
  \<open>count_iterations_other\<close>.)
\<close>

theorem loop_iterations_counted:
  assumes "runs_for (cl_pred L) (cl_init L) (cl_final L) (cl_inc L) n" "0 < n" "\<bar>cl_final L - cl_init L\<bar> < 2 ^ 24"
    and "sm_find (initValuesMap c) (cl_counter L) = Some (cl_init L)" "sm_find (iteratorsAliasMap c) (cl_counter L) = None"
    and "sm_find (aliasInfoMap c) (cl_counter L) \<noteq> None" "lit_inv (LIT c)" "sm_find (loopInfoMap (LIT c)) (cl_counter L) = None"
  shows "\<exists>c' info. parseLoopHeaderAndLatch g (header_block L) (latch_block L) c = Inr (cl_counter L, c') \<and>
    getLoopInfo (LIT c') (cl_counter L) = Inr info \<and> iterations info = int n \<and>
    iteratorInitValue info = cl_init L \<and> iteratorFinalValue info = cl_final L \<and> iteratorIncrement info = cl_inc L \<and>
    loopBody info = [cl_body L, cl_end L]"
proof -
  let ?lit = "insertLoopInfo (cl_counter L) (loop_facts g L n) (LIT c)"
  have runs: "loop_runs L n" using assms(1-3) by (simp add: loop_runs_def)
  have found: "sm_find (loopInfoMap ?lit) (cl_counter L) = Some (loop_facts g L n)"
    using assms(7,8) by (simp add: insertLoopInfo_def lit_inv_def sm.insert_absent)
  then show ?thesis using parse_counted_loop[OF runs assms(4-6)] by (auto simp: getLoopInfo_def)
qed

text \<open>
  C39: a counter can be used by one loop only. When a second loop starts the same variable again, its
  header does not set the variable that names the loop, and the analysis of the function reads it
  uninitialised.
\<close>

theorem second_loop_with_a_counter:
  assumes "loop_runs L1 n" "loop_blocks L1 blocks" "loop_blocks L2 blocks"
    and "find_block blocks (cl_preheader L1) = Inr PH" "bb_insts PH = start_insts L1"
    and "find_block blocks (cl_preheader L2) = Inr PH'" "bb_insts PH' = start_insts L2"
    and "cl_counter L2 = cl_counter L1" "cl_inc L2 \<noteq> 0"
    and "sm_inv (initValuesMap c)" "sm_inv (iteratorsAliasMap c)" "sm_find (initValuesMap c) (cl_counter L1) = None"
    and "sm_find (iteratorsAliasMap c) (cl_counter L1) = None" "sm_find (aliasInfoMap c) (cl_counter L1) \<noteq> None"
  shows "collectLoopInfo g blocks [llvm_loop L1, llvm_loop L2] c = Inl (UB ''the variable it is used uninitialised'')"
proof -
  let ?c = "parseLoopPreheader PH (listed L1 c)"
  have c: "?c = (listed L1 c)\<lparr>initValuesMap := sm_insert (cl_counter L1) (cl_init L1) (initValuesMap (listed L1 c))\<rparr>"
    by (rule preheader_start[OF assms(5)])
  have first: "collect_loop g blocks [llvm_loop L1, llvm_loop L2] (llvm_loop L1) c = Inr (loop_collected g L1 n ?c)"
    by (rule collect_counted_loop[OF assms(1,2,4)], unfold c) (use assms(10-14) in \<open>simp_all add: listed_def sm_find_insert\<close>)
  have "sm_find (iteratorsAliasMap (loop_collected g L1 n ?c)) (cl_counter L2) \<noteq> None"
    unfolding c using assms(8,11,13) by (simp add: loop_collected_def listed_def sm_find_insert)
  from collect_reused_counter[OF assms(3,6,7,9) this] first show ?thesis by (simp add: collectLoopInfo_def)
qed

section \<open>Witnesses\<close>

text \<open>\<open>for (i = 0; i < 6; i += 2) ... a[i + 1] ...\<close> on eight elements, and the same downwards from 5.\<close>

definition sample_loop :: "predicate \<Rightarrow> int \<Rightarrow> int \<Rightarrow> int \<Rightarrow> vector_loop" where
  "sample_loop p init fin inc =
     \<lparr>cl_addr = 4, cl_counter = 100, cl_init = init, cl_pred = p, cl_final = fin, cl_inc = inc,
      cl_preheader = 8, cl_header = 12, cl_body = 16, cl_end = 16, cl_latch = 20, cl_exit = 24,
      cl_load = 108, cl_cmp = 112, cl_reload = 116, cl_next = 120,
      vl_array = 104, vl_size = 8, vl_offset = 1, vl_load = 124, vl_add = 128, vl_sext = 132, vl_gep = 136, vl_value = 140\<rparr>"

definition blank_loop :: loopInfoStruct where
  "blank_loop =
     \<lparr>loopHeader = 0, loopBody = [], loopLatch = 0, iteratorInitValue = 0, iteratorFinalValue = 0, iteratorIncrement = 0,
      iterations = 0, variableInitValue = 0, variableFinalValue = 0, isInitValueConstant = False, isFinalValueConstant = False\<rparr>"

definition sample_garbage :: garbage where
  "sample_garbage =
     \<lparr>g_loop = blank_loop, g_index = \<lparr>iterators = [], idx_constant = 0, idx_operation = 0, operationConstant = 0\<rparr>,
      g_pattern = \<lparr>rowsM = 0, colsM = 0, incrementVector = [], initZerosM = 0, finalZerosM = 0, apmType = undefinedPattern\<rparr>,
      g_heap = junk_heap (\<lambda>v k. 7), g_front = Inr 0, g_end_key = Inl (UB ''reads the end of a map'')\<rparr>"

lemma sample_loop_facts:
  "loop_runs (counted_loop.truncate (sample_loop ICMP_SLT 0 6 2)) 3" "vector_distinct (sample_loop p init fin inc)"
  "loop_runs (counted_loop.truncate (sample_loop ICMP_SGE 5 1 (-2))) 3"
  by (auto simp: loop_runs_def runs_for_def vector_distinct_def sample_loop_def counted_loop.defs nullptr_def)

definition sample_collector :: collector where
  "sample_collector =
     \<lparr>PIT = [], LIT = empty_LIT, iteratorsAliasMap = [], aliasInfoMap = [], initValuesMap = [], validBBs = [], arraysInfoMap = [],
      loopIteratorMap = [], loopPreheaderList = [], loopHeaderList = [], loopLatchList = [], loopBodyList = [],
      combinedIteratorsMap = [], combinedIterators = [], iterationList = [],
      tmpPointerStruct = sample_pis undefinedPattern 0 0 0 0, tmpVariableInitIterator = 0, ptrValid = False\<rparr>"

theorem vector_loop_operand_witness:
  "\<exists>c info' b. parseFunction sample_garbage (vector_blocks (sample_loop ICMP_SLT 0 6 2))
      [llvm_loop (counted_loop.truncate (sample_loop ICMP_SLT 0 6 2))] (collector_start sample_collector) = Inr c \<and>
    b_InfoCollection b = collected c \<and>
    operand_list arrayOperand 104 136 [0, 4, 8, 12, 16, 20, 24, 28] (sample_pis rowMajor 1 1 0 0) b = Inr (3, [4, 12, 20], info', b)"
proof -
  let ?L = "sample_loop ICMP_SLT 0 6 2" and ?addrs = "[0, 4, 8, 12, 16, 20, 24, 28] :: ptr list"
  have f: "vl_array ?L = 104" "vl_gep ?L = 136" "cl_inc ?L = 2" "vl_offset ?L = 1" by (simp_all add: sample_loop_def)
  have visited: "counter_values (counted_loop.truncate ?L) 3 = [0, 2, 4]"
    by (simp add: counter_values_def sample_loop_def counted_loop.defs upt_rec)
  have "g_heap sample_garbage = junk_heap (\<lambda>v k. 7)" by (simp add: sample_garbage_def)
  moreover have "0 < cl_inc ?L" "\<forall>i \<in> set (counter_values (counted_loop.truncate ?L) 3). 0 \<le> i + vl_offset ?L \<and> i + vl_offset ?L < int (length ?addrs)"
    using visited f by simp_all
  ultimately obtain c info' where c: "parseFunction sample_garbage (vector_blocks ?L) [llvm_loop (counted_loop.truncate ?L)]
      (collector_start sample_collector) = Inr c"
    "\<And>b. b_InfoCollection b = collected c \<Longrightarrow>
       operand_list arrayOperand (vl_array ?L) (vl_gep ?L) ?addrs (sample_pis rowMajor 1 1 0 0) b =
         Inr (int 3, map (\<lambda>i. ?addrs ! nat (i + vl_offset ?L)) (counter_values (counted_loop.truncate ?L) 3), info', b)"
    using vector_loop_operand[OF sample_loop_facts(1,2), where g = sample_garbage and raw = sample_collector
        and addrs = ?addrs and info = "sample_pis rowMajor 1 1 0 0"] by blast
  have "b_InfoCollection ((sample_b ''and'' 0 4)\<lparr>b_InfoCollection := collected c\<rparr>) = collected c" by simp
  from c(2)[OF this] c(1) this show ?thesis unfolding visited f by (intro exI[of _ c] exI[of _ info'] exI conjI) simp_all
qed

theorem vector_loop_counts_down_witness:
  "\<exists>c info' b. parseFunction sample_garbage (vector_blocks (sample_loop ICMP_SGE 5 1 (-2)))
      [llvm_loop (counted_loop.truncate (sample_loop ICMP_SGE 5 1 (-2)))] (collector_start sample_collector) = Inr c \<and>
    b_InfoCollection b = collected c \<and>
    operand_list arrayOperand 104 136 [0, 4, 8, 12, 16, 20, 24, 28] (sample_pis rowMajor 1 1 0 0) b = Inr (0, [], info', b)"
proof -
  let ?L = "sample_loop ICMP_SGE 5 1 (-2)" and ?addrs = "[0, 4, 8, 12, 16, 20, 24, 28] :: ptr list"
  have f: "vl_array ?L = 104" "vl_gep ?L = 136" "cl_inc ?L < 0" by (simp_all add: sample_loop_def)
  have "g_heap sample_garbage = junk_heap (\<lambda>v k. 7)" by (simp add: sample_garbage_def)
  then obtain c info' where c: "parseFunction sample_garbage (vector_blocks ?L) [llvm_loop (counted_loop.truncate ?L)]
      (collector_start sample_collector) = Inr c"
    "\<And>b. b_InfoCollection b = collected c \<Longrightarrow>
       operand_list arrayOperand (vl_array ?L) (vl_gep ?L) ?addrs (sample_pis rowMajor 1 1 0 0) b =
         (if (3 :: nat) = 1 then Inl (LoopForever ''for loop with a non-positive step'') else Inr (0, [], info', b))"
    using vector_loop_counts_down[OF sample_loop_facts(3,2) _ f(3), where raw = sample_collector
        and addrs = ?addrs and info = "sample_pis rowMajor 1 1 0 0"] by blast
  have "b_InfoCollection ((sample_b ''and'' 0 4)\<lparr>b_InfoCollection := collected c\<rparr>) = collected c" by simp
  from c(2)[OF this] c(1) this show ?thesis unfolding f(1,2) by (intro exI[of _ c] exI[of _ info'] exI conjI) simp_all
qed

text \<open>\<open>for (i = 0; i < 6; i += 2)\<close>, and a second loop with the counter \<open>i\<close>.\<close>

definition second_sample :: counted_loop where
  "second_sample =
     (counted_loop.truncate (sample_loop ICMP_SLT 0 6 2))
       \<lparr>cl_addr := 204, cl_preheader := 208, cl_header := 212, cl_body := 216, cl_end := 216, cl_latch := 220, cl_exit := 224\<rparr>"

definition counter_collector :: collector where
  "counter_collector = sample_collector\<lparr>initValuesMap := [(100, 0)], aliasInfoMap := [(100, [])]\<rparr>"

theorem loop_iterations_counted_witness:
  "\<exists>c' info. parseLoopHeaderAndLatch sample_garbage (header_block (counted_loop.truncate (sample_loop ICMP_SLT 0 6 2)))
      (latch_block (counted_loop.truncate (sample_loop ICMP_SLT 0 6 2))) counter_collector = Inr (100, c') \<and>
    getLoopInfo (LIT c') 100 = Inr info \<and> iterations info = 3"
proof -
  let ?L = "counted_loop.truncate (sample_loop ICMP_SLT 0 6 2)"
  have L: "cl_counter ?L = 100" "cl_init ?L = 0" by (simp_all add: sample_loop_def)
  have r: "runs_for (cl_pred ?L) (cl_init ?L) (cl_final ?L) (cl_inc ?L) 3" "0 < (3 :: nat)" "\<bar>cl_final ?L - cl_init ?L\<bar> < 2 ^ 24"
    using sample_loop_facts(1) by (simp_all add: loop_runs_def)
  have "sm_find (initValuesMap counter_collector) (cl_counter ?L) = Some (cl_init ?L)"
    "sm_find (iteratorsAliasMap counter_collector) (cl_counter ?L) = None"
    "sm_find (aliasInfoMap counter_collector) (cl_counter ?L) \<noteq> None" "lit_inv (LIT counter_collector)"
    "sm_find (loopInfoMap (LIT counter_collector)) (cl_counter ?L) = None"
    unfolding L by (simp_all add: counter_collector_def sample_collector_def empty_LIT_def lit_inv_def)
  from loop_iterations_counted[OF r this, where g = sample_garbage] show ?thesis unfolding L by auto
qed

theorem second_loop_with_a_counter_witness:
  "collectLoopInfo sample_garbage
     [\<lparr>bb_addr = 8, bb_insts = start_insts (counted_loop.truncate (sample_loop ICMP_SLT 0 6 2)), bb_single_pred = 0\<rparr>,
      header_block (counted_loop.truncate (sample_loop ICMP_SLT 0 6 2)), latch_block (counted_loop.truncate (sample_loop ICMP_SLT 0 6 2)),
      \<lparr>bb_addr = 208, bb_insts = start_insts second_sample, bb_single_pred = 0\<rparr>, header_block second_sample, latch_block second_sample]
     [llvm_loop (counted_loop.truncate (sample_loop ICMP_SLT 0 6 2)), llvm_loop second_sample]
     (sample_collector\<lparr>aliasInfoMap := [(100, [])]\<rparr>) = Inl (UB ''the variable it is used uninitialised'')"
proof -
  have "cl_addr second_sample = 204" "cl_preheader second_sample = 208" "cl_header second_sample = 212" "cl_latch second_sample = 220"
    "cl_counter second_sample = 100" "cl_inc second_sample = 2"
    by (simp_all add: second_sample_def sample_loop_def counted_loop.defs)
  then show ?thesis
    by (intro second_loop_with_a_counter[OF sample_loop_facts(1), where PH = "\<lparr>bb_addr = 8, bb_insts =
          start_insts (counted_loop.truncate (sample_loop ICMP_SLT 0 6 2)), bb_single_pred = 0\<rparr>"
        and PH' = "\<lparr>bb_addr = 208, bb_insts = start_insts second_sample, bb_single_pred = 0\<rparr>"])
       (simp_all add: loop_blocks_def find_block_def sample_collector_def sample_loop_def)
qed

end
