(* ===== verification/Octantis_Function.thy ===== *)
theory Octantis_Function
  imports Hardware_Synthesis Array_Loops
begin

text \<open>
  \<open>OctantisPass::runOnFunction\<close> from the LLVM function to the VHDL file: the configuration, the collection
  of information, and the phases of \<open>Octantis_Pass\<close>, with the printer at the end.
\<close>

section \<open>The pass\<close>

definition schedulable_blocks :: "basicBlock list \<Rightarrow> ptr list \<Rightarrow> llvmInst list list res" where
  "schedulable_blocks blocks addrs =
     efold (\<lambda>p bbs. ebind (find_block blocks p) (\<lambda>BB. Inr (bbs @ [bb_insts BB]))) addrs []"

definition runOctantisPass ::
  "string option \<Rightarrow> garbage \<Rightarrow> collector \<Rightarrow> detector \<Rightarrow> lim_binder \<Rightarrow> basicBlock list \<Rightarrow> llvmLoop list \<Rightarrow> octantis_pass
   \<Rightarrow> (bindingOutput \<times> vhdl_output \<times> octantis_pass) res" where
  "runOctantisPass configFile g raw_c raw_d raw_b blocks loops P =
     ebind (ParseConfigFile configFile (p_parsedData P)) (\<lambda>parsed.
     ebind (parseFunction g blocks loops (collector_start raw_c)) (\<lambda>c.
     ebind (schedulable_blocks blocks (validBBs c)) (\<lambda>basicBlocks.
     ebind (run_phases parsed raw_d raw_b (collected c) basicBlocks P) (\<lambda>(out, P').
     ebind (printVhdl (b_MemArray (out_binder out)) (b_FSMLim (out_binder out))) (\<lambda>vhdl.
       Inr (out, vhdl, P'))))))"

section \<open>Functions of scalar assignments\<close>

text \<open>One block: the variables, the assignments, and the return.\<close>

definition scalar_block :: "ptr \<Rightarrow> ptr list \<Rightarrow> assignment list \<Rightarrow> basicBlock" where
  "scalar_block bb vs prog =
     \<lparr>bb_addr = bb,
      bb_insts = map (\<lambda>v. \<lparr>i_addr = v, i_parent = bb, i_kind = AllocaInst OtherType\<rparr>) vs
        @ concat (map lower prog) @ [\<lparr>i_addr = nullptr, i_parent = bb, i_kind = ReturnInst\<rparr>],
      bb_single_pred = nullptr\<rparr>"

definition scalar_source :: "ptr list \<Rightarrow> assignment list \<Rightarrow> bool" where
  "scalar_source vs prog \<longleftrightarrow> program_variables prog \<subseteq> set vs \<and> distinct (map a_result prog) \<and>
     a_result ` set prog \<inter> program_variables prog = {} \<and>
     (\<forall>A \<in> set prog. parallel_op (a_op A) \<and> a_load1 A \<noteq> nullptr \<and> a_load2 A \<noteq> nullptr)"

lemma parse_alloca_lower: "fold parse_alloca (concat (map lower prog)) c = c"
  by (induction prog arbitrary: c) (simp_all add: lower_def parse_alloca_def)

lemma parse_alloca_scalars:
  "fold parse_alloca (map (\<lambda>v. \<lparr>i_addr = v, i_parent = bb, i_kind = AllocaInst OtherType\<rparr>) vs) c =
     c\<lparr>aliasInfoMap := fold (\<lambda>v. sm_insert v []) vs (aliasInfoMap c)\<rparr>"
  by (induction vs arbitrary: c) (simp_all add: parse_alloca_def Let_def)

lemma insert_all_empty:
  fixes vs :: "ptr list" and m :: "(ptr, ptr list) smap"
  assumes "sm_inv m" "\<forall>(k, l) \<in> set m. l = []"
  defines "m' \<equiv> fold (\<lambda>v. sm_insert v []) vs m"
  shows "sm_inv m'" "\<forall>(k, l) \<in> set m'. l = []" "fst ` set m' = fst ` set m \<union> set vs"
proof -
  have "set (sm_insert v [] m) \<subseteq> insert (v, []) (set m)" for v and m :: "(ptr, ptr list) smap"
    by (induction v "[] :: ptr list" m rule: sm_insert.induct) auto
  then have step: "\<forall>(k, l) \<in> set m. l = [] \<Longrightarrow> \<forall>(k, l) \<in> set (sm_insert v [] m). l = []"
    for v and m :: "(ptr, ptr list) smap" by fastforce
  have "sm_inv m' \<and> (\<forall>(k, l) \<in> set m'. l = []) \<and> fst ` set m' = fst ` set m \<union> set vs"
    unfolding m'_def using assms(1,2)
  proof (induction vs arbitrary: m)
    case (Cons v vs)
    have "sm_inv (sm_insert v [] m)" "\<forall>(k, l) \<in> set (sm_insert v [] m). l = []"
      using Cons.prems step by blast+
    from Cons.IH[OF this] show ?case by (simp add: fst_sm_insert)
  qed simp
  then show "sm_inv m'" "\<forall>(k, l) \<in> set m'. l = []" "fst ` set m' = fst ` set m \<union> set vs" by blast+
qed

lemma allocated_self: "\<forall>(k, l) \<in> set m. l = [] \<Longrightarrow> v \<in> fst ` set m \<Longrightarrow> getAllocatedReg_scan m v = v"
  by (induction m v rule: getAllocatedReg_scan.induct) auto

lemma collected_scalars:
  assumes "scalar_source vs prog"
  obtains c where "parseFunction g [scalar_block bb vs prog] [] (collector_start raw) = Inr c" "validBBs c = [bb]"
    "scalar_program (collected c) prog"
proof
  let ?m = "fold (\<lambda>v. sm_insert v []) vs [] :: (ptr, ptr list) smap"
  let ?c = "(collector_start raw)\<lparr>aliasInfoMap := ?m, validBBs := [bb]\<rparr>"
  have allocas: "parseAllocaInstructions (scalar_block bb vs prog) (collector_start raw) = (collector_start raw)\<lparr>aliasInfoMap := ?m\<rparr>"
  proof -
    have start: "aliasInfoMap (collector_start raw) = []" by (simp add: collector_start_def)
    have ret: "fold parse_alloca [\<lparr>i_addr = nullptr, i_parent = bb, i_kind = ReturnInst\<rparr>] c = c" for c
      by (simp add: parse_alloca_def)
    show ?thesis
      unfolding parseAllocaInstructions_def scalar_block_def basicBlock.simps
      by (simp only: fold_append o_apply parse_alloca_scalars parse_alloca_lower start ret)
  qed
  show "parseFunction g [scalar_block bb vs prog] [] (collector_start raw) = Inr ?c"
  proof -
    have start: "validBBs (collector_start raw) = []" "bb_addr (scalar_block bb vs prog) = bb"
      by (simp_all add: collector_start_def scalar_block_def)
    show ?thesis
      unfolding parseFunction_def list.case allocas collectLoopInfo_def efold.simps ebind_simps push_valid_def start
      by (simp add: start(1) del: fold.simps)
  qed
  show "validBBs ?c = [bb]" by simp
  have empty: "sm_inv ([] :: (ptr, ptr list) smap)" "\<forall>(k, l) \<in> set ([] :: (ptr, ptr list) smap). l = []" by simp_all
  have m: "\<forall>(k, l) \<in> set ?m. l = []" by (rule insert_all_empty(2)[OF empty])
  have "fst ` set ?m = fst ` set ([] :: (ptr, ptr list) smap) \<union> set vs" by (rule insert_all_empty(3)[OF empty])
  then have keys: "fst ` set ?m = set vs" by (simp only: list.set(1) image_empty Un_empty_left)
  have "scalar_variable (collected ?c) v" if "v \<in> set vs" for v
    using allocated_self[OF m, of v] that keys
    by (simp add: scalar_variable_def getAllocatedReg_def isArray_def collector_start_def collectInfo.defs)
  moreover have "a_dest A \<in> set vs" "a_left A \<in> set vs" "a_right A \<in> set vs" "parallel_op (a_op A)"
    "a_load1 A \<noteq> nullptr" "a_load2 A \<noteq> nullptr" if "A \<in> set prog" for A
    using assms that unfolding scalar_source_def program_variables_def by blast+
  moreover have "combinedIterators (collected ?c) = []" "\<not> isLoopBody (collected ?c) p" "\<not> isArray (collected ?c) p" for p
    by (simp_all add: isArray_def isLoopBody_def collector_start_def collectInfo.defs)
  ultimately have "scalar_assignment (collected ?c) A" if "A \<in> set prog" for A
    using that by (simp add: scalar_assignment_def)
  then show "scalar_program (collected ?c) prog" using assms by (simp add: scalar_program_def scalar_source_def list_all_iff)
qed

lemma detect_scalar_block:
  "detectDependencies raw info [bb_insts (scalar_block bb vs prog)] = detectDependencies raw info [concat (map lower prog)]"
proof -
  have skip: "efold detect_step (map (\<lambda>v. \<lparr>i_addr = v, i_parent = bb, i_kind = AllocaInst OtherType\<rparr>) vs) d = Inr d" for d
    by (induction vs) (simp_all add: detect_step_def)
  have ret: "efold detect_step [\<lparr>i_addr = nullptr, i_parent = bb, i_kind = ReturnInst\<rparr>] d = Inr d" for d
    by (simp add: detect_step_def)
  show ?thesis
    unfolding detectDependencies_def scalar_block_def basicBlock.simps
    by (simp only: concat.simps append_Nil2 efold_append skip ebind_simps ret)
       (cases "efold detect_step (concat (map lower prog)) (detector_start raw info)"; simp add: detect_step_def)
qed

lemma run_scalar_block:
  "run_phases parsed raw_d raw_b info [bb_insts (scalar_block bb vs prog)] P =
   run_phases parsed raw_d raw_b info [concat (map lower prog)] P"
  by (simp only: run_phases_def detect_scalar_block)

section \<open>Properties\<close>

text \<open>
  C1: the whole pass, from the LLVM function to the hardware. The function is the first of its module, and has
  one block with scalar variables and at least one assignment (and at most \<open>2 ^ 27\<close>), whose
  operations are conjunctions and (exclusive) disjunctions (a file with a sum does not elaborate), and the
  assignments are linear (\<open>linear\<close>): the operands of each are different values, and the second one
  has not been an operand before. The configuration file is written in sections and settings, has a word length
  and an optimisation, and asks for ASAP. Then the pass ends normally, with a row of its own for every value.
  Whatever is in a memory with four cells for each assignment, more than what is printed, after the reset and a
  pulse of \<open>GO\<close> the architecture that is printed raises \<open>DONE\<close>, and then the cell of
  every assigned variable holds the byte that the function computes from the cells of its variables. Code that
  is not linear may lose operations, as \<open>c = a & b; d = a | b\<close> does.
\<close>

theorem runOctantisPass_hardware:
  assumes "scalar_source vs prog" "Synthesis.linear {} (resolve id prog)" "prog \<noteq> []"
    and "\<forall>A \<in> set prog. printed_op (a_op A)" "length prog \<le> 2 ^ 27"
    and "list_all2 written_as items ls" "p_parsedData P = []"
    and "map_of (settings '''' items) (''MemoryType'', ''WordLength'') = Some w" "stoi w = Inr n"
    and "map_of (settings '''' items) (''SynthesisProcess'', ''SchedulingAlgorithm'') = Some ''ASAP''"
    and "map_of (settings '''' items) (''SynthesisProcess'', ''AdoptedOptimizations'') = Some target"
  shows "\<exists>out vhdl P' R.
    runOctantisPass (Some (concat (map (\<lambda>l. l @ [newline]) ls))) g raw_c raw_d raw_b [scalar_block bb vs prog] [] P =
      Inr (out, vhdl, P') \<and>
    (\<forall>v \<in> program_values prog. names_of (out_binder out) v = [R v]) \<and> inj_on (\<lambda>v. cell (R v)) (program_values prog) \<and>
    (\<forall>st. after_reset st \<and> 4 * length prog \<le> length (hw_mem st) \<longrightarrow>
       (\<exists>st'. clock_periods (compInst (v_arch vhdl)) (pulse (run_length out)) st = Some st' \<and> hw_active st' DONE \<and>
          (\<forall>v \<in> a_dest ` set prog.
             hw_mem st' ! cell (R (last_value id prog v)) = exec prog (\<lambda>v. hw_mem st ! cell (R v)) v)))"
proof -
  obtain c where c: "parseFunction g [scalar_block bb vs prog] [] (collector_start raw_c) = Inr c" "validBBs c = [bb]"
    "scalar_program (collected c) prog" by (rule collected_scalars[OF assms(1)])
  have blocks: "schedulable_blocks [scalar_block bb vs prog] (validBBs c) = Inr [bb_insts (scalar_block bb vs prog)]"
    by (simp add: c(2) schedulable_blocks_def find_block_def) (simp add: scalar_block_def)
  obtain parsed where parsed: "ParseConfigFile (Some (concat (map (\<lambda>l. l @ [newline]) ls))) (p_parsedData P) = Inr parsed"
    using written_configuration[OF assms(6-11)] by blast
  show ?thesis
    using runOnFunction_hardware[OF c(3) assms(2-11), where raw_d = raw_d and raw_b = raw_b]
    unfolding runOctantisPass_def runOnFunction_def parsed ebind_simps c(1) blocks run_scalar_block by fastforce
qed

theorem runOctantisPass_hardware_witness:
  "\<exists>out vhdl P' (R :: ptr \<Rightarrow> ptr) st'.
     runOctantisPass (Some (concat (map (\<lambda>l. l @ [newline]) shipped_lines))) sample_garbage sample_collector blank_detector
       (sample_b ''and'' 0 4) [scalar_block 8 [100, 104, 108, 112] sample_program] []
       \<lparr>p_parsedData = [], p_instructionTable = empty_IT\<rparr> = Inr (out, vhdl, P') \<and>
     clock_periods (compInst (v_arch vhdl)) (pulse (run_length out)) (and_start\<lparr>hw_mem := replicate 8 5\<rparr>) = Some st' \<and>
     hw_active st' DONE \<and>
     hw_mem st' ! cell (R 220) =
       ((replicate 8 5 ! cell (R 100)) AND (replicate 8 5 ! cell (R 104))) XOR (replicate 8 5 ! cell (R 112))"
proof -
  have src: "scalar_source [100, 104, 108, 112] sample_program"
    by (simp add: scalar_source_def sample_program_def program_variables_def parallel_op_def nullptr_def)
  have st: "after_reset (and_start\<lparr>hw_mem := replicate 8 5\<rparr>)"
    "4 * length sample_program \<le> length (hw_mem (and_start\<lparr>hw_mem := replicate 8 5\<rparr>))"
    by (simp_all add: after_reset_def and_start_def sample_program_def)
  let ?P = "\<lparr>p_parsedData = [], p_instructionTable = empty_IT\<rparr>"
  have fresh: "p_parsedData ?P = []" by simp
  from runOctantisPass_hardware[OF src sample_program_facts(2,3) sample_program_printed shipped_items_written fresh shipped_settings,
      where g = sample_garbage and raw_c = sample_collector and raw_d = blank_detector and raw_b = "sample_b ''and'' 0 4" and bb = 8]
  obtain out vhdl P' R where o:
    "runOctantisPass (Some (concat (map (\<lambda>l. l @ [newline]) shipped_lines))) sample_garbage sample_collector blank_detector
       (sample_b ''and'' 0 4) [scalar_block 8 [100, 104, 108, 112] sample_program] [] ?P = Inr (out, vhdl, P')"
    "\<forall>st. after_reset st \<and> 4 * length sample_program \<le> length (hw_mem st) \<longrightarrow>
       (\<exists>st'. clock_periods (compInst (v_arch vhdl)) (pulse (run_length out)) st = Some st' \<and> hw_active st' DONE \<and>
          (\<forall>v \<in> a_dest ` set sample_program.
             hw_mem st' ! cell (R (last_value id sample_program v)) = exec sample_program (\<lambda>v. hw_mem st ! cell (R v)) v))"
    by blast
  from o(2) st obtain st' where r: "clock_periods (compInst (v_arch vhdl)) (pulse (run_length out)) (and_start\<lparr>hw_mem := replicate 8 5\<rparr>) = Some st'"
    "hw_active st' DONE" "\<forall>v \<in> a_dest ` set sample_program. hw_mem st' ! cell (R (last_value id sample_program v)) =
       exec sample_program (\<lambda>v. replicate 8 5 ! cell (R v)) v"
    by fastforce
  have "100 \<in> a_dest ` set sample_program" "last_value id sample_program 100 = 220"
    by (simp_all add: sample_program_def)
  then have "hw_mem st' ! cell (R 220) = exec sample_program (\<lambda>v. replicate 8 5 ! cell (R v)) 100" using r(3) by metis
  also have "\<dots> = ((replicate 8 5 ! cell (R 100)) AND (replicate 8 5 ! cell (R 104))) XOR (replicate 8 5 ! cell (R 112))"
    by (simp add: sample_program_def)
  finally show ?thesis using o(1) r(1,2) by blast
qed

end
