(* ===== verification/Matrix_Loops.thy ===== *)
theory Matrix_Loops
  imports Array_Loops
begin

text \<open>
  Two nested loops over a matrix: the information that the walk collects of an access \<open>a[i][j]\<close>, and the
  rows that the binder takes for it. A matrix \<open>int a[R][C]\<close> has \<open>R\<close> arrays of \<open>C\<close> elements; the code takes
  \<open>R\<close> as the number of columns, so that the rows are the right ones for square matrices only.
\<close>

section \<open>Tables with two entries\<close>

definition two :: "ptr \<Rightarrow> 'v \<Rightarrow> ptr \<Rightarrow> 'v \<Rightarrow> (ptr, 'v) smap" where
  "two i x j y = (if i < j then [(i, x), (j, y)] else [(j, y), (i, x)])"

lemma two_ops:
  "i \<noteq> j \<Longrightarrow> sm_insert j y [(i, x)] = two i x j y"
  "i \<noteq> j \<Longrightarrow> sm_find (two i x j y) k = (if k = i then Some x else if k = j then Some y else None)"
  "sm_modify k f (two i x j y) = two i (if i = k then f x else x) j (if j = k then f y else y)"
  "i \<noteq> j \<Longrightarrow> sm_inv (two i x j y)"
  by (auto simp: two_def sm_modify_def)

lemma two_map:
  "map (\<lambda>(reg, alias). (reg, if alias = p then q else alias)) (two i x j y) =
     two i (if x = p then q else x) j (if y = p then q else y)"
  by (simp add: two_def)

lemma two_fold:
  "x = p \<Longrightarrow> y \<noteq> p \<Longrightarrow> fold (\<lambda>(reg, alias) c. if alias = p then F reg c else c) (two i x j y) c = F i c"
  "x \<noteq> p \<Longrightarrow> y = p \<Longrightarrow> fold (\<lambda>(reg, alias) c. if alias = p then F reg c else c) (two i x j y) c = F j c"
  by (simp_all add: two_def)

lemma two_loop_body:
  "body \<notin> set (loopBody x) \<Longrightarrow> body \<in> set (loopBody y) \<Longrightarrow> find_loop_body (two i x j y) body = Some j"
  by (simp add: two_def)

section \<open>The code of a loop nest\<close>

text \<open>
  The blocks of \<open>for (i = ...) for (j = ...) ... a[i][j] ...\<close>: the body of the outer loop is the preheader
  of the inner one, and the outer one ends where the inner one is left.
\<close>

record matrix_nest =
  mx_outer :: counted_loop
  mx_inner :: counted_loop
  mx_array :: ptr
  mx_rows :: int
  mx_cols :: int
  mx_iload :: ptr
  mx_isext :: ptr
  mx_row :: ptr
  mx_jload :: ptr
  mx_jsext :: ptr
  mx_gep :: ptr
  mx_value :: ptr

definition matrix_entry :: "matrix_nest \<Rightarrow> basicBlock" where
  "matrix_entry M =
     \<lparr>bb_addr = cl_preheader (mx_outer M),
      bb_insts =
        [\<lparr>i_addr = cl_counter (mx_outer M), i_parent = cl_preheader (mx_outer M), i_kind = AllocaInst OtherType\<rparr>,
         \<lparr>i_addr = cl_counter (mx_inner M), i_parent = cl_preheader (mx_outer M), i_kind = AllocaInst OtherType\<rparr>,
         \<lparr>i_addr = mx_array M, i_parent = cl_preheader (mx_outer M),
           i_kind = AllocaInst (ArrayType (mx_rows M) (ArrayType (mx_cols M) OtherType))\<rparr>]
        @ start_insts (mx_outer M),
      bb_single_pred = nullptr\<rparr>"

definition between_block :: "matrix_nest \<Rightarrow> basicBlock" where
  "between_block M =
     \<lparr>bb_addr = cl_preheader (mx_inner M), bb_insts = start_insts (mx_inner M), bb_single_pred = cl_header (mx_outer M)\<rparr>"

definition matrix_body :: "matrix_nest \<Rightarrow> basicBlock" where
  "matrix_body M =
     \<lparr>bb_addr = cl_body (mx_inner M),
      bb_insts =
        [\<lparr>i_addr = mx_iload M, i_parent = cl_body (mx_inner M), i_kind = LoadInst (register (cl_counter (mx_outer M)))\<rparr>,
         \<lparr>i_addr = mx_isext M, i_parent = cl_body (mx_inner M), i_kind = SExtInst (register (mx_iload M))\<rparr>,
         \<lparr>i_addr = mx_row M, i_parent = cl_body (mx_inner M),
           i_kind = GetElementPtrInst [register (mx_array M), \<lparr>v_addr = nullptr, v_const = Some 0\<rparr>, register (mx_isext M)]\<rparr>,
         \<lparr>i_addr = mx_jload M, i_parent = cl_body (mx_inner M), i_kind = LoadInst (register (cl_counter (mx_inner M)))\<rparr>,
         \<lparr>i_addr = mx_jsext M, i_parent = cl_body (mx_inner M), i_kind = SExtInst (register (mx_jload M))\<rparr>,
         \<lparr>i_addr = mx_gep M, i_parent = cl_body (mx_inner M),
           i_kind = GetElementPtrInst [register (mx_row M), \<lparr>v_addr = nullptr, v_const = Some 0\<rparr>, register (mx_jsext M)]\<rparr>,
         \<lparr>i_addr = mx_value M, i_parent = cl_body (mx_inner M), i_kind = LoadInst (register (mx_gep M))\<rparr>,
         \<lparr>i_addr = nullptr, i_parent = cl_body (mx_inner M), i_kind = BranchInst [register (cl_latch (mx_inner M))]\<rparr>],
      bb_single_pred = cl_header (mx_inner M)\<rparr>"

definition end_block :: "matrix_nest \<Rightarrow> basicBlock" where
  "end_block M =
     \<lparr>bb_addr = cl_exit (mx_inner M),
      bb_insts = [\<lparr>i_addr = nullptr, i_parent = cl_exit (mx_inner M), i_kind = BranchInst [register (cl_latch (mx_outer M))]\<rparr>],
      bb_single_pred = cl_header (mx_inner M)\<rparr>"

definition return_block :: "matrix_nest \<Rightarrow> basicBlock" where
  "return_block M =
     \<lparr>bb_addr = cl_exit (mx_outer M), bb_insts = [\<lparr>i_addr = nullptr, i_parent = cl_exit (mx_outer M), i_kind = ReturnInst\<rparr>],
      bb_single_pred = cl_header (mx_outer M)\<rparr>"

definition matrix_blocks :: "matrix_nest \<Rightarrow> basicBlock list" where
  "matrix_blocks M =
     [matrix_entry M, header_block (mx_outer M), between_block M, header_block (mx_inner M), matrix_body M,
      latch_block (mx_inner M), end_block M, latch_block (mx_outer M), return_block M]"

definition nested_loop :: "counted_loop \<Rightarrow> counted_loop \<Rightarrow> llvmLoop" where
  "nested_loop L L' = (llvm_loop L)\<lparr>l_depth := 2, l_parent := cl_addr L'\<rparr>"

definition matrix_loops :: "matrix_nest \<Rightarrow> llvmLoop list" where
  "matrix_loops M = [llvm_loop (mx_outer M), nested_loop (mx_inner M) (mx_outer M)]"

definition matrix_distinct :: "matrix_nest \<Rightarrow> bool" where
  "matrix_distinct M \<longleftrightarrow>
     distinct [cl_preheader (mx_outer M), cl_header (mx_outer M), cl_preheader (mx_inner M), cl_header (mx_inner M),
               cl_body (mx_inner M), cl_latch (mx_inner M), cl_exit (mx_inner M), cl_latch (mx_outer M), cl_exit (mx_outer M)] \<and>
     cl_body (mx_outer M) = cl_preheader (mx_inner M) \<and> cl_end (mx_outer M) = cl_exit (mx_inner M) \<and>
     cl_end (mx_inner M) = cl_body (mx_inner M) \<and> cl_addr (mx_outer M) \<noteq> cl_addr (mx_inner M) \<and>
     distinct [nullptr, cl_counter (mx_outer M), cl_counter (mx_inner M), mx_array M, cl_load (mx_outer M), cl_load (mx_inner M),
               mx_iload M, mx_isext M, mx_row M, mx_jload M, mx_jsext M, mx_gep M, mx_value M]"

lemma matrix_fields [simp]:
  "bb_addr (matrix_entry M) = cl_preheader (mx_outer M)" "bb_addr (between_block M) = cl_preheader (mx_inner M)"
  "bb_addr (matrix_body M) = cl_body (mx_inner M)" "bb_addr (end_block M) = cl_exit (mx_inner M)"
  "bb_addr (return_block M) = cl_exit (mx_outer M)"
  by (simp_all add: matrix_entry_def between_block_def matrix_body_def end_block_def return_block_def)

section \<open>The loops\<close>

lemma collect_nested_loop:
  fixes g :: garbage
  assumes "loop_runs L n" "loop_blocks L blocks" "find_block blocks (cl_preheader L) = Inr PH"
    and "sm_find (initValuesMap (parseLoopPreheader PH (listed L c))) (cl_counter L) = Some (cl_init L)"
    and "sm_find (iteratorsAliasMap (parseLoopPreheader PH (listed L c))) (cl_counter L) = None"
    and "sm_find (aliasInfoMap (parseLoopPreheader PH (listed L c))) (cl_counter L) \<noteq> None"
    and "find_loop loops (cl_addr L) = Inr (nested_loop L L')"
    and "sm_find (sm_insert (cl_addr L) (cl_counter L) (loopIteratorMap (parseLoopPreheader PH (listed L c)))) (cl_addr L') = Some p"
  defines "c' \<equiv> loop_collected g L n (parseLoopPreheader PH (listed L c))"
  shows "collect_loop g blocks loops (nested_loop L L') c = Inr (c'\<lparr>LIT := pushNestedLoop (cl_counter L) p (LIT c')\<rparr>)"
proof -
  have range: "for_range 1 2 1 = Inr [1]" by (simp add: for_range_unit)
  show ?thesis
    using assms(2,3,7,8) parse_counted_loop[OF assms(1,4-6)]
    by (simp add: collect_loop_def nested_loop_def llvm_loop_def loop_blocks_def for_loop_def range push_parent_def
        listed_def loop_collected_def c'_def Let_def)
qed

definition matrix_state :: "garbage \<Rightarrow> matrix_nest \<Rightarrow> nat \<Rightarrow> nat \<Rightarrow> collector \<Rightarrow> collector" where
  "matrix_state g M n m raw =
     (collector_start raw)
       \<lparr>validBBs := [cl_preheader (mx_outer M)], arraysInfoMap := [(mx_array M, [mx_cols M, mx_rows M])],
        aliasInfoMap := [(mx_array M, [])],
        initValuesMap := two (cl_counter (mx_outer M)) (cl_init (mx_outer M)) (cl_counter (mx_inner M)) (cl_init (mx_inner M)),
        iteratorsAliasMap := two (cl_counter (mx_outer M)) (cl_load (mx_outer M)) (cl_counter (mx_inner M)) (cl_load (mx_inner M)),
        loopBodyList := [cl_body (mx_outer M), cl_end (mx_outer M), cl_body (mx_inner M), cl_end (mx_inner M)],
        loopPreheaderList := [cl_preheader (mx_outer M), cl_preheader (mx_inner M)],
        loopHeaderList := [cl_header (mx_outer M), cl_header (mx_inner M)],
        loopLatchList := [cl_latch (mx_outer M), cl_latch (mx_inner M)],
        loopIteratorMap := two (cl_addr (mx_outer M)) (cl_counter (mx_outer M)) (cl_addr (mx_inner M)) (cl_counter (mx_inner M)),
        LIT := \<lparr>nestedLoopMap = two (cl_counter (mx_outer M)) [] (cl_counter (mx_inner M)) [cl_counter (mx_outer M)],
                loopInfoMap = two (cl_counter (mx_outer M)) (loop_facts g (mx_outer M) n)
                                  (cl_counter (mx_inner M)) (loop_facts g (mx_inner M) m)\<rparr>\<rparr>"

lemma matrix_allocas:
  "parseAllocaInstructions (matrix_entry M) (collector_start raw) =
     (collector_start raw)\<lparr>arraysInfoMap := [(mx_array M, [mx_cols M, mx_rows M])],
        aliasInfoMap := sm_insert (mx_array M) [] (sm_insert (cl_counter (mx_inner M)) [] [(cl_counter (mx_outer M), [])])\<rparr>"
  by (simp add: parseAllocaInstructions_def matrix_entry_def start_insts_def parse_alloca_def collector_start_def Let_def
      del: sm_insert.simps(2))

lemma matrix_preheader:
  "parseLoopPreheader (matrix_entry M) c =
     c\<lparr>initValuesMap := sm_insert (cl_counter (mx_outer M)) (cl_init (mx_outer M)) (initValuesMap c)\<rparr>"
  by (simp add: parseLoopPreheader_def matrix_entry_def start_insts_def parse_preheader_inst_def)

lemma matrix_loops_collected:
  assumes "loop_runs (mx_outer M) n" "loop_runs (mx_inner M) m" "matrix_distinct M"
  shows "collectLoopInfo g (matrix_blocks M) (matrix_loops M)
      (push_valid (matrix_entry M) (parseAllocaInstructions (matrix_entry M) (collector_start raw))) = Inr (matrix_state g M n m raw)"
proof -
  define P Q a where "P = mx_outer M" and "Q = mx_inner M" and "a = mx_array M"
  note names = P_def[symmetric] Q_def[symmetric] a_def[symmetric]
  have runs: "loop_runs P n" "loop_runs Q m" using assms(1,2) by (simp_all add: names)
  let ?i = "cl_counter P" and ?j = "cl_counter Q"
  have ne: "?i \<noteq> ?j" "?i \<noteq> a" "?j \<noteq> a" "cl_addr P \<noteq> cl_addr Q" using assms(3) by (auto simp: matrix_distinct_def names)
  have blocks: "loop_blocks P (matrix_blocks M)" "loop_blocks Q (matrix_blocks M)"
    "find_block (matrix_blocks M) (cl_preheader P) = Inr (matrix_entry M)"
    "find_block (matrix_blocks M) (cl_preheader Q) = Inr (between_block M)"
    using assms(3) by (auto simp: loop_blocks_def find_block_def matrix_blocks_def matrix_distinct_def names)
  let ?c = "push_valid (matrix_entry M) (parseAllocaInstructions (matrix_entry M) (collector_start raw))"
  let ?A = "sm_insert a [] (sm_insert ?j [] [(?i, [])]) :: (ptr, ptr list) smap"
  have A: "sm_find ?A ?i = Some []" "sm_find ?A ?j = Some []" "sm_erase ?j (sm_erase ?i ?A) = [(a, [])]"
    using ne by (auto simp: sm_find_insert sm_erase_def)
  have c1: "parseLoopPreheader (matrix_entry M) (listed P ?c) =
      (collector_start raw)
       \<lparr>validBBs := [cl_preheader P], arraysInfoMap := [(a, [mx_cols M, mx_rows M])],
        aliasInfoMap := ?A, initValuesMap := [(?i, cl_init P)],
        loopPreheaderList := [cl_preheader P], loopHeaderList := [cl_header P], loopLatchList := [cl_latch P]\<rparr>"
    unfolding push_valid_def matrix_allocas
    by (simp add: matrix_preheader listed_def collector_start_def names del: sm_insert.simps(2))
  have first: "collect_loop g (matrix_blocks M) (matrix_loops M) (llvm_loop P) ?c =
      Inr (loop_collected g P n (parseLoopPreheader (matrix_entry M) (listed P ?c)))"
    by (rule collect_counted_loop[OF runs(1) blocks(1,3)], unfold c1)
       (simp_all add: collector_start_def A(1) del: sm_insert.simps(2))
  let ?d = "loop_collected g P n (parseLoopPreheader (matrix_entry M) (listed P ?c))"
  have d: "?d = (collector_start raw)
       \<lparr>validBBs := [cl_preheader P], arraysInfoMap := [(a, [mx_cols M, mx_rows M])],
        aliasInfoMap := sm_erase ?i ?A, initValuesMap := [(?i, cl_init P)], iteratorsAliasMap := [(?i, cl_load P)],
        loopPreheaderList := [cl_preheader P], loopHeaderList := [cl_header P], loopLatchList := [cl_latch P],
        loopBodyList := [cl_body P, cl_end P], loopIteratorMap := [(cl_addr P, ?i)],
        LIT := \<lparr>nestedLoopMap = [(?i, [])], loopInfoMap = [(?i, loop_facts g P n)]\<rparr>\<rparr>"
    unfolding c1 by (simp add: loop_collected_def collector_start_def insertNewLoopIt_def insertLoopInfo_def empty_LIT_def
        del: sm_insert.simps(2))
  have inner: "bb_insts (between_block M) = start_insts Q" by (simp add: between_block_def names)
  have e: "parseLoopPreheader (between_block M) (listed Q ?d) = (listed Q ?d)\<lparr>initValuesMap := two ?i (cl_init P) ?j (cl_init Q)\<rparr>"
    unfolding preheader_start[OF inner] d by (simp add: listed_def two_ops(1)[OF ne(1)] del: sm_insert.simps(2))
  have self: "find_loop (matrix_loops M) (cl_addr Q) = Inr (nested_loop Q P)"
    using ne(4) by (simp add: find_loop_def matrix_loops_def llvm_loop_def nested_loop_def names)
  have kept: "sm_find (sm_erase ?i ?A) ?j = Some []" using A(2) ne by (simp add: sm_find_erase)
  have second: "collect_loop g (matrix_blocks M) (matrix_loops M) (nested_loop Q P) ?d =
      Inr ((loop_collected g Q m (parseLoopPreheader (between_block M) (listed Q ?d)))
        \<lparr>LIT := pushNestedLoop ?j ?i (LIT (loop_collected g Q m (parseLoopPreheader (between_block M) (listed Q ?d))))\<rparr>)"
    by (rule collect_nested_loop[OF runs(2) blocks(2,4) _ _ _ self]; unfold e; unfold d)
       (use ne kept in \<open>simp_all add: listed_def two_ops del: sm_insert.simps(2)\<close>)
  also have "(loop_collected g Q m (parseLoopPreheader (between_block M) (listed Q ?d)))
        \<lparr>LIT := pushNestedLoop ?j ?i (LIT (loop_collected g Q m (parseLoopPreheader (between_block M) (listed Q ?d))))\<rparr> =
      matrix_state g M n m raw"
    unfolding e unfolding d using ne
    by (simp add: matrix_state_def names loop_collected_def listed_def collector_start_def insertNewLoopIt_def insertLoopInfo_def
        pushNestedLoop_def two_ops A(3)[unfolded two_ops(1)[OF ne(1)]] del: sm_insert.simps(2))
  finally show ?thesis using first by (simp add: collectLoopInfo_def matrix_loops_def names)
qed

section \<open>The access\<close>

definition single_index :: "garbage \<Rightarrow> ptr \<Rightarrow> indexInfoStruct" where
  "single_index g it = index_info g [it] 0 0"

text \<open>What is found out about \<open>a[i][j]\<close>: the geometry is that of the traversal by rows.\<close>

definition matrix_info :: "matrix_nest \<Rightarrow> nat \<Rightarrow> nat \<Rightarrow> pointerInfoStruct \<Rightarrow> bool" where
  "matrix_info M n m info \<longleftrightarrow>
     loopIterator info = cl_counter (mx_inner M) \<and> arrayCols info = mx_rows M \<and> arrayRows info = mx_cols M \<and>
     spacingX info = cl_inc (mx_inner M) \<and> spacingY info = cl_inc (mx_outer M) \<and>
     offsetX info = cl_init (mx_inner M) \<and> offsetY info = cl_init (mx_outer M) \<and>
     stopX info = cl_init (mx_inner M) + cl_inc (mx_inner M) * (int m - 1) \<and>
     stopY info = cl_init (mx_outer M) + cl_inc (mx_outer M) * (int n - 1) \<and>
     apmType (pointerAccessPattern info) = rowMajor \<and> initZerosM (pointerAccessPattern info) = 0 \<and>
     finalZerosM (pointerAccessPattern info) = 0"

lemma matrix_patterns:
  assumes "i \<noteq> j" "iteratorIncrement L1 \<noteq> 0" "iteratorIncrement L2 \<noteq> 0"
    and "getLoopInfo lit i = Inr L1" "getLoopInfo lit j = Inr L2"
  obtains ap apc where "access_patterns g lit [i, j] [single_index g i, single_index g j] = Inr (ap, apc)"
    "apmType ap = rowMajor" "initZerosM ap = 0" "finalZerosM ap = 0"
    "ap_at (g_heap g) apc 0 0 = Inr 0" "ap_at (g_heap g) apc 1 0 = Inr 0"
proof -
  let ?ap = "(g_pattern g)\<lparr>incrementVector := [iteratorIncrement L1, 0, 0, iteratorIncrement L2], rowsM := 2, colsM := 2\<rparr>"
  let ?apc = "(g_pattern g)\<lparr>incrementVector := [0, 0], rowsM := 2, colsM := 1\<rparr>"
  let ?ap' = "?ap\<lparr>apmType := rowMajor, initZerosM := 0, finalZerosM := 0\<rparr>"
  have detect: "detectAccessPatternType (g_heap g) ?ap = Inr ?ap'"
    by (rule detect_row_major[where a = "iteratorIncrement L1" and d = "iteratorIncrement L2"]) (use assms(2,3) in simp_all)
  have zero: "detectZeroCols (g_heap g) ?ap' = Inr ?ap'"
    using assms(2,3) by (simp add: detectZeroCols_def zero_col_def ap_at_def vec_at_def upto.simps)
  have "access_patterns g lit [i, j] [single_index g i, single_index g j] = Inr (?ap', ?apc)"
    using assms(1,4,5) detect zero
    by (simp add: access_patterns_def push_index_def push_column_def single_index_def pushIncrement_def
        ap_setRows_def ap_setCols_def Let_def)
  then show ?thesis by (rule that) (simp_all add: ap_at_def vec_at_def)
qed

lemma matrix_pointer:
  assumes "PIT c = [(p, tmp)]" "firstIdxInfo tmp = single_index g i" "secondIdxInfo tmp = single_index g j" "i \<noteq> j"
    and "find_loop_body (loopInfoMap (LIT c)) (i_parent I) = Some j" "sm_find (nestedLoopMap (LIT c)) j = Some [i]"
    and "sm_find (loopInfoMap (LIT c)) i = Some (loop_facts g (mx_outer M) n)"
    and "sm_find (loopInfoMap (LIT c)) j = Some (loop_facts g (mx_inner M) m)"
    and "getAllocatedReg (collected c) p = a" "sm_find (arraysInfoMap c) a = Some [mx_cols M, mx_rows M]"
    and "1 < mx_cols M" "cl_inc (mx_outer M) \<noteq> 0" "cl_inc (mx_inner M) \<noteq> 0" "j = cl_counter (mx_inner M)"
  obtains info where "setPointerInfo g p I c = Inr (c\<lparr>PIT := [(p, info)], iterationList := rev (iterationList c @ [int n, int m])\<rparr>)"
    "matrix_info M n m info"
proof -
  have its: "getIterationVector (LIT c) j = [i, j]" using assms(6) by (simp add: getIterationVector_def)
  have L: "getLoopInfo (LIT c) i = Inr (loop_facts g (mx_outer M) n)" "getLoopInfo (LIT c) j = Inr (loop_facts g (mx_inner M) m)"
    using assms(7,8) by (simp_all add: getLoopInfo_def)
  have counts: "iteration_counts (LIT c) [i, j] = Inr [int n, int m]" using L by (simp add: iteration_counts_def)
  obtain ap apc where ap: "access_patterns g (LIT c) [i, j] [single_index g i, single_index g j] = Inr (ap, apc)"
    "apmType ap = rowMajor" "initZerosM ap = 0" "finalZerosM ap = 0"
    "ap_at (g_heap g) apc 0 0 = Inr 0" "ap_at (g_heap g) apc 1 0 = Inr 0"
    by (rule matrix_patterns[OF assms(4) _ _ L]) (use assms(12,13) in simp_all)
  let ?info = "tmp\<lparr>loopIterator := j, pointerAccessPattern := ap, pointerAccessPatternConstant := apc,
      arrayCols := mx_rows M, arrayRows := mx_cols M\<rparr>"
  have bounds: "isFinalValueConstant (loop_facts g X k)" "isInitValueConstant (loop_facts g X k)" for X k
    by (simp_all add: loop_facts_def)
  obtain info where info: "matrix_geometry (LIT c) (g_heap g) apc (single_index g i) (single_index g j) ?info = Inr info"
    "matrix_info M n m info"
    using L ap bounds assms(14)
    by (simp add: matrix_geometry_def matrix_single_def single_index_def set_stops_def matrix_info_def)
  show ?thesis
  proof (rule that[OF _ info(2)])
    show "setPointerInfo g p I c = Inr (c\<lparr>PIT := [(p, info)], iterationList := rev (iterationList c @ [int n, int m])\<rparr>)"
      using assms(1-3,5,6,9-11) its counts ap(1) info(1)
      by (simp add: setPointerInfo_def getPointerInfo_def getLoopIteratorFromLoopBody_def getNestedLoops_def list_front_def
          list_back_def modifyPointerInfo_def sm_modify_def Let_def)
  qed
qed

section \<open>The walk\<close>

text \<open>A counter is read and extended; each of the two indices is entered.\<close>

lemma read_counter:
  assumes "iteratorsAliasMap c = two i x j y" "combinedIteratorsMap c = []" "i \<noteq> j"
  shows "y \<noteq> l \<Longrightarrow> efold (parse_body_inst g) [\<lparr>i_addr = l, i_parent = b, i_kind = LoadInst (register i)\<rparr>,
      \<lparr>i_addr = s, i_parent = b, i_kind = SExtInst (register l)\<rparr>] c = Inr (c\<lparr>iteratorsAliasMap := two i s j y\<rparr>)"
    "x \<noteq> l \<Longrightarrow> efold (parse_body_inst g) [\<lparr>i_addr = l, i_parent = b, i_kind = LoadInst (register j)\<rparr>,
      \<lparr>i_addr = s, i_parent = b, i_kind = SExtInst (register l)\<rparr>] c = Inr (c\<lparr>iteratorsAliasMap := two i x j s\<rparr>)"
  using assms by (simp_all add: parse_body_inst_def parse_body_load_def parse_sext_def two_ops two_map)

lemma read_single_index:
  assumes "iteratorsAliasMap c = two i x j y" "combinedIteratorsMap c = []" "x \<noteq> y"
  shows "read_index g dims (register x) c = set_index dims (single_index g i) c"
    "read_index g dims (register y) c = set_index dims (single_index g j) c"
  using assms by (simp_all add: read_index_def two_fold single_index_def)

lemma first_gep:
  assumes "iteratorsAliasMap c = two i x j y" "combinedIteratorsMap c = []" "x \<noteq> y" "\<not> ptrValid c"
    and "arraysInfoMap c = [(a, [r, k])]" "r \<noteq> 1" "a \<noteq> p" "aliasInfoMap c = [(a, [])]"
  shows "parse_body_inst g \<lparr>i_addr = p, i_parent = b,
      i_kind = GetElementPtrInst [register a, \<lparr>v_addr = nullptr, v_const = Some 0\<rparr>, register x]\<rparr> c =
    Inr (c\<lparr>tmpPointerStruct := (tmpPointerStruct c)\<lparr>firstIdxInfo := single_index g i\<rparr>,
           arraysInfoMap := two a [r, k] p [], aliasInfoMap := [(a, [p])]\<rparr>)"
  using assms read_single_index(1)[OF assms(1-3)]
  by (simp add: parse_body_inst_def parse_gep_def list_at_def set_index_def push_alias_def two_ops sm_modify_def Let_def
      del: sm_insert.simps(2))

lemma second_gep:
  assumes "iteratorsAliasMap c = two i x j y" "combinedIteratorsMap c = []" "x \<noteq> y"
    and "arraysInfoMap c = two a [r, k] p []" "a \<noteq> p" "aliasInfoMap c = [(a, [p])]" "g_front g = Inr z" "z \<noteq> 1" "PIT c = []"
  shows "parse_body_inst g \<lparr>i_addr = q, i_parent = b,
      i_kind = GetElementPtrInst [register p, \<lparr>v_addr = nullptr, v_const = Some 0\<rparr>, register y]\<rparr> c =
    setPointerInfo g q \<lparr>i_addr = q, i_parent = b,
        i_kind = GetElementPtrInst [register p, \<lparr>v_addr = nullptr, v_const = Some 0\<rparr>, register y]\<rparr>
      (c\<lparr>tmpPointerStruct := (tmpPointerStruct c)\<lparr>secondIdxInfo := single_index g j\<rparr>, ptrValid := False,
         PIT := [(q, (tmpPointerStruct c)\<lparr>secondIdxInfo := single_index g j\<rparr>)], aliasInfoMap := [(a, [p, q])]\<rparr>)"
  using assms read_single_index(2)[OF assms(1-3)]
  by (simp add: parse_body_inst_def parse_gep_def list_at_def set_index_def push_alias_def insert_pointer_def insertPointerInfo_def
      two_ops sm_modify_def getAllocatedReg_def collectInfo.defs Let_def)

lemma matrix_state_fields:
  "combinedIteratorsMap (matrix_state g M n m raw) = []" "\<not> ptrValid (matrix_state g M n m raw)"
  "arraysInfoMap (matrix_state g M n m raw) = [(mx_array M, [mx_cols M, mx_rows M])]"
  "aliasInfoMap (matrix_state g M n m raw) = [(mx_array M, [])]" "PIT (matrix_state g M n m raw) = []"
  "iteratorsAliasMap (matrix_state g M n m raw) =
     two (cl_counter (mx_outer M)) (cl_load (mx_outer M)) (cl_counter (mx_inner M)) (cl_load (mx_inner M))"
  "loopBodyList (matrix_state g M n m raw) = [cl_body (mx_outer M), cl_end (mx_outer M), cl_body (mx_inner M), cl_end (mx_inner M)]"
  "loopHeaderList (matrix_state g M n m raw) = [cl_header (mx_outer M), cl_header (mx_inner M)]"
  "loopLatchList (matrix_state g M n m raw) = [cl_latch (mx_outer M), cl_latch (mx_inner M)]"
  "validBBs (matrix_state g M n m raw) = [cl_preheader (mx_outer M)]"
  "initValuesMap (matrix_state g M n m raw) =
     two (cl_counter (mx_outer M)) (cl_init (mx_outer M)) (cl_counter (mx_inner M)) (cl_init (mx_inner M))"
  "nestedLoopMap (LIT (matrix_state g M n m raw)) = two (cl_counter (mx_outer M)) [] (cl_counter (mx_inner M)) [cl_counter (mx_outer M)]"
  "loopInfoMap (LIT (matrix_state g M n m raw)) =
     two (cl_counter (mx_outer M)) (loop_facts g (mx_outer M) n) (cl_counter (mx_inner M)) (loop_facts g (mx_inner M) m)"
  by (simp_all add: matrix_state_def collector_start_def)

lemma matrix_body_walk:
  fixes raw :: collector and n m :: nat and vs :: "ptr list"
  assumes "matrix_distinct M" "1 < mx_cols M" "cl_inc (mx_outer M) \<noteq> 0" "cl_inc (mx_inner M) \<noteq> 0" "g_front g = Inr z" "z \<noteq> 1"
  defines "c \<equiv> (matrix_state g M n m raw)\<lparr>validBBs := vs\<rparr>"
  obtains info c' where "parseLoopBody g (matrix_body M) c = Inr c'" "matrix_info M n m info"
    "PIT c' = [(mx_gep M, info)]" "LIT c' = LIT c" "validBBs c' = vs" "aliasInfoMap c' = [(mx_array M, [mx_row M, mx_gep M])]"
    "loopHeaderList c' = loopHeaderList c" "loopLatchList c' = loopLatchList c" "loopBodyList c' = loopBodyList c"
    "sm_find (arraysInfoMap c') (mx_array M) = Some [mx_cols M, mx_rows M]"
proof -
  let ?i = "cl_counter (mx_outer M)" and ?j = "cl_counter (mx_inner M)" and ?a = "mx_array M" and ?b = "cl_body (mx_inner M)"
  have d: "?i \<noteq> ?j" "?a \<noteq> mx_row M" "cl_load (mx_inner M) \<noteq> mx_iload M" "mx_isext M \<noteq> cl_load (mx_inner M)"
    "mx_isext M \<noteq> mx_jload M" "mx_isext M \<noteq> mx_jsext M" "mx_gep M \<noteq> ?a" "mx_gep M \<noteq> ?i" "mx_gep M \<noteq> ?j"
    "?b \<noteq> cl_body (mx_outer M)" "?b \<noteq> cl_end (mx_outer M)"
    using assms(1) by (auto simp: matrix_distinct_def)
  note f = matrix_state_fields[of g M n m raw]
  let ?zero = "\<lparr>v_addr = nullptr, v_const = Some 0\<rparr>"
  let ?read_i = "[\<lparr>i_addr = mx_iload M, i_parent = ?b, i_kind = LoadInst (register ?i)\<rparr>,
         \<lparr>i_addr = mx_isext M, i_parent = ?b, i_kind = SExtInst (register (mx_iload M))\<rparr>]"
  let ?gep1 = "\<lparr>i_addr = mx_row M, i_parent = ?b, i_kind = GetElementPtrInst [register ?a, ?zero, register (mx_isext M)]\<rparr>"
  let ?read_j = "[\<lparr>i_addr = mx_jload M, i_parent = ?b, i_kind = LoadInst (register ?j)\<rparr>,
         \<lparr>i_addr = mx_jsext M, i_parent = ?b, i_kind = SExtInst (register (mx_jload M))\<rparr>]"
  let ?gep2 = "\<lparr>i_addr = mx_gep M, i_parent = ?b, i_kind = GetElementPtrInst [register (mx_row M), ?zero, register (mx_jsext M)]\<rparr>"
  let ?rest = "[\<lparr>i_addr = mx_value M, i_parent = ?b, i_kind = LoadInst (register (mx_gep M))\<rparr>,
         \<lparr>i_addr = nullptr, i_parent = ?b, i_kind = BranchInst [register (cl_latch (mx_inner M))]\<rparr>]"
  have insts: "bb_insts (matrix_body M) = ?read_i @ [?gep1] @ ?read_j @ [?gep2] @ ?rest" by (simp add: matrix_body_def)
  let ?c1 = "c\<lparr>iteratorsAliasMap := two ?i (mx_isext M) ?j (cl_load (mx_inner M))\<rparr>"
  let ?c2 = "?c1\<lparr>tmpPointerStruct := (tmpPointerStruct ?c1)\<lparr>firstIdxInfo := single_index g ?i\<rparr>,
      arraysInfoMap := two ?a [mx_cols M, mx_rows M] (mx_row M) [], aliasInfoMap := [(?a, [mx_row M])]\<rparr>"
  let ?c3 = "?c2\<lparr>iteratorsAliasMap := two ?i (mx_isext M) ?j (mx_jsext M)\<rparr>"
  let ?tmp = "(tmpPointerStruct ?c3)\<lparr>secondIdxInfo := single_index g ?j\<rparr>"
  let ?c4 = "?c3\<lparr>tmpPointerStruct := ?tmp, ptrValid := False, PIT := [(mx_gep M, ?tmp)], aliasInfoMap := [(?a, [mx_row M, mx_gep M])]\<rparr>"
  have one: "efold (parse_body_inst g) ?read_i c = Inr ?c1"
    by (rule read_counter(1)) (use d in \<open>simp_all add: c_def f\<close>)
  have two: "parse_body_inst g ?gep1 ?c1 = Inr ?c2"
    by (rule first_gep) (use d assms(2) in \<open>simp_all add: c_def f\<close>)
  have three: "efold (parse_body_inst g) ?read_j ?c2 = Inr ?c3"
    by (rule read_counter(2)) (use d in \<open>simp_all add: c_def f\<close>)
  have four: "parse_body_inst g ?gep2 ?c3 = setPointerInfo g (mx_gep M) ?gep2 ?c4"
    by (rule second_gep[OF _ _ _ _ d(2) _ assms(5,6)]) (use d in \<open>simp_all add: c_def f\<close>)
  obtain info where info: "setPointerInfo g (mx_gep M) ?gep2 ?c4 =
      Inr (?c4\<lparr>PIT := [(mx_gep M, info)], iterationList := rev (iterationList ?c4 @ [int n, int m])\<rparr>)" "matrix_info M n m info"
  proof (rule matrix_pointer[where c = ?c4 and p = "mx_gep M" and I = ?gep2 and M = M and n = n and m = m and g = g and tmp = ?tmp, OF _ _ _ d(1)])
    show "getAllocatedReg (collected ?c4) (mx_gep M) = ?a" using d by (simp add: getAllocatedReg_def collectInfo.defs)
    show "find_loop_body (loopInfoMap (LIT ?c4)) (i_parent ?gep2) = Some ?j"
      using d(10,11) by (simp add: c_def f two_loop_body)
  qed (use d assms(2-4) in \<open>simp_all add: c_def f two_ops\<close>)
  let ?c5 = "?c4\<lparr>PIT := [(mx_gep M, info)], iterationList := rev (iterationList ?c4 @ [int n, int m])\<rparr>"
  have five: "efold (parse_body_inst g) ?rest ?c5 = Inr ?c5"
    using d by (simp add: parse_body_inst_def parse_body_load_def two_ops sm_modify_def)
  have "parseLoopBody g (matrix_body M) c = Inr ?c5"
    unfolding parseLoopBody_def insts efold_append one ebind_simps efold.simps(2)[of _ ?gep1] two efold.simps(1) three
      efold.simps(2)[of _ ?gep2] four info(1) by (rule five)
  then show ?thesis by (rule that[OF _ info(2)]) (use d in \<open>simp_all add: c_def two_ops\<close>)
qed

text \<open>The whole function. The blocks are told apart by their addresses.\<close>

lemma matrix_addresses:
  assumes "matrix_distinct M"
  defines "bodies \<equiv> [cl_body (mx_outer M), cl_end (mx_outer M), cl_body (mx_inner M), cl_end (mx_inner M)]"
    and "others \<equiv> [cl_header (mx_outer M), cl_header (mx_inner M), cl_latch (mx_outer M), cl_latch (mx_inner M)]"
  shows "\<forall>p \<in> set others. p \<notin> set bodies" "cl_exit (mx_outer M) \<notin> set others" "cl_preheader (mx_inner M) = cl_body (mx_outer M)"
    "cl_exit (mx_inner M) = cl_end (mx_outer M)" "cl_end (mx_inner M) = cl_body (mx_inner M)"
  using assms by (auto simp: matrix_distinct_def)

lemma matrix_function:
  assumes "loop_runs (mx_outer M) n" "loop_runs (mx_inner M) m" "matrix_distinct M" "1 < mx_cols M" "g_front g = Inr z" "z \<noteq> 1"
  obtains info c where "parseFunction g (matrix_blocks M) (matrix_loops M) (collector_start raw) = Inr c" "matrix_info M n m info"
    "getPointerInfo (PIT c) (mx_gep M) = Inr info"
    "iteration_counts (LIT c) (getIterationVector (LIT c) (cl_counter (mx_inner M))) = Inr [int n, int m]"
    "getAllocatedReg (collected c) (mx_gep M) = mx_array M"
    "getArraySize (collected c) (mx_array M) = Inr (mx_rows M * mx_cols M)"
proof -
  have inc: "cl_inc (mx_outer M) \<noteq> 0" "cl_inc (mx_inner M) \<noteq> 0"
    using assms(1,2) count_runs(1) by (auto simp: loop_runs_def runs_for_def)
  let ?s = "matrix_state g M n m raw"
  note d = assms(3)[unfolded matrix_distinct_def]
  note f = matrix_state_fields[of g M n m raw]
  have ne: "cl_counter (mx_outer M) \<noteq> cl_counter (mx_inner M)" using d by auto
  let ?s1 = "?s\<lparr>validBBs := [cl_preheader (mx_outer M), cl_preheader (mx_inner M)]\<rparr>"
  have start: "parseLoopBody g (between_block M) ?s = Inr ?s"
    using sm_insert_present[of "initValuesMap ?s" "cl_counter (mx_inner M)"] ne
    by (simp add: parseLoopBody_def between_block_def start_insts_def parse_body_inst_def f two_ops)
  have blocks: "parse_block g (header_block (mx_outer M)) ?s = Inr ?s" "parse_block g (between_block M) ?s = Inr ?s1"
    "parse_block g (header_block (mx_inner M)) ?s1 = Inr ?s1"
    using matrix_addresses[OF assms(3)] start by (simp_all add: parse_block_def f push_valid_def)
  obtain info c where c: "parseLoopBody g (matrix_body M) ?s1 = Inr c" "matrix_info M n m info"
    "PIT c = [(mx_gep M, info)]" "LIT c = LIT ?s1" "validBBs c = [cl_preheader (mx_outer M), cl_preheader (mx_inner M)]"
    "aliasInfoMap c = [(mx_array M, [mx_row M, mx_gep M])]"
    "loopHeaderList c = loopHeaderList ?s1" "loopLatchList c = loopLatchList ?s1" "loopBodyList c = loopBodyList ?s1"
    "sm_find (arraysInfoMap c) (mx_array M) = Some [mx_cols M, mx_rows M]"
    by (rule matrix_body_walk[OF assms(3,4) inc assms(5,6)])
  have skip: "parseLoopBody g (end_block M) c' = Inr c'" "parseLoopBody g (return_block M) c' = Inr c'" for c'
    by (simp_all add: parseLoopBody_def end_block_def return_block_def parse_body_inst_def)
  let ?c = "c\<lparr>validBBs := validBBs c @ [cl_body (mx_inner M), cl_exit (mx_inner M), cl_exit (mx_outer M)]\<rparr>"
  let ?heads = "[cl_header (mx_outer M), cl_header (mx_inner M)]" and ?latches = "[cl_latch (mx_outer M), cl_latch (mx_inner M)]"
  have lists: "loopHeaderList c' = ?heads \<Longrightarrow> loopLatchList c' = ?latches \<Longrightarrow> loopBodyList c' = loopBodyList ?s \<Longrightarrow>
      parse_block g (latch_block (mx_inner M)) c' = Inr c' \<and> parse_block g (latch_block (mx_outer M)) c' = Inr c' \<and>
      parse_block g (end_block M) c' = Inr (push_valid (end_block M) c') \<and>
      parse_block g (return_block M) c' = Inr (push_valid (return_block M) c')" for c'
    using matrix_addresses[OF assms(3)] by (simp add: parse_block_def f skip)
  have body: "parse_block g (matrix_body M) ?s1 = Inr (push_valid (matrix_body M) c)"
    using c(1) by (simp add: parse_block_def f)
  have kept: "loopHeaderList c = ?heads" "loopLatchList c = ?latches" "loopBodyList c = loopBodyList ?s"
    using c(7-9) by (simp_all add: f)
  have "efold (parse_block g) [matrix_body M, latch_block (mx_inner M), end_block M, latch_block (mx_outer M), return_block M] ?s1 = Inr ?c"
    using body lists kept by (simp add: push_valid_def)
  then have "parseFunction g (matrix_blocks M) (matrix_loops M) (collector_start raw) = Inr ?c"
    unfolding parseFunction_def matrix_blocks_def list.case
    by (simp add: matrix_loops_collected[OF assms(1-3), unfolded matrix_blocks_def] blocks)
  then show ?thesis
  proof (rule that[OF _ c(2)])
    show "getPointerInfo (PIT ?c) (mx_gep M) = Inr info" by (simp add: getPointerInfo_def c(3))
    show "iteration_counts (LIT ?c) (getIterationVector (LIT ?c) (cl_counter (mx_inner M))) = Inr [int n, int m]"
      using ne by (simp add: c(4) getIterationVector_def iteration_counts_def getLoopInfo_def f two_ops)
    show "getAllocatedReg (collected ?c) (mx_gep M) = mx_array M"
      using d by (auto simp: getAllocatedReg_def collectInfo.defs c(6))
    show "getArraySize (collected ?c) (mx_array M) = Inr (mx_rows M * mx_cols M)"
      using c(10) by (simp add: getArraySize_def collectInfo.defs list_front_def list_back_def)
  qed
qed

text \<open>
  An access \<open>a[i + k][j]\<close> gets no geometry: the code asks the second index, which has none, for its operation.
\<close>

lemma first_index_pair_without_geometry:
  assumes "ap_at h apc 0 0 = Inr c0" "ap_at h apc 1 0 = Inr c1"
  shows "matrix_geometry lit h apc (index_info g [it1, it2] 0 Add_opcode) (single_index g it3) info = Inr info"
  using assms by (simp add: matrix_geometry_def single_index_def Add_opcode_def)

section \<open>The rows of an operand\<close>

text \<open>The rows of a traversal, numbered by \<open>i * R + j\<close>, and the converse: a list comes out only if all of them exist.\<close>

definition matrix_rows :: "addressList \<Rightarrow> int \<Rightarrow> int list \<Rightarrow> int list \<Rightarrow> ptr list" where
  "matrix_rows addrs r is js = concat (map (\<lambda>i. map (\<lambda>j. addrs ! nat (i * r + j)) js) is)"

lemma for_loop_counted:
  "0 < inc \<Longrightarrow> 0 < n \<Longrightarrow> for_loop lo (lo + inc * (int n - 1) + 1) inc f = efold f (map (\<lambda>k. lo + int k * inc) [0..<n])"
  by (rule ext) (simp add: for_loop_def for_range_pos for_values_counted)

lemma matrix_shape:
  assumes "matrix_info M n m info" "0 < cl_inc (mx_outer M)" "0 < cl_inc (mx_inner M)" "0 < n" "0 < m"
  shows "shapeAddressList addrs info =
    efold (\<lambda>i. efold (\<lambda>j. push_at addrs (Inr (i * mx_rows M + j))) (counter_values (mx_inner M) m)) (counter_values (mx_outer M) n) []"
  using assms
  by (simp add: shapeAddressList_def shape_plain_def matrix_info_def extractIteratorAdvancement_def for_loop_counted
      counter_values_def)

lemma matrix_shape_rows:
  assumes "\<forall>i \<in> set is. \<forall>j \<in> set js. 0 \<le> i * r + j \<and> i * r + j < int (length addrs)"
  shows "efold (\<lambda>i. efold (\<lambda>j. push_at addrs (Inr (i * r + j))) js) is [] = Inr (matrix_rows addrs r is js)"
proof -
  have "efold (\<lambda>i. efold (\<lambda>j. push_at addrs (Inr (i * r + j))) js) is [] =
      Inr ([] @ concat (map (\<lambda>i. map (\<lambda>j. addrs ! nat (i * r + j)) js) is))"
    by (rule efold_collect) (use assms in \<open>simp add: push_all\<close>)
  then show ?thesis by (simp add: matrix_rows_def)
qed

lemma push_only:
  "efold (\<lambda>j. push_at addrs (Inr (f j))) js l = Inr l' \<Longrightarrow> \<forall>j \<in> set js. f j < int (length addrs)"
  by (induction js arbitrary: l) (auto simp: push_at_def ebind_Inr_iff list_at_def split: if_splits)

lemma matrix_shape_outside:
  assumes "i \<in> set is" "j \<in> set js" "int (length addrs) \<le> i * r + j"
  shows "efold (\<lambda>i. efold (\<lambda>j. push_at addrs (Inr (i * r + j))) js) is l \<noteq> Inr l'"
  using assms(1)
proof (induction "is" arbitrary: l)
  case (Cons k ks)
  show ?case
  proof
    assume "efold (\<lambda>i. efold (\<lambda>j. push_at addrs (Inr (i * r + j))) js) (k # ks) l = Inr l'"
    then obtain u where u: "efold (\<lambda>j. push_at addrs (Inr (k * r + j))) js l = Inr u"
      "efold (\<lambda>i. efold (\<lambda>j. push_at addrs (Inr (i * r + j))) js) ks u = Inr l'" by (auto simp: ebind_Inr_iff)
    show False
    proof (cases "i = k")
      case True
      then show ?thesis using push_only[OF u(1)] assms(2,3) by fastforce
    next
      case False
      then show ?thesis using Cons.IH Cons.prems u(2) by auto
    qed
  qed
qed simp

lemma matrix_operand:
  assumes "b_InfoCollection b = collected c" "getPointerInfo (PIT c) (mx_gep M) = Inr info" "matrix_info M n m info"
    and "iteration_counts (LIT c) (getIterationVector (LIT c) (cl_counter (mx_inner M))) = Inr [int n, int m]"
  shows "operand_list arrayOperand src (mx_gep M) addrs info0 b =
    ebind (shapeAddressList addrs info) (\<lambda>l. Inr (int (length l), l, info, b))"
proof -
  have fields: "PIT (b_InfoCollection b) = PIT c" "LIT (b_InfoCollection b) = LIT c" by (simp_all add: assms(1) collectInfo.defs)
  have access: "loopIterator info = cl_counter (mx_inner M)"
    "initZerosM (pointerAccessPattern info) = 0" "finalZerosM (pointerAccessPattern info) = 0"
    using assms(3) by (simp_all add: matrix_info_def)
  show ?thesis unfolding operand_list_def operandType.case fields assms(2) ebind_simps access assms(4)
    by (simp add: expandAddressList_def access)
qed

lemma length_matrix_rows: "length (matrix_rows addrs r is js) = length is * length js"
  by (induction "is") (simp_all add: matrix_rows_def)

text \<open>Whole matrices.\<close>

lemma traversal_rows:
  assumes "1 < n" "1 < m" "length addrs = n * m"
  shows "case efold (\<lambda>i. efold (\<lambda>j. push_at addrs (Inr (i * int n + j))) (map int [0..<m])) (map int [0..<n]) [] of
      Inl e \<Rightarrow> m < n | Inr l \<Rightarrow> if n = m then l = addrs else n < m \<and> \<not> distinct l"
proof (cases "n \<le> m")
  case True
  have range: "i * n + j < n * m" if "i < n" "j < m" for i j
  proof -
    have "i * n + j < i * m + m" using True that by (intro add_le_less_mono mult_le_mono2) simp_all
    also have "\<dots> \<le> n * m" using that(1) mult_le_mono1[of "Suc i" n m] by simp
    finally show ?thesis .
  qed
  have "int i * int n + int j < int (n * m)" if "i < n" "j < m" for i j
    using range[OF that] by (metis of_nat_add of_nat_less_iff of_nat_mult)
  then have rows: "efold (\<lambda>i. efold (\<lambda>j. push_at addrs (Inr (i * int n + j))) (map int [0..<m])) (map int [0..<n]) [] =
      Inr (matrix_rows addrs (int n) (map int [0..<n]) (map int [0..<m]))"
    using assms(3) by (intro matrix_shape_rows) auto
  have l: "matrix_rows addrs (int n) (map int [0..<n]) (map int [0..<m]) =
      concat (map (\<lambda>i. map (\<lambda>j. addrs ! (i * n + j)) [0..<m]) [0..<n])"
    by (simp add: matrix_rows_def comp_def nat_add_distrib nat_mult_distrib)
  show ?thesis
  proof (cases "n = m")
    case True
    then show ?thesis using rows l concat_rows assms(3) by simp
  next
    case False
    then have less: "n < m" using \<open>n \<le> m\<close> by simp
    have "[0..<n] = 0 # 1 # [2..<n]" using assms(1) by (simp add: upt_rec numeral_2_eq_2)
    moreover have "addrs ! n \<in> set (map (\<lambda>j. addrs ! (0 * n + j)) [0..<m])" "addrs ! n \<in> set (map (\<lambda>j. addrs ! (1 * n + j)) [0..<m])"
      using less by (auto intro!: image_eqI[of _ _ n] image_eqI[of _ _ 0])
    ultimately have "\<not> distinct (concat (map (\<lambda>i. map (\<lambda>j. addrs ! (i * n + j)) [0..<m]) [0..<n]))" by auto
    then show ?thesis using rows l less False by simp
  qed
next
  case False
  then have "m < n" by simp
  then obtain k where k: "n = Suc (m + k)" by (auto simp: less_iff_Suc_add)
  then have "n * m \<le> (n - 1) * n + (m - 1)" using assms(1,2) by (cases m) (simp_all add: algebra_simps)
  then have "int (length addrs) \<le> int (n - 1) * int n + int (m - 1)"
    using assms(3) by (metis of_nat_add of_nat_le_iff of_nat_mult)
  moreover have "int (n - 1) \<in> set (map int [0..<n])" "int (m - 1) \<in> set (map int [0..<m])"
    unfolding set_map using assms(1,2) by (auto intro!: imageI simp del: of_nat_diff)
  ultimately have "efold (\<lambda>i. efold (\<lambda>j. push_at addrs (Inr (i * int n + j))) (map int [0..<m])) (map int [0..<n]) [] \<noteq> Inr l" for l
    by (intro matrix_shape_outside)
  then show ?thesis using \<open>m < n\<close> by (auto split: sum.split)
qed

section \<open>Properties\<close>


text \<open>
  C37: the rows and the columns are exchanged: of the traversals of whole matrices with two rows and two
  columns at least, only those of square matrices give every row once, and in order. When there are more
  columns two elements get the same row, and when there are more rows the binder reads behind the list.
\<close>

theorem matrix_traversal:
  assumes "loop_runs (mx_outer M) n" "loop_runs (mx_inner M) m" "matrix_distinct M" "g_front g = Inr z" "z \<noteq> 1"
    and "mx_rows M = int n" "mx_cols M = int m" "1 < n" "1 < m" "length addrs = n * m"
    and "cl_init (mx_outer M) = 0" "cl_inc (mx_outer M) = 1" "cl_init (mx_inner M) = 0" "cl_inc (mx_inner M) = 1"
  shows "\<exists>c. parseFunction g (matrix_blocks M) (matrix_loops M) (collector_start raw) = Inr c \<and>
    (\<forall>b. b_InfoCollection b = collected c \<longrightarrow>
       (case operand_list arrayOperand (mx_array M) (mx_gep M) addrs info b of
          Inl e \<Rightarrow> m < n
        | Inr (k, l, _, _) \<Rightarrow> if n = m then l = addrs else n < m \<and> \<not> distinct l))"
proof -
  let ?is = "map int [0..<n]" and ?js = "map int [0..<m]"
  have vals: "counter_values (mx_outer M) n = ?is" "counter_values (mx_inner M) m = ?js"
    using assms(11-14) by (simp_all add: counter_values_def)
  obtain info' c where c: "parseFunction g (matrix_blocks M) (matrix_loops M) (collector_start raw) = Inr c" "matrix_info M n m info'"
    "getPointerInfo (PIT c) (mx_gep M) = Inr info'"
    "iteration_counts (LIT c) (getIterationVector (LIT c) (cl_counter (mx_inner M))) = Inr [int n, int m]"
    using matrix_function[OF assms(1-3) _ assms(4,5)] assms(7,9) by (metis of_nat_1 of_nat_less_iff)
  have nm: "0 < n" "0 < m" using assms(8,9) by simp_all
  have shape: "shapeAddressList addrs info' = efold (\<lambda>i. efold (\<lambda>j. push_at addrs (Inr (i * int n + j))) ?js) ?is []"
    using matrix_shape[OF c(2) _ _ nm, of addrs] assms(6,12,14) vals by simp
  have "case shapeAddressList addrs info' of Inl e \<Rightarrow> m < n | Inr l \<Rightarrow> if n = m then l = addrs else n < m \<and> \<not> distinct l"
    unfolding shape by (rule traversal_rows[OF assms(8-10)])
  then show ?thesis using matrix_operand[OF _ c(3,2,4)] c(1)
    by (intro exI[of _ c]) (auto split: sum.splits)
qed

section \<open>Witnesses\<close>

text \<open>\<open>for (i = 0; i < 2; i++) for (j = 0; j < k; j++) ... a[i][j] ...\<close> on \<open>int a[2][k]\<close>, where \<open>k\<close> is 2 or 3.\<close>

definition sample_outer :: counted_loop where
  "sample_outer =
     \<lparr>cl_addr = 4, cl_counter = 100, cl_init = 0, cl_pred = ICMP_SLT, cl_final = 2, cl_inc = 1,
      cl_preheader = 8, cl_header = 12, cl_body = 16, cl_end = 32, cl_latch = 36, cl_exit = 40,
      cl_load = 112, cl_cmp = 116, cl_reload = 120, cl_next = 124\<rparr>"

definition sample_inner :: "int \<Rightarrow> counted_loop" where
  "sample_inner k =
     \<lparr>cl_addr = 44, cl_counter = 104, cl_init = 0, cl_pred = ICMP_SLT, cl_final = k, cl_inc = 1,
      cl_preheader = 16, cl_header = 20, cl_body = 24, cl_end = 24, cl_latch = 28, cl_exit = 32,
      cl_load = 128, cl_cmp = 132, cl_reload = 136, cl_next = 140\<rparr>"

definition sample_nest :: "int \<Rightarrow> matrix_nest" where
  "sample_nest k =
     \<lparr>mx_outer = sample_outer, mx_inner = sample_inner k, mx_array = 108, mx_rows = 2, mx_cols = k,
      mx_iload = 144, mx_isext = 148, mx_row = 152, mx_jload = 156, mx_jsext = 160, mx_gep = 164, mx_value = 168\<rparr>"

lemma sample_nest_facts:
  "loop_runs (mx_outer (sample_nest k)) 2" "loop_runs (mx_inner (sample_nest 2)) 2" "loop_runs (mx_inner (sample_nest 3)) 3"
  "matrix_distinct (sample_nest k)" "g_front sample_garbage = Inr 0"
  by (auto simp: loop_runs_def runs_for_def matrix_distinct_def sample_nest_def sample_outer_def sample_inner_def nullptr_def sample_garbage_def)

lemma sample_nest_fields:
  "mx_gep (sample_nest k) = 164" "mx_array (sample_nest k) = 108" "mx_rows (sample_nest k) = 2" "mx_cols (sample_nest k) = k"
  "cl_init (mx_outer (sample_nest k)) = 0" "cl_inc (mx_outer (sample_nest k)) = 1"
  "cl_init (mx_inner (sample_nest k)) = 0" "cl_inc (mx_inner (sample_nest k)) = 1"
  by (simp_all add: sample_nest_def sample_outer_def sample_inner_def)


theorem matrix_traversal_witness:
  "\<exists>c b l info'. parseFunction sample_garbage (matrix_blocks (sample_nest 3)) (matrix_loops (sample_nest 3))
      (collector_start sample_collector) = Inr c \<and> b_InfoCollection b = collected c \<and>
    operand_list arrayOperand 108 164 [0, 4, 8, 12, 16, 20] (sample_pis rowMajor 1 1 0 0) b = Inr (int (length l), l, info', b) \<and>
    \<not> distinct l"
proof -
  note f = sample_nest_fields[of 3]
  let ?addrs = "[0, 4, 8, 12, 16, 20] :: ptr list"
  have "mx_rows (sample_nest 3) = int 2" "mx_cols (sample_nest 3) = int 3" "1 < (2 :: nat)" "1 < (3 :: nat)" "length ?addrs = 2 * 3"
    "(0 :: int) \<noteq> 1" using f by simp_all
  from matrix_traversal[OF sample_nest_facts(1,3,4,5) this(6,1-5) f(5-8), where raw = sample_collector
      and info = "sample_pis rowMajor 1 1 0 0"]
  obtain c where c: "parseFunction sample_garbage (matrix_blocks (sample_nest 3)) (matrix_loops (sample_nest 3))
      (collector_start sample_collector) = Inr c"
    "\<And>b. b_InfoCollection b = collected c \<Longrightarrow>
       (case operand_list arrayOperand 108 164 ?addrs (sample_pis rowMajor 1 1 0 0) b of
          Inl e \<Rightarrow> 3 < (2 :: nat) | Inr (k, l, _, _) \<Rightarrow> if (2 :: nat) = 3 then l = ?addrs else (2 :: nat) < 3 \<and> \<not> distinct l)"
    unfolding f by blast
  let ?b = "(sample_b ''and'' 0 4)\<lparr>b_InfoCollection := collected c\<rparr>"
  have b: "b_InfoCollection ?b = collected c" by simp
  obtain k l info' b' where l: "operand_list arrayOperand 108 164 ?addrs (sample_pis rowMajor 1 1 0 0) ?b = Inr (k, l, info', b')" "\<not> distinct l"
    using c(2)[OF b] by (auto split: sum.splits)
  have "k = int (length l)" "b' = ?b" using l(1) by (auto simp: operand_list_def ebind_Inr_iff)
  then show ?thesis using c(1) b l by blast
qed

end
