(* ===== verification/Collect_Invariant.thy ===== *)
theory Collect_Invariant
  imports Array_Loops
begin

text \<open>
  The invariant of the walk: the tables stay ordered, every allocated register is an iterator or has a
  list of aliases but not both, every loop has its iterator with its information and its nest, and
  what the binder reads for a pointer is there.
\<close>

section \<open>The invariant\<close>

definition tables_inv :: "collector \<Rightarrow> bool" where
  "tables_inv c \<longleftrightarrow> sm_inv (iteratorsAliasMap c) \<and> sm_inv (aliasInfoMap c) \<and> sm_inv (initValuesMap c) \<and> sm_inv (arraysInfoMap c) \<and>
     sm_inv (loopIteratorMap c) \<and> sm_inv (combinedIteratorsMap c) \<and> sm_inv (PIT c) \<and> lit_inv (LIT c)"

definition registers :: "ptr set \<Rightarrow> collector \<Rightarrow> bool" where
  "registers A c \<longleftrightarrow> dom (sm_find (iteratorsAliasMap c)) \<union> dom (sm_find (aliasInfoMap c)) = A \<and>
     dom (sm_find (iteratorsAliasMap c)) \<inter> dom (sm_find (aliasInfoMap c)) = {}"

definition known_iterators :: "collector \<Rightarrow> ptr set" where
  "known_iterators c =
     dom (sm_find (iteratorsAliasMap c)) \<inter> dom (sm_find (loopInfoMap (LIT c))) \<inter> dom (sm_find (nestedLoopMap (LIT c)))"

definition loops_known :: "collector \<Rightarrow> bool" where
  "loops_known c \<longleftrightarrow> ran (sm_find (loopIteratorMap c)) \<subseteq> known_iterators c"

definition pointers_known :: "collector \<Rightarrow> bool" where
  "pointers_known c \<longleftrightarrow> (\<forall>info \<in> ran (sm_find (PIT c)).
     \<exists>counts. iteration_counts (LIT c) (getIterationVector (LIT c) (loopIterator info)) = Inr counts)"

definition collector_inv :: "ptr set \<Rightarrow> collector \<Rightarrow> bool" where
  "collector_inv A c \<longleftrightarrow> tables_inv c \<and> registers A c \<and> loops_known c \<and> pointers_known c"

lemma sm_find_empty [simp]: "sm_find [] = Map.empty"
  by (rule ext) simp

text \<open>The parts of the collector on which the invariant depends.\<close>

lemma collector_inv_cong:
  assumes "collector_inv A c" "iteratorsAliasMap c' = iteratorsAliasMap c" "aliasInfoMap c' = aliasInfoMap c"
    "initValuesMap c' = initValuesMap c" "arraysInfoMap c' = arraysInfoMap c" "loopIteratorMap c' = loopIteratorMap c"
    "combinedIteratorsMap c' = combinedIteratorsMap c" "PIT c' = PIT c" "LIT c' = LIT c"
  shows "collector_inv A c'"
  using assms(1) unfolding collector_inv_def tables_inv_def registers_def loops_known_def known_iterators_def pointers_known_def
  by (simp add: assms(2-9))

lemma collector_inv_start: "collector_inv {} (collector_start raw)"
  by (simp add: collector_inv_def tables_inv_def registers_def loops_known_def pointers_known_def collector_start_def)

text \<open>Renaming an iterator, and a new alias.\<close>

lemma inv_rename:
  assumes "collector_inv A c" "dom (sm_find m) = dom (sm_find (iteratorsAliasMap c))" "sm_inv m"
  shows "collector_inv A (c\<lparr>iteratorsAliasMap := m\<rparr>)"
  using assms unfolding collector_inv_def tables_inv_def registers_def loops_known_def known_iterators_def pointers_known_def
  by simp

lemma inv_alias:
  assumes "collector_inv A c"
  shows "collector_inv A (push_alias reg p c)"
  using assms unfolding push_alias_def collector_inv_def tables_inv_def registers_def loops_known_def known_iterators_def pointers_known_def
  by (simp add: sm.dom_modify)

lemma inv_tables:
  assumes "collector_inv A c"
  shows "collector_inv A (c\<lparr>initValuesMap := sm_insert k v (initValuesMap c)\<rparr>)"
    "collector_inv A (c\<lparr>arraysInfoMap := sm_insert k l (arraysInfoMap c)\<rparr>)"
    "sm_inv m \<Longrightarrow> collector_inv A (c\<lparr>combinedIteratorsMap := m\<rparr>)"
  using assms unfolding collector_inv_def tables_inv_def registers_def loops_known_def known_iterators_def pointers_known_def
  by simp_all

text \<open>A register becomes an iterator.\<close>

lemma inv_new_iterator:
  assumes "collector_inv A c" "erase_alias reg (c\<lparr>iteratorsAliasMap := sm_insert reg p (iteratorsAliasMap c)\<rparr>) = Inr c'"
  shows "collector_inv A c'" "reg \<in> dom (sm_find (iteratorsAliasMap c'))" "loopInfoMap (LIT c') = loopInfoMap (LIT c)"
proof -
  have c': "c' = c\<lparr>iteratorsAliasMap := sm_insert reg p (iteratorsAliasMap c), aliasInfoMap := sm_erase reg (aliasInfoMap c)\<rparr>"
    and reg: "sm_find (aliasInfoMap c) reg \<noteq> None"
    using assms(2) by (auto simp: erase_alias_def split: if_splits)
  have sm: "sm_inv (iteratorsAliasMap c)" "sm_inv (aliasInfoMap c)" using assms(1) by (simp_all add: collector_inv_def tables_inv_def)
  have it: "dom (sm_find (sm_insert reg p (iteratorsAliasMap c))) = {reg} \<union> dom (sm_find (iteratorsAliasMap c))"
    by (rule sm.dom_insert[OF sm(1)])
  have al: "dom (sm_find (sm_erase reg (aliasInfoMap c))) = dom (sm_find (aliasInfoMap c)) - {reg}"
    by (rule sm.dom_erase[OF sm(2)])
  have "reg \<in> dom (sm_find (aliasInfoMap c))" using reg by auto
  moreover have "registers A c" using assms(1) by (simp add: collector_inv_def)
  ultimately have "registers A c'" unfolding registers_def c' by (simp add: it al) blast
  moreover have "tables_inv c'" "pointers_known c'"
    using assms(1) unfolding c' collector_inv_def tables_inv_def pointers_known_def by simp_all
  moreover have "loops_known c'"
    using assms(1) unfolding c' collector_inv_def loops_known_def known_iterators_def by (simp add: it) blast
  ultimately show "collector_inv A c'" by (simp add: collector_inv_def)
  show "reg \<in> dom (sm_find (iteratorsAliasMap c'))" by (simp add: c' it)
  show "loopInfoMap (LIT c') = loopInfoMap (LIT c)" by (simp add: c')
qed

section \<open>Allocations and loops\<close>

definition allocations :: "basicBlock \<Rightarrow> ptr set" where
  "allocations BB = i_addr ` {I \<in> set (bb_insts BB). \<exists>ty. i_kind I = AllocaInst ty}"

lemma inv_alloca:
  assumes "collector_inv A c" "iteratorsAliasMap c = []"
  shows "collector_inv (A \<union> (if \<exists>ty. i_kind I = AllocaInst ty then {i_addr I} else {})) (parse_alloca I c)"
    "iteratorsAliasMap (parse_alloca I c) = []"
proof -
  have sm: "sm_inv (aliasInfoMap c)" using assms(1) by (simp add: collector_inv_def tables_inv_def)
  have ins: "collector_inv ({p} \<union> A) (c\<lparr>aliasInfoMap := sm_insert p [] (aliasInfoMap c)\<rparr>)"
    if "collector_inv A c" "iteratorsAliasMap c = []" for c p
  proof -
    have "sm_inv (aliasInfoMap c)" using that(1) by (simp add: collector_inv_def tables_inv_def)
    note dom = sm.dom_insert[OF this]
    show ?thesis
      using that unfolding collector_inv_def tables_inv_def registers_def loops_known_def known_iterators_def pointers_known_def
      by (simp add: dom)
  qed
  show "iteratorsAliasMap (parse_alloca I c) = []"
    using assms(2) by (auto simp: parse_alloca_def Let_def split: llvmKind.split option.split)
  show "collector_inv (A \<union> (if \<exists>ty. i_kind I = AllocaInst ty then {i_addr I} else {})) (parse_alloca I c)"
  proof (cases "\<exists>ty. i_kind I = AllocaInst ty")
    case True
    then obtain ty where ty: "i_kind I = AllocaInst ty" ..
    show ?thesis
    proof (cases "array_dims ty")
      case None
      then show ?thesis using ty ins[OF assms] by (simp add: parse_alloca_def)
    next
      case (Some d)
      let ?c = "c\<lparr>arraysInfoMap := sm_insert (i_addr I) [fst d, snd d] (arraysInfoMap c)\<rparr>"
      have "collector_inv A ?c" "iteratorsAliasMap ?c = []" using inv_tables(2)[OF assms(1)] assms(2) by simp_all
      from ins[OF this, of "i_addr I"] show ?thesis using ty Some by (cases d) (simp add: parse_alloca_def)
    qed
  next
    case False
    then show ?thesis using assms(1) by (auto simp: parse_alloca_def split: llvmKind.split)
  qed
qed

lemma inv_allocas:
  "collector_inv (allocations BB) (parseAllocaInstructions BB (collector_start raw))"
proof -
  have "collector_inv (A \<union> i_addr ` {I \<in> set Is. \<exists>ty. i_kind I = AllocaInst ty}) (fold parse_alloca Is c)"
    if "collector_inv A c" "iteratorsAliasMap c = []" for Is A c
    using that
  proof (induction Is arbitrary: A c)
    case (Cons I Is)
    have "A \<union> (if \<exists>ty. i_kind I = AllocaInst ty then {i_addr I} else {}) \<union> i_addr ` {I \<in> set Is. \<exists>ty. i_kind I = AllocaInst ty} =
        A \<union> i_addr ` {I' \<in> set (I # Is). \<exists>ty. i_kind I' = AllocaInst ty}" by auto
    moreover from Cons.IH[OF inv_alloca[OF Cons.prems], of I] have "collector_inv (A \<union> (if \<exists>ty. i_kind I = AllocaInst ty then {i_addr I} else {}) \<union>
        i_addr ` {I \<in> set Is. \<exists>ty. i_kind I = AllocaInst ty}) (fold parse_alloca (I # Is) c)" by simp
    ultimately show ?case by metis
  qed simp
  from this[OF collector_inv_start] show ?thesis
    by (simp add: allocations_def parseAllocaInstructions_def collector_start_def)
qed

lemma inv_preheader: "collector_inv A c \<Longrightarrow> collector_inv A (parseLoopPreheader BB c)"
proof -
  assume c: "collector_inv A c"
  have step: "collector_inv A (parse_preheader_inst I c)" if c: "collector_inv A c" for I c
  proof (cases "i_kind I")
    case (LoadInst op0)
    have "sm_inv (iteratorsAliasMap c)" using c by (simp add: collector_inv_def tables_inv_def)
    then show ?thesis using inv_rename[OF c] LoadInst by (simp add: parse_preheader_inst_def sm.dom_modify)
  next
    case (StoreInst op0 op1)
    have "collector_inv A (c\<lparr>tmpVariableInitIterator := p\<rparr>)" for p by (rule collector_inv_cong[OF c]) simp_all
    then show ?thesis using inv_tables(1)[OF c] c StoreInst by (simp add: parse_preheader_inst_def split: option.split)
  qed (use c in \<open>simp_all add: parse_preheader_inst_def\<close>)
  have "collector_inv A (fold parse_preheader_inst Is c)" if "collector_inv A c" for Is c
    using that by (induction Is arbitrary: c) (simp_all add: step)
  then show ?thesis using c by (simp add: parseLoopPreheader_def)
qed


text \<open>The header: when the name of the loop is set, it is that of an iterator.\<close>

definition header_inv :: "ptr set \<Rightarrow> header_state \<Rightarrow> bool" where
  "header_inv A = (\<lambda>(it, loopInfo, c). collector_inv A c \<and> (\<forall>r. it = Some r \<longrightarrow> r \<in> dom (sm_find (iteratorsAliasMap c))))"

lemma inv_header_load:
  assumes "header_inv A s" "parse_header_load g I op0 s = Inr s'" "g_end_key g = Inl e"
  shows "header_inv A s'"
proof -
  obtain it loopInfo c where s: "s = (it, loopInfo, c)" by (cases s)
  have c: "collector_inv A c" and it: "\<forall>r. it = Some r \<longrightarrow> r \<in> dom (sm_find (iteratorsAliasMap c))"
    using assms(1) by (simp_all add: header_inv_def s)
  have sm: "sm_inv (iteratorsAliasMap c)" using c by (simp add: collector_inv_def tables_inv_def)
  show ?thesis
  proof (cases "sm_find (iteratorsAliasMap c) (v_addr op0)")
    case (Some a)
    then have s': "s' = (it, loopInfo, c\<lparr>iteratorsAliasMap := sm_modify (v_addr op0) (\<lambda>_. i_addr I) (iteratorsAliasMap c)\<rparr>)"
      using assms(2) by (auto simp: s parse_header_load_def Let_def split: option.splits)
    have "collector_inv A (c\<lparr>iteratorsAliasMap := sm_modify (v_addr op0) (\<lambda>_. i_addr I) (iteratorsAliasMap c)\<rparr>)"
      by (rule inv_rename[OF c]) (simp_all add: sm sm.dom_modify)
    then show ?thesis using it sm by (simp add: s' header_inv_def sm.dom_modify)
  next
    case None
    then obtain info' c' where "erase_alias (v_addr op0) (c\<lparr>iteratorsAliasMap := sm_insert (v_addr op0) (i_addr I) (iteratorsAliasMap c)\<rparr>) = Inr c'"
      "s' = (Some (v_addr op0), info', c')"
      using assms(2,3) by (auto simp: s parse_header_load_def Let_def ebind_Inr_iff split: option.splits)
    then show ?thesis using inv_new_iterator[OF c] by (simp add: header_inv_def)
  qed
qed

lemma inv_header:
  assumes "header_inv A s" "parse_header_inst g LL I s = Inr s'" "g_end_key g = Inl e"
  shows "header_inv A s'"
proof -
  obtain it loopInfo c where s: "s = (it, loopInfo, c)" by (cases s)
  have c: "collector_inv A c" and it: "\<forall>r. it = Some r \<longrightarrow> r \<in> dom (sm_find (iteratorsAliasMap c))"
    using assms(1) by (simp_all add: header_inv_def s)
  show ?thesis
  proof (cases "i_kind I")
    case (LoadInst op0)
    then show ?thesis using inv_header_load[OF assms(1) _ assms(3)] assms(2) by (simp add: parse_header_inst_def)
  next
    case (ICmpInst p op0 op1)
    then obtain info' where "s' = (it, info', c)"
      using assms(2) by (auto simp: s parse_header_inst_def parse_header_icmp_def ebind_Inr_iff split: option.splits)
    then show ?thesis using c it by (simp add: header_inv_def)
  next
    case (BranchInst ops)
    then obtain info' l where "s' = (it, info', c\<lparr>loopBodyList := l\<rparr>)"
      using assms(2) by (auto simp: s parse_header_inst_def parse_header_branch_def ebind_Inr_iff Let_def)
    moreover have "collector_inv A (c\<lparr>loopBodyList := l\<rparr>)" by (rule collector_inv_cong[OF c]) simp_all
    ultimately show ?thesis using it by (simp add: header_inv_def)
  qed (use assms(2) in \<open>simp_all add: parse_header_inst_def\<close>)
qed

lemma inv_info:
  assumes "collector_inv A c" "pointers_known (c\<lparr>LIT := lit\<rparr>)" "lit_inv lit"
    and "dom (sm_find (loopInfoMap (LIT c))) \<subseteq> dom (sm_find (loopInfoMap lit))"
    and "dom (sm_find (nestedLoopMap (LIT c))) \<subseteq> dom (sm_find (nestedLoopMap lit))"
  shows "collector_inv A (c\<lparr>LIT := lit\<rparr>)"
proof -
  have "known_iterators c \<subseteq> known_iterators (c\<lparr>LIT := lit\<rparr>)" using assms(4,5) by (auto simp: known_iterators_def)
  then have "loops_known (c\<lparr>LIT := lit\<rparr>)" using assms(1) by (auto simp: collector_inv_def loops_known_def)
  then show ?thesis using assms(1-3) by (simp add: collector_inv_def tables_inv_def registers_def)
qed

text \<open>The loops are collected before any pointer.\<close>

definition loops_inv :: "ptr set \<Rightarrow> collector \<Rightarrow> bool" where
  "loops_inv A c \<longleftrightarrow> collector_inv A c \<and> PIT c = []"

lemma pointers_none: "PIT c = [] \<Longrightarrow> pointers_known c"
  by (simp add: pointers_known_def)

lemma header_PIT: "parse_header_inst g LL I (it, info, c) = Inr (it', info', c') \<Longrightarrow> PIT c' = PIT c"
  by (cases "i_kind I")
     (auto simp: parse_header_inst_def parse_header_load_def parse_header_icmp_def parse_header_branch_def erase_alias_def
       ebind_Inr_iff Let_def split: option.splits if_splits)

lemma inv_header_and_latch:
  assumes "loops_inv A c" "parseLoopHeaderAndLatch g LH LL c = Inr (it, c')" "g_end_key g = Inl e"
  shows "loops_inv A c'" "it \<in> dom (sm_find (iteratorsAliasMap c'))" "it \<in> dom (sm_find (loopInfoMap (LIT c')))"
proof -
  obtain info0 info c1 where h: "efold (parse_header_inst g LL) (bb_insts LH) (None, info0, c) = Inr (Some it, info, c1)"
    "c' = c1\<lparr>LIT := insertLoopInfo it info (LIT c1)\<rparr>"
    using assms(2) by (auto simp: parseLoopHeaderAndLatch_def ebind_Inr_iff or_fail_Inr_iff)
  let ?P = "\<lambda>s. header_inv A s \<and> PIT (snd (snd s)) = []"
  have "?P (Some it, info, c1)"
  proof (rule efold_invariant[OF h(1)])
    show "?P (None, info0, c)" using assms(1) by (simp add: header_inv_def loops_inv_def)
    show "?P s'" if "?P s" "parse_header_inst g LL I s = Inr s'" for I s s'
    proof
      show "header_inv A s'" using inv_header[OF _ that(2) assms(3)] that(1) by blast
      obtain a b d where "s = (a, b, d)" by (cases s)
      moreover obtain a' b' d' where "s' = (a', b', d')" by (cases s')
      ultimately show "PIT (snd (snd s')) = []" using header_PIT that by fastforce
    qed
  qed
  then have c1: "collector_inv A c1" "it \<in> dom (sm_find (iteratorsAliasMap c1))" "PIT c1 = []"
    by (simp_all add: header_inv_def)
  have lit: "lit_inv (LIT c1)" using c1(1) by (simp add: collector_inv_def tables_inv_def)
  then have "sm_inv (loopInfoMap (LIT c1))" by (simp add: lit_inv_def)
  note dom = sm.dom_insert[OF this]
  have "collector_inv A c'"
    unfolding h(2) by (rule inv_info[OF c1(1)]) (use lit c1(3) in \<open>auto simp: pointers_none insertLoopInfo_def lit_inv_def dom\<close>)
  then show "loops_inv A c'" using c1(3) by (simp add: loops_inv_def h(2))
  show "it \<in> dom (sm_find (iteratorsAliasMap c'))" using c1(2) by (simp add: h(2))
  show "it \<in> dom (sm_find (loopInfoMap (LIT c')))" by (simp add: h(2) insertLoopInfo_def dom)
qed

lemma inv_loop:
  assumes "loops_inv A c" "collect_loop g blocks loops L c = Inr c'" "g_end_key g = Inl e"
  shows "loops_inv A c'"
proof -
  let ?c0 = "c\<lparr>loopPreheaderList := loopPreheaderList c @ [l_preheader L],
                loopHeaderList := loopHeaderList c @ [l_header L], loopLatchList := loopLatchList c @ [l_latch L]\<rparr>"
  obtain PH LL LH it c1 parent where h: "parseLoopHeaderAndLatch g LH LL (parseLoopPreheader PH ?c0) = Inr (it, c1)"
    "for_loop 1 (l_depth L) 1 (push_parent loops it)
       (l_addr L, c1\<lparr>loopIteratorMap := sm_insert (l_addr L) it (loopIteratorMap c1), LIT := insertNewLoopIt it (LIT c1)\<rparr>) = Inr (parent, c')"
    using assms(2) by (auto simp: collect_loop_def ebind_Inr_iff Let_def)
  have "collector_inv A ?c0" by (rule collector_inv_cong) (use assms(1) in \<open>simp_all add: loops_inv_def\<close>)
  then have "collector_inv A (parseLoopPreheader PH ?c0)" by (rule inv_preheader)
  moreover have "PIT (fold parse_preheader_inst Is d) = PIT d" for Is d
    by (induction Is arbitrary: d) (auto simp: parse_preheader_inst_def split: llvmKind.split option.split)
  ultimately have "loops_inv A (parseLoopPreheader PH ?c0)" using assms(1) by (simp add: loops_inv_def parseLoopPreheader_def)
  note c1 = inv_header_and_latch[OF this h(1) assms(3)]
  have tables: "tables_inv c1" "PIT c1 = []" "loops_known c1" "registers A c1"
    using c1(1) by (simp_all add: loops_inv_def collector_inv_def)
  then have lit: "lit_inv (LIT c1)" "sm_inv (loopIteratorMap c1)" by (simp_all add: tables_inv_def)
  then have "sm_inv (nestedLoopMap (LIT c1))" by (simp add: lit_inv_def)
  note dom = sm.dom_insert[OF this]
  let ?c2 = "c1\<lparr>loopIteratorMap := sm_insert (l_addr L) it (loopIteratorMap c1), LIT := insertNewLoopIt it (LIT c1)\<rparr>"
  have known: "known_iterators ?c2 = known_iterators c1 \<union> {it}"
    using c1(2,3) by (auto simp: known_iterators_def insertNewLoopIt_def dom)
  have "ran (sm_find (sm_insert (l_addr L) it (loopIteratorMap c1))) \<subseteq> ran (sm_find (loopIteratorMap c1)) \<union> {it}"
    by (auto simp: ran_def sm_find_insert[OF lit(2)] split: if_splits)
  then have "loops_known ?c2" using tables(3) unfolding loops_known_def known by auto
  then have c2: "loops_inv A ?c2"
    using tables(1,2,4) lit(1) by (simp add: loops_inv_def collector_inv_def tables_inv_def registers_def pointers_none)
  show ?thesis
  proof -
    have step: "loops_inv A (snd s')" if s: "loops_inv A (snd s)" "push_parent loops it i s = Inr s'" for i s s'
    proof -
      obtain p parentIt where s': "s' = (p, (snd s)\<lparr>LIT := pushNestedLoop it parentIt (LIT (snd s))\<rparr>)"
        using s(2) by (cases s) (auto simp: push_parent_def ebind_Inr_iff)
      have lit: "lit_inv (LIT (snd s))" using s(1) by (simp add: loops_inv_def collector_inv_def tables_inv_def)
      then have "sm_inv (nestedLoopMap (LIT (snd s)))" by (simp add: lit_inv_def)
      note dom = sm.dom_modify[OF this]
      have "collector_inv A ((snd s)\<lparr>LIT := pushNestedLoop it parentIt (LIT (snd s))\<rparr>)"
        by (rule inv_info) (use s(1) lit in \<open>simp_all add: loops_inv_def pointers_none pushNestedLoop_def dom lit_inv_def\<close>)
      then show ?thesis using s(1) by (simp add: s' loops_inv_def)
    qed
    obtain vals where "efold (push_parent loops it) vals (l_addr L, ?c2) = Inr (parent, c')"
      using h(2) by (auto simp: for_loop_def ebind_Inr_iff)
    from efold_invariant[OF this, of "\<lambda>s. loops_inv A (snd s)"] c2 step show ?thesis by auto
  qed
qed

lemma inv_loops:
  assumes "loops_inv A c" "collectLoopInfo g blocks loops c = Inr c'" "g_end_key g = Inl e"
  shows "loops_inv A c'"
  using efold_invariant[OF assms(2)[unfolded collectLoopInfo_def], of "loops_inv A"] assms(1) inv_loop[OF _ _ assms(3)] by blast

section \<open>Loop bodies\<close>

lemma inv_body_add: "collector_inv A c \<Longrightarrow> collector_inv A (parse_body_add g I op1 op2 c)"
proof -
  assume c: "collector_inv A c"
  have "collector_inv A (combine p idx c)" for p idx
    unfolding combine_def using c by (intro inv_tables(3)) (simp_all add: collector_inv_def tables_inv_def)
  then show ?thesis using c by (auto simp: parse_body_add_def split: prod.split option.split)
qed

lemma inv_body_load: "collector_inv A c \<Longrightarrow> collector_inv A (parse_body_load I op0 c)"
proof -
  assume c: "collector_inv A c"
  then have sm: "sm_inv (iteratorsAliasMap c)" by (simp add: collector_inv_def tables_inv_def)
  have "collector_inv A (c\<lparr>iteratorsAliasMap := sm_modify (v_addr op0) (\<lambda>_. i_addr I) (iteratorsAliasMap c)\<rparr>)"
    by (rule inv_rename[OF c]) (simp_all add: sm sm.dom_modify)
  then show ?thesis using inv_alias[OF c] by (simp add: parse_body_load_def push_alias_def)
qed

lemma renamed_table:
  "map fst (map (\<lambda>(reg, alias). (reg, if alias = a then b else alias)) m) = map fst (m :: (ptr, ptr) smap)"
  by (induction m) auto

lemma inv_sext: "collector_inv A c \<Longrightarrow> collector_inv A (parse_sext I op0 c)"
proof -
  assume c: "collector_inv A c"
  then have sm: "sm_inv (iteratorsAliasMap c)" "sm_inv (combinedIteratorsMap c)" by (simp_all add: collector_inv_def tables_inv_def)
  let ?m = "map (\<lambda>(reg, alias). (reg, if alias = v_addr op0 then i_addr I else alias)) (iteratorsAliasMap c)"
  have m: "sm_inv ?m" using sm(1) unfolding sm_inv_def renamed_table .
  have "fst ` set ?m = fst ` set (iteratorsAliasMap c)" using arg_cong[OF renamed_table, of set] by (simp add: image_image)
  then have "dom (sm_find ?m) = dom (sm_find (iteratorsAliasMap c))"
    using sm.dom_lookup[OF m] sm.dom_lookup[OF sm(1)] by simp
  then have "collector_inv A (c\<lparr>iteratorsAliasMap := ?m\<rparr>)" by (rule inv_rename[OF c _ m])
  moreover have "collector_inv A (c\<lparr>combinedIterators := l, combinedIteratorsMap := m'\<rparr>)" if "sm_inv m'" for l m'
    by (rule collector_inv_cong[OF inv_tables(3)[OF c that]]) simp_all
  ultimately show ?thesis using sm by (simp add: parse_sext_def split: option.split)
qed

lemma inv_read_index: "collector_inv A c \<Longrightarrow> collector_inv A (read_index g dims op2 c)"
proof -
  assume c: "collector_inv A c"
  have set: "collector_inv A (set_index dims idx c)" if "collector_inv A c" for idx c
    by (rule collector_inv_cong[OF that]) (simp_all add: set_index_def)
  have scan: "collector_inv A (fold (\<lambda>(reg, alias) c. if alias = a then set_index dims (index_info g [reg] 0 0) c else c) m c)"
    if "collector_inv A c" for m a c
    using that by (induction m arbitrary: c) (auto simp: set)
  then show ?thesis using c by (simp add: read_index_def set scan[OF c] split: option.split)
qed

text \<open>The geometry does not change the loop of a pointer.\<close>

lemma matrix_loopIterator:
  "matrix_single lit c0 c1 it1 it3 info = Inr info' \<Longrightarrow> loopIterator info' = loopIterator info"
  "matrix_pairs lit c0 c1 p q info = Inr info' \<Longrightarrow> loopIterator info' = loopIterator info"
  "matrix_second_pair lit c0 c1 it1 q info = Inr info' \<Longrightarrow> loopIterator info' = loopIterator info"
  "matrix_first_pair lit c0 c1 p it3 info = Inr info' \<Longrightarrow> loopIterator info' = loopIterator info"
  by (auto simp: matrix_single_def matrix_pairs_def matrix_second_pair_def matrix_first_pair_def set_stops_def ebind_Inr_iff
      split: prod.splits if_splits)

lemma matrix_geometry_loopIterator:
  assumes "matrix_geometry lit h apc idx1 idx2 info = Inr info'"
  shows "loopIterator info' = loopIterator info"
  using assms unfolding matrix_geometry_def ebind_Inr_iff
  by (cases "iterators idx1" rule: remdups_adj.cases; cases "iterators idx2" rule: remdups_adj.cases)
     (auto simp: neq_Nil_conv dest: matrix_loopIterator split: list.splits if_splits)

lemma vector_geometry_loopIterator:
  "vector_geometry lit h apc idx info = Inr info' \<Longrightarrow> loopIterator info' = loopIterator info"
  by (cases "iterators idx" rule: remdups_adj.cases) (auto simp: vector_geometry_def ebind_Inr_iff Let_def split: if_splits)

text \<open>A new pointer is entered with whatever there is, and gets its information at once.\<close>

lemma ebind_Inr_E: "ebind r f = Inr y \<Longrightarrow> (\<And>x. r = Inr x \<Longrightarrow> f x = Inr y \<Longrightarrow> P) \<Longrightarrow> P"
  by (auto simp: ebind_Inr_iff)

lemma set_pointer_cases:
  assumes "setPointerInfo g p I c = Inr c'"
  obtains it counts idx1 idx2 h apc rows info0 info l where
    "iteration_counts (LIT c) (getIterationVector (LIT c) it) = Inr counts" "loopIterator info0 = it"
    "(if rows > (1 :: int) then matrix_geometry (LIT c) h apc idx1 idx2 info0 else vector_geometry (LIT c) h apc idx1 info0) = Inr info"
    "c' = c\<lparr>PIT := sm_modify p (\<lambda>_. info) (PIT c), iterationList := l\<rparr>"
proof -
  from assms obtain info it counts rows cols ap apc info1 pit where s:
    "iteration_counts (LIT c) (getIterationVector (LIT c) it) = Inr counts"
    "(if rows > (1 :: int) then matrix_geometry (LIT c) (g_heap g) apc (firstIdxInfo info) (secondIdxInfo info)
        (info\<lparr>loopIterator := it, pointerAccessPattern := ap, pointerAccessPatternConstant := apc, arrayCols := cols, arrayRows := rows\<rparr>)
      else vector_geometry (LIT c) (g_heap g) apc (firstIdxInfo info)
        (info\<lparr>loopIterator := it, pointerAccessPattern := ap, pointerAccessPatternConstant := apc, arrayCols := cols, arrayRows := rows\<rparr>)) =
      Inr info1"
    "modifyPointerInfo p info1 (PIT c) = Inr pit" "(Inr (c\<lparr>PIT := pit, iterationList := rev (iterationList c @ counts)\<rparr>) :: collector res) = Inr c'"
    unfolding setPointerInfo_def Let_def split_beta
    by (elim ebind_Inr_E) (rule that)
  then show ?thesis by (intro that[OF s(1) _ s(2)]) (auto simp: modifyPointerInfo_def split: if_splits)
qed

lemma inv_set_pointer:
  assumes "collector_inv A c" "setPointerInfo g p I (c\<lparr>PIT := insertPointerInfo p x (PIT c)\<rparr>) = Inr c'"
  shows "collector_inv A c'"
proof -
  let ?pit = "insertPointerInfo p x (PIT c)"
  let ?d = "c\<lparr>PIT := ?pit\<rparr>"
  obtain it counts idx1 idx2 h apc rows info0 info l where h:
    "iteration_counts (LIT ?d) (getIterationVector (LIT ?d) it) = Inr counts" "loopIterator info0 = it"
    "(if rows > (1 :: int) then matrix_geometry (LIT ?d) h apc idx1 idx2 info0 else vector_geometry (LIT ?d) h apc idx1 info0) = Inr info"
    "c' = ?d\<lparr>PIT := sm_modify p (\<lambda>_. info) (PIT ?d), iterationList := l\<rparr>"
    by (rule set_pointer_cases[OF assms(2)])
  have c': "c' = c\<lparr>PIT := sm_modify p (\<lambda>_. info) ?pit, iterationList := l\<rparr>" using h(4) by simp
  have it: "loopIterator info = it"
    using h(2,3) matrix_geometry_loopIterator vector_geometry_loopIterator by (metis (full_types))
  have sm: "sm_inv (PIT c)" using assms(1) by (simp add: collector_inv_def tables_inv_def)
  have "ran (sm_find (sm_modify p (\<lambda>_. info) ?pit)) \<subseteq> {info} \<union> ran (sm_find (PIT c))"
    using sm by (auto simp: ran_def insertPointerInfo_def sm_lookups split: if_splits option.splits)
  then have "pointers_known c'" using assms(1) h(1) it unfolding pointers_known_def collector_inv_def c' by auto
  then show ?thesis
    using assms(1) sm unfolding collector_inv_def tables_inv_def registers_def loops_known_def known_iterators_def c'
    by (simp add: insertPointerInfo_def)
qed

lemma push_alias_insert:
  "push_alias r p (insert_pointer q c) =
     (push_alias r p c)\<lparr>PIT := insertPointerInfo q (tmpPointerStruct c) (PIT (push_alias r p c))\<rparr>"
  by (cases c) (simp add: push_alias_def insert_pointer_def)

lemma inv_gep:
  assumes "collector_inv A c" "parse_gep g I ops c = Inr c'"
  shows "collector_inv A c'"
proof -
  obtain base where base: "list_at ops 0 = Inr base" using assms(2) by (auto simp: parse_gep_def ebind_Inr_iff)
  show ?thesis
  proof (cases "sm_find (arraysInfoMap c) (v_addr base)")
    case None
    then show ?thesis using assms base by (simp add: parse_gep_def)
  next
    case (Some dims)
    then obtain op2 rows where r: "list_at ops 2 = Inr op2" "(if dims = [] then g_front g else Inr (hd dims)) = Inr rows"
      using assms(2) base by (auto simp: parse_gep_def ebind_Inr_iff Let_def)
    let ?c = "read_index g dims op2 c"
    have c: "collector_inv A ?c" by (rule inv_read_index[OF assms(1)])
    consider "rows = 1" | "rows \<noteq> 1" "ptrValid ?c" | "rows \<noteq> 1" "\<not> ptrValid ?c" by blast
    then show ?thesis
    proof cases
      case 1
      let ?tmp = "(tmpPointerStruct ?c)\<lparr>secondIdxInfo := (g_index g)\<lparr>iterators := []\<rparr>\<rparr>"
      let ?d = "push_alias (v_addr base) (i_addr I) (?c\<lparr>tmpPointerStruct := ?tmp\<rparr>)"
      have "collector_inv A ?d" by (intro inv_alias collector_inv_cong[OF c]) simp_all
      moreover have "setPointerInfo g (i_addr I) I (?d\<lparr>PIT := insertPointerInfo (i_addr I) ?tmp (PIT ?d)\<rparr>) = Inr c'"
        using assms(2) base Some r 1 by (simp add: parse_gep_def Let_def push_alias_insert)
      ultimately show ?thesis by (rule inv_set_pointer)
    next
      case 2
      let ?e = "?c\<lparr>ptrValid := False\<rparr>"
      let ?reg = "getAllocatedReg (collected (insert_pointer (i_addr I) ?e)) (v_addr base)"
      let ?d = "push_alias ?reg (i_addr I) ?e"
      have "collector_inv A ?d" by (intro inv_alias collector_inv_cong[OF c]) simp_all
      moreover have "setPointerInfo g (i_addr I) I (?d\<lparr>PIT := insertPointerInfo (i_addr I) (tmpPointerStruct ?c) (PIT ?d)\<rparr>) = Inr c'"
        using assms(2) base Some r 2 by (simp add: parse_gep_def Let_def push_alias_insert)
      ultimately show ?thesis by (rule inv_set_pointer)
    next
      case 3
      then have "c' = push_alias (v_addr base) (i_addr I) (?c\<lparr>arraysInfoMap := sm_insert (i_addr I) [] (arraysInfoMap ?c)\<rparr>)"
        using assms(2) base Some r by (simp add: parse_gep_def Let_def)
      then show ?thesis using inv_alias[OF inv_tables(2)[OF c]] by simp
    qed
  qed
qed

lemma inv_body_inst:
  assumes "collector_inv A c" "parse_body_inst g I c = Inr c'"
  shows "collector_inv A c'"
proof (cases "i_kind I")
  case (GetElementPtrInst ops)
  then show ?thesis using assms(2) inv_gep[OF assms(1)] by (simp add: parse_body_inst_def)
qed (use assms in \<open>auto simp: parse_body_inst_def inv_body_load inv_body_add inv_sext inv_tables(1) split: option.splits if_splits\<close>)

lemma inv_block:
  assumes "collector_inv A c" "parse_block g BB c = Inr c'"
  shows "collector_inv A c'"
proof -
  have body: "collector_inv A d" if "parseLoopBody g BB c = Inr d" for d
    using efold_invariant[OF that[unfolded parseLoopBody_def], of "collector_inv A"] assms(1) inv_body_inst by blast
  have valid: "collector_inv A (push_valid BB d)" if "collector_inv A d" for d
    by (rule collector_inv_cong[OF that]) (simp_all add: push_valid_def)
  show ?thesis using assms body valid by (auto simp: parse_block_def ebind_Inr_iff split: if_splits)
qed

section \<open>Property\<close>

text \<open>
  C8: whenever the walk returns, the tables are ordered, each register that is allocated in the first
  block is either an iterator or has its list of aliases, each loop has an iterator with its
  information and its nest, and for each pointer the numbers of iterations are known that the binder
  asks for.
\<close>

theorem parseFunction_inv:
  assumes "parseFunction g (BB # BBs) loops (collector_start raw) = Inr c" "g_end_key g = Inl e"
  shows "collector_inv (allocations BB) c"
proof -
  let ?c = "push_valid BB (parseAllocaInstructions BB (collector_start raw))"
  obtain c1 where c1: "collectLoopInfo g (BB # BBs) loops ?c = Inr c1" "efold (parse_block g) BBs c1 = Inr c"
    using assms(1) by (auto simp: parseFunction_def ebind_Inr_iff)
  have "PIT (fold parse_alloca Is d) = PIT d" for Is d
    by (induction Is arbitrary: d) (auto simp: parse_alloca_def Let_def split: llvmKind.split option.split)
  then have "loops_inv (allocations BB) ?c"
    using inv_allocas[of BB raw]
    by (auto simp: loops_inv_def push_valid_def parseAllocaInstructions_def collector_start_def intro: collector_inv_cong)
  then have "collector_inv (allocations BB) c1" using inv_loops[OF _ c1(1) assms(2)] by (simp add: loops_inv_def)
  then show ?thesis using efold_invariant[OF c1(2), of "collector_inv (allocations BB)"] inv_block by blast
qed

theorem parseFunction_inv_witness:
  "\<exists>c. parseFunction sample_garbage (vector_blocks (sample_loop ICMP_SLT 0 6 2))
      [llvm_loop (counted_loop.truncate (sample_loop ICMP_SLT 0 6 2))] (collector_start sample_collector) = Inr c \<and>
    collector_inv {100, 104} c"
proof -
  let ?L = "sample_loop ICMP_SLT 0 6 2"
  have g: "g_heap sample_garbage = junk_heap (\<lambda>v k. 7)" "g_end_key sample_garbage = Inl (UB ''reads the end of a map'')"
    by (simp_all add: sample_garbage_def)
  obtain c where c: "parseFunction sample_garbage (vector_blocks ?L) [llvm_loop (counted_loop.truncate ?L)] (collector_start sample_collector) = Inr c"
    using vector_function[OF sample_loop_facts(1,2) g(1)] by blast
  have filtered: "allocations BB = set (map i_addr (filter (\<lambda>I. \<exists>ty. i_kind I = AllocaInst ty) (bb_insts BB)))" for BB
    by (auto simp: allocations_def)
  have "allocations (entry_block ?L) = {100, 104}"
    unfolding filtered by (simp add: entry_block_def start_insts_def sample_loop_def)
  then show ?thesis using parseFunction_inv[OF c[unfolded vector_blocks_def] g(2)] c by auto
qed

end
