(* ===== verification/Spec2Isabelle.thy ===== *)
theory Spec2Isabelle
  imports Octantis_Function Matrix_Loops Collect_Invariant Vhdl_Proofs Octantis_Pass Synthesis Loop_Info Address_List Instruction_Table ASAP LiM_Array FSM Std_String Straight_Line
begin

text \<open>
  Octantis: a synthesis tool that turns a C function, through LLVM, into a logic-in-memory (LiM)
  array, a memory whose rows can have an operator between their cells and their output. The tool is an
  LLVM pass in \<open>src/llvm/lib/Transforms/Octantis\<close> (all paths below are relative to it); the rest of
  \<open>src/llvm\<close> is LLVM itself and is only called.

  The program and its parts. \<open>OctantisPass::runOnFunction\<close> reads the configuration
  (\<open>Parsers/PrintConfig\<close>), lets \<open>Analysis/CollectInfo\<close> gather what it needs of loops, arrays and
  pointers, builds the instruction table (\<open>Analysis/DependencyDetector\<close>, \<open>Utils/InstructionTable\<close>),
  schedules it (\<open>Scheduling/ASAP\<close>), binds it to rows of the array (\<open>Binding/LiMBinder\<close> on
  \<open>Binding/LiMArray\<close> and \<open>Binding/FiniteStateMachine\<close>, with \<open>Utils/AccessPattern\<close> and
  \<open>Utils/AddressList\<close> for accesses to arrays), and prints the result (\<open>Code_Generation\<close>).

  Conventions. Everything is named by an \<open>int *\<close> in the code, LLVM values and rows alike; here an
  address is an \<open>int\<close>. An operation that can fail returns \<open>error + 'a\<close> (\<open>Octantis_Prelude\<close>): undefined
  behaviour, \<open>llvm_unreachable\<close>, an exception and an endless loop are different errors; \<open>ebind\<close> sequences
  operations and \<open>efold\<close> and \<open>for_loop\<close> are the loops. Members that the code does not initialise are
  taken from an arbitrary \<open>raw\<close> object, so that a theorem that holds for every \<open>raw\<close> does not depend
  on them. \<open>int\<close> values of the code are unbounded integers here; what is bounded by the number of
  instructions or rows does not overflow, and where a width matters (\<open>std::stoi\<close>, positions in a
  string) it is written out.

  Parameters. What LLVM knows of a function is the argument of the pass: its blocks, and for each loop what
  \<open>LoopInfo\<close> tells of it. A \<open>garbage\<close> (\<open>Collect_Walk\<close>) holds what a run finds where C++ says nothing: local
  variables without a value, memory behind a vector, the front of an empty list, the key of the end of
  a map. The theorems hold for all of them, or say what they ask of them.

  The theories.
  \<^item> \<open>Octantis_Prelude\<close>: failures, sequencing, loops, addresses. \<open>Std_Map\<close>: \<open>std::map\<close> as the locale
    \<open>ordered_map\<close> and its model, an ordered association list. \<open>Std_String\<close>: \<open>std::to_string\<close> and
    \<open>std::stoi\<close>. \<open>Named_Store\<close>: the interface of a table of rows by name. \<open>LLVM_IR\<close>: what is looked at in
    an LLVM instruction, a basic block and a loop.
  \<^item> \<open>Print_Config\<close>, \<open>Config_Proofs\<close>: the configuration file (\<open>fieldListMaker\<close>, \<open>ParseConfigFile\<close>, the
    getters, \<open>Print\<close>). The loop over a list of values is a \<open>partial_function\<close>, \<open>None\<close> when it does not
    return. The lemmas turn a line into an action on the data, so that a file that is written from
    sections and settings is read back, and reading again changes nothing.
  \<^item> \<open>Loop_Info\<close>, \<open>Pointer_Info\<close>, \<open>Collect_Info\<close>: the tables of the analysis and their queries.
    \<open>Collect_Walk\<close>, \<open>Pointer_Walk\<close>: the walk of \<open>CollectInfo\<close> over the function, one definition per kind of
    instruction and part of a loop (\<open>parseAllocaInstructions\<close>, \<open>collectLoopInfo\<close>, \<open>parseLoopPreheader\<close>,
    \<open>parseLoopHeaderAndLatch\<close>, \<open>parseLoopBody\<close>, \<open>setPointerInfo\<close>, \<open>parseFunction\<close>), with the division of
    \<open>float\<close> values by which iterations are counted. \<open>Collect_Invariant\<close>: the invariant \<open>collector_inv\<close>, kept
    by every step. \<open>Collect_Proofs\<close>, \<open>Array_Loops\<close>, \<open>Matrix_Loops\<close>: counted loops over vectors and matrices
    as clang writes them; the iterations are those of the loop, and the binder gets the rows of the
    elements that the loop visits, or does not: loops that count down, counters that are used twice,
    matrices that are not square.
  \<^item> \<open>Access_Pattern\<close>, \<open>Address_List\<close>: the classification of array accesses and the rows they visit.
  \<^item> \<open>Operation_Tables\<close>, \<open>Instruction_Table\<close>: the operations with their delays; the instruction table,
    its operations, its invariant \<open>it_inv\<close>, and the order in which it lists what has been inserted.
  \<^item> \<open>Dependency_Detector\<close>, \<open>Detector_Proofs\<close>: the walk over the instructions, one function per kind of
    instruction; every run changes the table only by its operations. The table that is made of
    straight-line assignments is stated in \<open>Synthesis\<close>.
  \<^item> \<open>ASAP\<close>: the scheduler; it computes the least feasible start times.
  \<^item> \<open>LiM_Array\<close>, \<open>FSM\<close>: the rows and their connections, and the table of times with its inversion and report.
  \<^item> \<open>LiM_Binder\<close>, \<open>Binding_Invariant\<close>: the state of the binder, \<open>performBinding\<close>, and the invariant
    \<open>binder_inv\<close> (rows, connections, names and times agree), kept by every operation.
    \<open>Bind_Handlers\<close>, \<open>Bind_Accumulation\<close>, \<open>Accumulation_Proofs\<close>: loads, parallel operations and
    accumulations. \<open>LiM_Bind\<close>: a whole run. \<open>Straight_Line\<close>: on linear scalar code (below) the run ends
    normally and every operation is wired to the rows of its operands.
  \<^item> \<open>Print_Vhdl\<close>, \<open>Vhdl_Output\<close>: the VHDL file and its test bench (\<open>PrintVhdlFile\<close>), as declarations and
    statements whose text is what they render to. \<open>Vhdl_Proofs\<close>: the printer does not fail on arrays of
    memory rows, sums and operators of two inputs (\<open>printable\<close>), and every signal it uses is declared;
    the signals of other operations are not, and a file with a sum does not elaborate, for its instances of
    the adder do not map the generic of the component. \<open>Vhdl_Semantics\<close>: what the processes of the printed architecture do at the
    edges of the clock, as a function from states to states, and the theorem that the hardware raises \<open>DONE\<close>
    with the values that the rows and their connections say (\<open>solves\<close>), for arrays without sums.
  \<^item> \<open>Synthesis\<close>, \<open>Octantis_Pass\<close>: the composition of the phases. The abstract specification is \<open>resolve\<close>,
    the values a program of assignments computes, and \<open>implements\<close>, an array that computes them; the
    pipeline refines the one to the other for linear programs, and the pass does so from the text of the
    configuration on. \<open>Straight_Hardware\<close>, \<open>Hardware_Synthesis\<close>: the printed hardware computes what linear
    assignments without sums compute on bytes (\<open>exec\<close>). \<open>Octantis_Function\<close>: the pass from the LLVM function to the VHDL file, and the theorem
    from the one end to the other.

  Loops. Loops over containers are folds over the list of the elements. The searching loops of
  \<open>performAccBinding\<close> are functions with a measure: the positions that are left in the list, and the
  rounds that are left of the \<open>ceil(log2(n))\<close> a list of \<open>n\<close> rows gets. No function has fuel. Loops that
  can run forever are an error value (\<open>LoopForever\<close>) or \<open>None\<close>, never cut short. The hardware is run for a
  given number of periods of the clock; that of the theorems (\<open>run_length\<close>) is the one after which
  \<open>DONE\<close> is raised.

  Library behaviour that is used: \<open>std::map\<close> visits its keys in ascending order and \<open>insert\<close> keeps
  what is there; \<open>std::list::merge\<close> on lists that are not sorted is that of libstdc++ (a single pass);
  \<open>float\<close> is the binary format of 32 bits, rounded to the nearest. The theorem on matrices asks that the
  front of an empty list does not happen to be 1 (it is 0 with libstdc++).

  Programs. The theorems from the source to the binder and to the hardware are about functions of one
  block with assignments on scalar variables that are linear (\<open>linear\<close>, \<open>straight_line\<close>): the operands of an
  assignment are different values, and its second operand has not been an operand before. The condition
  is not the program's own: it takes any code, but of \<open>c = a & b; d = a | b\<close>, for example, it silently drops
  the second operation (\<open>performBinding_drops_other_operation\<close>).

  The hardware. Between accesses from outside, so \<open>RST\<close> and \<open>EN\<close> are 0. A sum drives nothing, for a file
  with sums does not elaborate (\<open>printVhdl_sum_generic\<close>), and the theorems on values are about arrays
  and programs without sums. The memory of these theorems is large enough for the rows, which the
  printed one is not (\<open>printed_size_is_too_small\<close>).

  Constants of the source are those of C's \<open>int\<close>: what \<open>getSExtValue\<close> answers is stored in \<open>int\<close> members,
  and is taken as it is.

  Not modelled: \<open>PrintDexFile\<close> and \<open>PrintCadFile\<close>, which the pass has commented out; debug output and the
  opening of files, which have no effect on the result; the behaviour of the multiplexers and of the
  division in the printed hardware, whose text is modelled; LLVM itself.
\<close>

end
